(* ===== verification/Prelude.thy ===== *)
theory Prelude
  imports Main "HOL-Library.Sublist"
begin

text \<open>
  The language layer shared by every component: JavaScript numbers as the program uses
  them (integers, the two infinities and NaN), the standard \<open>parseInt\<close> and
  \<open>toString\<close> on integers with their round trip, array splicing, the error values
  that a thrown exception becomes, and the theorem collections of the development.
  \<^item> \<open>js_simps\<close>: evaluation of the number and string primitives;
  \<^item> \<open>path_simps\<close>: how paths and property accesses compose;
  \<^item> \<open>edit_simps\<close>: the functional equations of the four tree edits.
\<close>

named_theorems js_simps "evaluation of JavaScript primitives"
named_theorems path_simps "composition of paths and property accesses"
named_theorems edit_simps "functional equations of the tree edits"

section \<open>Exceptions as values\<close>

text \<open>
  A thrown exception is the left value of a sum. \<open>AssertionError\<close> is thrown by
  \<open>assert\<close>, \<open>TypeError\<close> by the language (a property of null or undefined),
  \<open>UnimplementedError\<close> by the classes of \<open>utils/Errors.ts\<close>, \<open>GenericError\<close>
  by \<open>throw new Error(...)\<close>, \<open>EarlyExitFromVIsitorException\<close> by the visitors of
  \<open>InterestedSpace.ts\<close>, \<open>SyntaxError\<close> by \<open>JSON.parse\<close>, and \<open>FailingTestError\<close> is the
  class of \<open>tc/src/exec.ts\<close>.
\<close>

datatype js_error =
  AssertionError | TypeError | UnimplementedError | GenericError | EarlyExitFromVIsitorException
  | SyntaxError | FailingTestError

type_synonym 'a result = "js_error + 'a"

fun bind_result :: "'a result \<Rightarrow> ('a \<Rightarrow> 'b result) \<Rightarrow> 'b result" where
  "bind_result (Inl e) f = Inl e"
| "bind_result (Inr x) f = f x"

definition js_assert :: "bool \<Rightarrow> unit result" where
  "js_assert b = (if b then Inr () else Inl AssertionError)"

lemma bind_result_Inr [simp]: "(bind_result r f = Inr y) = (\<exists>x. r = Inr x \<and> f x = Inr y)"
  by (cases r) auto

lemma js_assert_simps [simp]:
  "js_assert True = Inr ()" "js_assert False = Inl AssertionError"
  "(js_assert b = Inr u) = b" "(js_assert b = Inl e) = (\<not> b \<and> e = AssertionError)"
  by (auto simp: js_assert_def)

text \<open>The first error of a sequence of calls stops it, as an exception does.\<close>

fun map_result :: "('a \<Rightarrow> 'b result) \<Rightarrow> 'a list \<Rightarrow> 'b list result" where
  "map_result f [] = Inr []"
| "map_result f (x # xs) =
     bind_result (f x) (\<lambda>y. bind_result (map_result f xs) (\<lambda>ys. Inr (y # ys)))"

lemma map_result_Inr_map: "(\<And>x. x \<in> set xs \<Longrightarrow> f x = Inr (g x)) \<Longrightarrow> map_result f xs = Inr (map g xs)"
  by (induction xs) auto

lemma map_result_length: "map_result f xs = Inr ys \<Longrightarrow> length ys = length xs"
  by (induction xs arbitrary: ys) auto

text \<open>\<open>every\<close> and \<open>some\<close> of arrays, with a callback that may throw; both stop early.\<close>

fun every_result :: "('a \<Rightarrow> bool result) \<Rightarrow> 'a list \<Rightarrow> bool result" where
  "every_result f [] = Inr True"
| "every_result f (x # xs) = bind_result (f x) (\<lambda>b. if b then every_result f xs else Inr False)"

fun some_result :: "('a \<Rightarrow> bool result) \<Rightarrow> 'a list \<Rightarrow> bool result" where
  "some_result f [] = Inr False"
| "some_result f (x # xs) = bind_result (f x) (\<lambda>b. if b then Inr True else some_result f xs)"

lemma every_result_True: "every_result f xs = Inr True \<longleftrightarrow> (\<forall>x \<in> set xs. f x = Inr True)"
  by (induction xs) (auto split: if_splits)

lemma some_result_True: "some_result f xs = Inr True \<Longrightarrow> \<exists>x \<in> set xs. f x = Inr True"
  by (induction xs) (auto split: if_splits)

lemma some_result_False: "some_result f xs = Inr False \<Longrightarrow> \<forall>x \<in> set xs. f x = Inr False"
  by (induction xs) (auto split: if_splits)

lemma some_result_total:
  "(\<And>x. x \<in> set xs \<Longrightarrow> f x = Inr (g x)) \<Longrightarrow> some_result f xs = Inr (\<exists>x \<in> set xs. g x)"
  by (induction xs) auto

lemma every_result_cong [fundef_cong]:
  "xs = ys \<Longrightarrow> (\<And>x. x \<in> set ys \<Longrightarrow> f x = g x) \<Longrightarrow> every_result f xs = every_result g ys"
proof (induction xs arbitrary: ys)
  case (Cons x xs)
  then show ?case by (cases "g x") auto
qed auto

section \<open>Numbers\<close>

datatype jsnum = Fin int | PosInf | NegInf | NaN

text \<open>The relational operators and the subtraction of the language; a NaN operand makes
  every comparison false.\<close>

instantiation jsnum :: "{ord, minus, plus, zero, one}"
begin

definition zero_jsnum :: jsnum where "0 = Fin 0"
definition one_jsnum :: jsnum where "1 = Fin 1"

fun less_jsnum :: "jsnum \<Rightarrow> jsnum \<Rightarrow> bool" where
  "Fin a < Fin b = (a < b)"
| "Fin a < PosInf = True"
| "NegInf < Fin b = True"
| "NegInf < PosInf = True"
| "(_ :: jsnum) < _ = False"

definition less_eq_jsnum :: "jsnum \<Rightarrow> jsnum \<Rightarrow> bool" where
  "a \<le> b = (a < b \<or> (a = b \<and> a \<noteq> NaN))"

fun plus_jsnum :: "jsnum \<Rightarrow> jsnum \<Rightarrow> jsnum" where
  "Fin a + Fin b = Fin (a + b)"
| "Fin a + PosInf = PosInf"
| "Fin a + NegInf = NegInf"
| "PosInf + Fin b = PosInf"
| "PosInf + PosInf = PosInf"
| "NegInf + Fin b = NegInf"
| "NegInf + NegInf = NegInf"
| "(_ :: jsnum) + _ = NaN"

fun minus_jsnum :: "jsnum \<Rightarrow> jsnum \<Rightarrow> jsnum" where
  "Fin a - Fin b = Fin (a - b)"
| "Fin a - PosInf = NegInf"
| "Fin a - NegInf = PosInf"
| "PosInf - Fin b = PosInf"
| "PosInf - NegInf = PosInf"
| "NegInf - Fin b = NegInf"
| "NegInf - PosInf = NegInf"
| "(_ :: jsnum) - _ = NaN"

instance ..

end

text \<open>\<open>===\<close> on numbers: NaN is not equal to itself.\<close>

definition num_eq :: "jsnum \<Rightarrow> jsnum \<Rightarrow> bool" where
  "num_eq a b \<longleftrightarrow> a = b \<and> a \<noteq> NaN"

lemma jsnum_le_Fin [simp, js_simps]: "(Fin a \<le> Fin b) = (a \<le> b)"
  by (auto simp: less_eq_jsnum_def)

lemma jsnum_le_others [simp, js_simps]:
  "Fin a \<le> PosInf" "NegInf \<le> x \<longleftrightarrow> x \<noteq> NaN" "\<not> NaN \<le> x" "\<not> x \<le> NaN" "\<not> PosInf \<le> Fin a"
  "\<not> Fin a \<le> NegInf"
  by (cases x; simp add: less_eq_jsnum_def)+

lemma jsnum_zero_Fin [simp, js_simps]: "(0 :: jsnum) = Fin 0" "(1 :: jsnum) = Fin 1"
  by (simp_all add: zero_jsnum_def one_jsnum_def)

lemma jsnum_less_not_NaN: "x < (y::jsnum) \<Longrightarrow> x \<noteq> NaN \<and> y \<noteq> NaN"
  by (cases x; cases y) auto

lemma jsnum_linear: "x \<noteq> NaN \<Longrightarrow> y \<noteq> NaN \<Longrightarrow> x < y \<or> x = y \<or> y < (x::jsnum)"
  by (cases x; cases y) auto

lemma jsnum_less_trans: "x < y \<Longrightarrow> y < z \<Longrightarrow> x < (z::jsnum)"
  by (cases x; cases y; cases z) auto

lemma jsnum_less_irrefl [simp]: "\<not> x < (x::jsnum)"
  by (cases x) auto

lemma jsnum_le_trans: "x \<le> y \<Longrightarrow> y \<le> z \<Longrightarrow> x \<le> (z::jsnum)"
  by (auto simp: less_eq_jsnum_def dest: jsnum_less_trans)

lemma jsnum_not_le: "x \<noteq> NaN \<Longrightarrow> y \<noteq> NaN \<Longrightarrow> (\<not> x \<le> y) = (y < (x::jsnum))"
  by (cases x; cases y) (auto simp: less_eq_jsnum_def)

section \<open>Decimal strings\<close>

subsection \<open>\<open>toString\<close>\<close>

definition digit_char :: "nat \<Rightarrow> char" where
  "digit_char d = char_of (48 + d)"

fun show_nat :: "nat \<Rightarrow> string" where
  "show_nat n = (if n < 10 then [digit_char n] else show_nat (n div 10) @ [digit_char (n mod 10)])"

declare show_nat.simps [simp del]

definition show_int :: "int \<Rightarrow> string" where
  "show_int z = (if z < 0 then CHR ''-'' # show_nat (nat (- z)) else show_nat (nat z))"

fun js_toString :: "jsnum \<Rightarrow> string" where
  "js_toString (Fin z) = show_int z"
| "js_toString PosInf = ''Infinity''"
| "js_toString NegInf = ''-Infinity''"
| "js_toString NaN = ''NaN''"

subsection \<open>\<open>parseInt\<close>\<close>

text \<open>
  The standard \<open>parseInt\<close> with no radix argument: leading white space is dropped, an
  optional sign is read, a prefix \<open>0x\<close> selects radix 16, and the longest prefix of
  digits is the value; no digit at all is NaN. Characters are the ASCII ones.
\<close>

definition is_space :: "char \<Rightarrow> bool" where
  "is_space c = (c = CHR '' '' \<or> c = CHR 0x09 \<or> c = CHR 0x0A \<or> c = CHR 0x0B \<or> c = CHR 0x0C
     \<or> c = CHR 0x0D)"

definition digit_val :: "char \<Rightarrow> nat" where
  "digit_val c = (let n = of_char c :: nat in
     if 48 \<le> n \<and> n \<le> 57 then n - 48
     else if 97 \<le> n \<and> n \<le> 122 then n - 87
     else if 65 \<le> n \<and> n \<le> 90 then n - 55 else 99)"

definition parse_digits :: "nat \<Rightarrow> string \<Rightarrow> jsnum" where
  "parse_digits radix s = (let ds = takeWhile (\<lambda>c. digit_val c < radix) s in
     if ds = [] then NaN
     else Fin (int (foldl (\<lambda>acc c. acc * radix + digit_val c) 0 ds)))"

fun parse_unsigned :: "string \<Rightarrow> jsnum" where
  "parse_unsigned (c # x # s) =
     (if c = CHR ''0'' \<and> (x = CHR ''x'' \<or> x = CHR ''X'') then parse_digits 16 s
      else parse_digits 10 (c # x # s))"
| "parse_unsigned s = parse_digits 10 s"

fun parse_signed :: "string \<Rightarrow> jsnum" where
  "parse_signed (c # s) =
     (if c = CHR ''-'' then (case parse_unsigned s of Fin z \<Rightarrow> Fin (- z) | v \<Rightarrow> v)
      else if c = CHR ''+'' then parse_unsigned s
      else parse_unsigned (c # s))"
| "parse_signed [] = NaN"

definition js_parseInt :: "string \<Rightarrow> jsnum" where
  "js_parseInt s = parse_signed (dropWhile is_space s)"

subsection \<open>The round trip\<close>

lemma of_char_digit_char [simp]: "d < 10 \<Longrightarrow> (of_char (digit_char d) :: nat) = 48 + d"
  by (simp add: digit_char_def)

lemma digit_val_digit_char [simp]: "d < 10 \<Longrightarrow> digit_val (digit_char d) = d"
  by (simp add: digit_val_def)

lemma show_nat_digits: "c \<in> set (show_nat n) \<Longrightarrow> \<exists>d<10. c = digit_char d"
proof (induction n rule: show_nat.induct)
  case (1 n)
  show ?case
  proof (cases "n < 10")
    case True
    with "1.prems" show ?thesis by (auto simp: show_nat.simps [of n])
  next
    case False
    with "1.prems" have "c \<in> set (show_nat (n div 10)) \<or> c = digit_char (n mod 10)"
      by (simp add: show_nat.simps [of n] disj_commute)
    moreover have "n mod 10 < 10" by simp
    ultimately show ?thesis
      using "1.IH" False by blast
  qed
qed

lemma show_nat_not_Nil [simp]: "show_nat n \<noteq> []"
  by (subst show_nat.simps) simp

lemma show_nat_value: "foldl (\<lambda>acc c. acc * 10 + digit_val c) 0 (show_nat n) = n"
proof (induction n rule: show_nat.induct)
  case (1 n)
  then show ?case
    by (cases "n < 10") (auto simp: show_nat.simps [of n])
qed

lemma takeWhile_show_nat: "takeWhile (\<lambda>c. digit_val c < 10) (show_nat n) = show_nat n"
  by (auto simp: takeWhile_eq_all_conv dest!: show_nat_digits)

lemma parse_digits_show_nat: "parse_digits 10 (show_nat n) = Fin (int n)"
  by (simp add: parse_digits_def takeWhile_show_nat show_nat_value)

lemma digit_char_neqI:
  assumes "d < 10" and "(of_char c :: nat) < 48 \<or> 57 < (of_char c :: nat)"
  shows "digit_char d \<noteq> c"
proof
  assume "digit_char d = c"
  then have "(of_char c :: nat) = 48 + d" using assms(1) by auto
  with assms show False by simp
qed

lemma digit_char_not_special:
  assumes "d < 10"
  shows "digit_char d \<noteq> CHR ''x''" "digit_char d \<noteq> CHR ''X''"
    "digit_char d \<noteq> CHR ''-''" "digit_char d \<noteq> CHR ''+''" "\<not> is_space (digit_char d)"
  by (simp_all add: is_space_def digit_char_neqI [OF assms])

lemma parse_unsigned_digits:
  assumes "\<And>c. c \<in> set s \<Longrightarrow> \<exists>d<10. c = digit_char d"
  shows "parse_unsigned s = parse_digits 10 s"
proof (cases s rule: parse_unsigned.cases)
  case (1 c x t)
  then obtain d where "d < 10" "x = digit_char d"
    using assms by auto
  with 1 show ?thesis
    using digit_char_not_special by auto
qed simp_all

lemma parse_unsigned_show_nat [simp]: "parse_unsigned (show_nat n) = Fin (int n)"
  by (simp add: parse_unsigned_digits show_nat_digits parse_digits_show_nat)

lemma show_nat_hd: "\<exists>d s. d < 10 \<and> show_nat n = digit_char d # s"
proof -
  obtain c s where cs: "show_nat n = c # s"
    using show_nat_not_Nil by (meson neq_Nil_conv)
  then have "c \<in> set (show_nat n)" by simp
  then obtain d where "d < 10" "c = digit_char d" by (blast dest: show_nat_digits)
  with cs show ?thesis by blast
qed

lemma parse_signed_show_nat: "parse_signed (show_nat n) = Fin (int n)"
proof -
  obtain d s where ds: "d < 10" "show_nat n = digit_char d # s"
    using show_nat_hd by blast
  then have "parse_signed (show_nat n) = parse_unsigned (show_nat n)"
    by (simp add: digit_char_not_special)
  then show ?thesis by simp
qed

lemma parse_signed_show_int: "parse_signed (show_int z) = Fin z"
  by (simp add: show_int_def parse_signed_show_nat)

lemma show_int_no_space: "dropWhile is_space (show_int z) = show_int z"
  using show_nat_hd [of "nat z"]
  by (auto simp: show_int_def is_space_def digit_char_not_special [unfolded is_space_def])

lemma js_parseInt_show_int [simp, js_simps]: "js_parseInt (show_int z) = Fin z"
  by (simp add: js_parseInt_def show_int_no_space parse_signed_show_int)

lemma show_int_inject [simp]: "(show_int a = show_int b) = (a = b)"
  by (metis js_parseInt_show_int jsnum.inject)

section \<open>Array indices\<close>

text \<open>
  A property key names an array element exactly when it is the decimal rendering of a
  non-negative integer (so \<open>01\<close> does not).
\<close>

definition arr_idx :: "string \<Rightarrow> nat option" where
  "arr_idx k = (case js_parseInt k of
     Fin z \<Rightarrow> if 0 \<le> z \<and> show_int z = k then Some (nat z) else None
   | _ \<Rightarrow> None)"

abbreviation idx_key :: "nat \<Rightarrow> string" where
  "idx_key i \<equiv> show_int (int i)"

lemma arr_idx_key [simp, js_simps]: "arr_idx (idx_key i) = Some i"
  by (simp add: arr_idx_def)

lemma arr_idx_SomeD: "arr_idx k = Some i \<Longrightarrow> k = idx_key i"
  by (auto simp: arr_idx_def split: jsnum.splits if_splits)

lemma arr_idx_Some_iff: "arr_idx k = Some i \<longleftrightarrow> k = idx_key i"
  using arr_idx_SomeD by auto

text \<open>
  A key is canonical when \<open>parseInt\<close> and \<open>toString\<close> give it back whenever it parses:
  every array index the program renders is, and so is every property name of the AST,
  since none of them starts with a digit.
\<close>

definition canonical_key :: "string \<Rightarrow> bool" where
  "canonical_key k = (case js_parseInt k of Fin z \<Rightarrow> show_int z = k | _ \<Rightarrow> True)"

lemma canonical_show_int [simp]: "canonical_key (show_int z)"
  by (simp add: canonical_key_def)

lemma canonical_keyD: "canonical_key k \<Longrightarrow> js_parseInt k = Fin z \<Longrightarrow> k = show_int z"
  by (simp add: canonical_key_def)

lemma js_parseInt_not_inf: "js_parseInt k \<noteq> PosInf" "js_parseInt k \<noteq> NegInf"
proof -
  have d: "parse_digits r s \<noteq> PosInf" "parse_digits r s \<noteq> NegInf" for r s
    by (auto simp: parse_digits_def Let_def)
  have u: "parse_unsigned s \<noteq> PosInf" "parse_unsigned s \<noteq> NegInf" for s
    by (cases s rule: parse_unsigned.cases; simp add: d)+
  have "parse_signed s \<noteq> PosInf \<and> parse_signed s \<noteq> NegInf" for s
    by (cases s) (auto simp: u split: jsnum.splits)
  then show "js_parseInt k \<noteq> PosInf" "js_parseInt k \<noteq> NegInf"
    by (simp_all add: js_parseInt_def)
qed

lemma js_parseInt_cases:
  obtains (num) z where "js_parseInt k = Fin z" | (nan) "js_parseInt k = NaN"
  using js_parseInt_not_inf by (cases "js_parseInt k") auto

section \<open>\<open>Array.prototype.splice\<close>\<close>

text \<open>The start argument is relative to the end when it is negative, and clamped to the
  length; NaN counts as zero.\<close>

fun splice_start :: "nat \<Rightarrow> jsnum \<Rightarrow> nat" where
  "splice_start len (Fin z) =
     (if z < 0 then nat (max (int len + z) 0) else min (nat z) len)"
| "splice_start len PosInf = len"
| "splice_start len NegInf = 0"
| "splice_start len NaN = 0"

text \<open>\<open>xs.splice(start, 0, x)\<close> and \<open>xs.splice(start, 1)\<close>, the array afterwards.\<close>

definition splice_insert :: "'a list \<Rightarrow> jsnum \<Rightarrow> 'a \<Rightarrow> 'a list" where
  "splice_insert xs start x =
     (let i = splice_start (length xs) start in take i xs @ x # drop i xs)"

definition splice_remove :: "'a list \<Rightarrow> jsnum \<Rightarrow> 'a list" where
  "splice_remove xs start =
     (let i = splice_start (length xs) start in take i xs @ drop (Suc i) xs)"

lemma splice_insert_in_range:
  "i \<le> length xs \<Longrightarrow> splice_insert xs (Fin (int i)) x = take i xs @ x # drop i xs"
  by (simp add: splice_insert_def)

lemma splice_remove_in_range:
  "i < length xs \<Longrightarrow> splice_remove xs (Fin (int i)) = take i xs @ drop (Suc i) xs"
  by (simp add: splice_remove_def min_def)

lemma length_splice_insert [simp]: "length (splice_insert xs s x) = Suc (length xs)"
  by (simp add: splice_insert_def Let_def)

lemma nth_splice_insert:
  assumes "i \<le> length xs" and "j < length xs"
  shows "(take i xs @ x # drop i xs) ! (if i \<le> j then Suc j else j) = xs ! j"
  using assms by (auto simp: nth_append nth_Cons' min_def)

lemma nth_splice_insert_new: "i \<le> length xs \<Longrightarrow> (take i xs @ x # drop i xs) ! i = x"
  by (simp add: nth_append)

lemma nth_splice_remove:
  assumes "i < length xs" and "j < length xs" and "j \<noteq> i"
  shows "(take i xs @ drop (Suc i) xs) ! (if i < j then j - 1 else j) = xs ! j"
  using assms by (auto simp: nth_append min_def)

text \<open>A maximum over a list, as the bounds on the depth of values are computed.\<close>

lemma foldr_max_ge: "x \<in> set xs \<Longrightarrow> x \<le> foldr max xs (b::nat)"
  by (induction xs) auto

end
