(* ===== verification/JsValue.thy ===== *)
theory JsValue
  imports Prelude "HOL-Library.AList"
begin

text \<open>
  JavaScript values as the program handles them, and paths into them. An AST of the
  parser is such a value: an object with a \<open>type\<close> property, whose other properties are
  primitives, arrays and further nodes. Objects keep the insertion order of their
  properties. A property whose value is \<open>undefined\<close> is an absent property, and
  \<open>undefined\<close> itself is \<open>None\<close>. \<open>JGen xs\<close> is the only kind of function value the
  program stores in its data: the generator function \<open>arrayToGenerator(xs)\<close>.
  Values are immutable here, so \<open>lodash.cloneDeep\<close> is the identity; an in-place
  mutation of the array or object that a path leads to is \<open>put\<close> at that path.
\<close>

datatype jsval =
    JNull
  | JBool bool
  | JNum jsnum
  | JStr string
  | JArr "jsval list"
  | JObj "(string \<times> jsval) list"
  | JGen "jsval list"

type_synonym path = "string list"

section \<open>Property access\<close>

text \<open>The enumerable own properties of arrays and objects, read by key.\<close>

fun child :: "jsval \<Rightarrow> string \<Rightarrow> jsval option" where
  "child (JArr xs) k =
     (case arr_idx k of Some i \<Rightarrow> if i < length xs then Some (xs ! i) else None | None \<Rightarrow> None)"
| "child (JObj kvs) k = map_of kvs k"
| "child _ _ = None"

text \<open>
  The value of \<open>v[k]\<close>, with the \<open>length\<close> of arrays and strings and the characters of
  strings. Properties inherited from the prototypes are not modelled. Access to a
  property of null throws; \<open>js_field\<close> is that access.
\<close>

fun js_prop :: "jsval \<Rightarrow> string \<Rightarrow> jsval option" where
  "js_prop (JArr xs) k =
     (if k = ''length'' then Some (JNum (Fin (int (length xs)))) else child (JArr xs) k)"
| "js_prop (JStr s) k =
     (if k = ''length'' then Some (JNum (Fin (int (length s))))
      else case arr_idx k of
        Some i \<Rightarrow> if i < length s then Some (JStr [s ! i]) else None
      | None \<Rightarrow> None)"
| "js_prop v k = child v k"

fun js_field :: "jsval option \<Rightarrow> string \<Rightarrow> jsval option result" where
  "js_field None k = Inl TypeError"
| "js_field (Some JNull) k = Inl TypeError"
| "js_field (Some v) k = Inr (js_prop v k)"

lemma js_field_Some: "js_field v k = Inr w \<Longrightarrow> \<exists>u. v = Some u \<and> w = js_prop u k"
  by (cases "(v, k)" rule: js_field.cases) auto

fun set_child :: "jsval \<Rightarrow> string \<Rightarrow> jsval \<Rightarrow> jsval" where
  "set_child (JArr xs) k w =
     (case arr_idx k of Some i \<Rightarrow> JArr (xs[i := w]) | None \<Rightarrow> JArr xs)"
| "set_child (JObj kvs) k w = JObj (AList.update k w kvs)"
| "set_child v k w = v"

fun del_child :: "jsval \<Rightarrow> string \<Rightarrow> jsval" where
  "del_child (JObj kvs) k = JObj (AList.delete k kvs)"
| "del_child v k = v"

lemma set_update_subset: "set (AList.update k v al) \<subseteq> insert (k, v) (set al)"
  by (induction al) auto

text \<open>The keys and values that \<open>for (k in v)\<close> and \<open>Object.keys\<close> enumerate.\<close>

fun entries :: "jsval \<Rightarrow> (string \<times> jsval) list" where
  "entries (JArr xs) = zip (map idx_key [0..<length xs]) xs"
| "entries (JObj kvs) = kvs"
| "entries (JStr s) = zip (map idx_key [0..<length s]) (map (\<lambda>c. JStr [c]) s)"
| "entries _ = []"

fun is_array :: "jsval \<Rightarrow> bool" where
  "is_array (JArr _) = True"
| "is_array _ = False"

text \<open>Arrays and objects: \<open>typeof v === 'object'\<close> and not null.\<close>

fun is_container :: "jsval \<Rightarrow> bool" where
  "is_container (JArr _) = True"
| "is_container (JObj _) = True"
| "is_container _ = False"

lemma is_array_iff: "is_array v \<longleftrightarrow> (\<exists>xs. v = JArr xs)"
  by (cases v) auto

lemma array_container [simp]: "is_array v \<Longrightarrow> is_container v"
  by (cases v) auto

lemma arr_idx_length [simp]: "arr_idx ''length'' = None"
  by (simp add: arr_idx_def js_parseInt_def is_space_def parse_digits_def digit_val_def)

lemma child_length_array [simp]: "child (JArr xs) ''length'' = None"
  by simp

lemma child_js_prop: "child v k = Some w \<Longrightarrow> js_prop v k = Some w"
  by (cases v) auto

lemma js_prop_container: "js_prop v k = Some w \<Longrightarrow> is_container w \<Longrightarrow> child v k = Some w"
  by (cases v) (auto split: if_splits option.splits)

lemma js_prop_not_container:
  "js_prop v k = Some w \<Longrightarrow> child v k = None \<Longrightarrow> (\<exists>n. w = JNum n) \<or> (\<exists>s. w = JStr s)"
  by (cases v) (auto split: if_splits option.splits)

lemma child_set_child [path_simps]:
  "child v k = Some c \<Longrightarrow> child (set_child v k w) k' = (if k' = k then Some w else child v k')"
  by (cases v)
    (auto simp: AList.update_conv arr_idx_Some_iff nth_list_update split: option.splits if_splits)

lemma js_prop_set_child [path_simps]:
  assumes "child v k = Some c"
  shows "js_prop (set_child v k w) k' = (if k' = k then Some w else js_prop v k')"
proof (cases v)
  case (JArr xs)
  with assms have "k \<noteq> ''length''" by auto
  with JArr assms show ?thesis
    using child_set_child [OF assms, of w k'] by (auto split: option.splits if_splits)
next
  case (JObj kvs)
  with assms show ?thesis using child_set_child [OF assms, of w k'] by simp
qed (use assms in simp_all)

lemma child_del_child [path_simps]:
  "child (del_child (JObj kvs) k) k' = (if k' = k then None else child (JObj kvs) k')"
  by (simp add: AList.delete_conv)

lemma set_child_container [simp]: "is_container (set_child v k w) = is_container v"
  by (cases v) (auto split: option.splits)

section \<open>Walking a path\<close>

text \<open>\<open>walk\<close> reads property after property; \<open>cwalk\<close> steps through enumerable
  properties only. They agree on every path that leads to an array or an object.\<close>

fun walk :: "jsval \<Rightarrow> path \<Rightarrow> jsval option" where
  "walk v [] = Some v"
| "walk v (k # ks) = (case js_prop v k of None \<Rightarrow> None | Some w \<Rightarrow> walk w ks)"

fun cwalk :: "jsval \<Rightarrow> path \<Rightarrow> jsval option" where
  "cwalk v [] = Some v"
| "cwalk v (k # ks) = (case child v k of None \<Rightarrow> None | Some w \<Rightarrow> cwalk w ks)"

lemma walk_append [path_simps]:
  "walk v (p @ q) = (case walk v p of None \<Rightarrow> None | Some w \<Rightarrow> walk w q)"
  by (induction v p rule: walk.induct) (auto split: option.splits)

lemma cwalk_append [path_simps]:
  "cwalk v (p @ q) = (case cwalk v p of None \<Rightarrow> None | Some w \<Rightarrow> cwalk w q)"
  by (induction v p rule: cwalk.induct) (auto split: option.splits)

lemma cwalk_walk: "cwalk v p = Some w \<Longrightarrow> walk v p = Some w"
  by (induction v p rule: cwalk.induct) (auto split: option.splits dest: child_js_prop)

lemma walk_scalar: "walk (JNum n) p = Some w \<Longrightarrow> \<not> is_container w"
  by (cases p) auto

lemma walk_string: "walk (JStr s) p = Some w \<Longrightarrow> \<not> is_container w"
  by (induction p arbitrary: s)
    (auto split: if_splits option.splits dest: walk_scalar)

lemma walk_cwalk: "walk v p = Some w \<Longrightarrow> is_container w \<Longrightarrow> cwalk v p = Some w"
proof (induction v p rule: walk.induct)
  case (2 v k ks)
  then obtain u where u: "js_prop v k = Some u" "walk u ks = Some w"
    by (auto split: option.splits)
  show ?case
  proof (cases "child v k")
    case None
    with u 2 show ?thesis
      using js_prop_not_container [of v k u] by (auto dest: walk_scalar walk_string)
  next
    case (Some u')
    with u have "u' = u" by (auto dest: child_js_prop)
    with 2 u Some show ?thesis by auto
  qed
qed simp

lemma walk_container_iff:
  "is_container w \<Longrightarrow> walk v p = Some w \<longleftrightarrow> cwalk v p = Some w"
  using walk_cwalk cwalk_walk by blast

section \<open>Replacing the value at a path\<close>

fun put :: "jsval \<Rightarrow> path \<Rightarrow> jsval \<Rightarrow> jsval" where
  "put v [] w = w"
| "put v (k # ks) w =
     (case child v k of None \<Rightarrow> v | Some c \<Rightarrow> set_child v k (put c ks w))"

lemma cwalk_put_below [path_simps]:
  "cwalk v p \<noteq> None \<Longrightarrow> cwalk (put v p w) (p @ q) = cwalk w q"
  by (induction v p w rule: put.induct) (auto simp: path_simps split: option.splits)

lemma walk_put_below [path_simps]:
  "cwalk v p \<noteq> None \<Longrightarrow> walk (put v p w) (p @ q) = walk w q"
  by (induction v p w rule: put.induct) (auto simp: path_simps split: option.splits)

lemma walk_put_other:
  "\<not> prefix p q \<Longrightarrow> \<not> prefix q p \<Longrightarrow> walk (put v p w) q = walk v q"
proof (induction v p w arbitrary: q rule: put.induct)
  case (2 v k ks w)
  then obtain k' ks' where q: "q = k' # ks'" by (cases q) auto
  show ?case
  proof (cases "child v k")
    case (Some c)
    then have "js_prop v k = Some c" by (rule child_js_prop)
    with Some q 2 show ?thesis
      by (cases "k' = k") (auto simp: path_simps split: option.splits)
  qed (simp add: q)
qed simp

lemma cwalk_put_other:
  "\<not> prefix p q \<Longrightarrow> \<not> prefix q p \<Longrightarrow> cwalk (put v p w) q = cwalk v q"
proof (induction v p w arbitrary: q rule: put.induct)
  case (2 v k ks w)
  then obtain k' ks' where q: "q = k' # ks'" by (cases q) auto
  show ?case
  proof (cases "child v k")
    case (Some c)
    with q 2 show ?thesis
      by (cases "k' = k") (auto simp: path_simps split: option.splits)
  qed (simp add: q)
qed simp

text \<open>A strict ancestor of the replaced value stays a container of the same kind, and an
  object keeps each of its properties off the path.\<close>

lemma cwalk_put_above:
  "cwalk v (q @ k # r) \<noteq> None \<Longrightarrow> cwalk v q = Some x \<Longrightarrow>
   \<exists>c. child x k = Some c \<and> cwalk (put v (q @ k # r) w) q = Some (set_child x k (put c r w))"
proof (induction q arbitrary: v)
  case Nil
  then show ?case by (auto split: option.splits)
next
  case (Cons j q)
  then obtain c where "child v j = Some c" "cwalk c q = Some x" "cwalk c (q @ k # r) \<noteq> None"
    by (auto split: option.splits)
  then show ?case using Cons.IH [of c] by (auto simp: path_simps)
qed

section \<open>Arrays inside a value\<close>

text \<open>Rewriting the array at a path moves the paths through its elements: an element found
  at another index of the new array is reached by the path with that index.\<close>

lemma cwalk_put_reindex:
  assumes "cwalk v p = Some (JArr xs)" and "j < length xs" and "j' < length ys" and "ys ! j' = xs ! j"
  shows "cwalk (put v p (JArr ys)) (p @ idx_key j' # r) = cwalk v (p @ idx_key j # r)"
  using assms cwalk_put_below [of v p "JArr ys" "idx_key j' # r"] by (simp add: cwalk_append)

lemma cwalk_through_array:
  assumes "cwalk v p = Some (JArr xs)" and "cwalk v (p @ k # r) = Some x"
  obtains j where "k = idx_key j" "j < length xs" "cwalk (xs ! j) r = Some x"
  using assms by (auto simp: cwalk_append arr_idx_Some_iff split: option.splits if_splits)

lemma prefix_cases3:
  obtains (above) "prefix q p" | (below) k r where "q = p @ k # r" | (apart) "\<not> prefix p q" "\<not> prefix q p"
proof -
  consider "prefix q p" | "\<not> prefix q p" "prefix p q" | "\<not> prefix q p" "\<not> prefix p q" by blast
  then show thesis
  proof cases
    case 2
    then obtain r where r: "q = p @ r" by (auto simp: prefix_def)
    with 2 show thesis by (cases r) (auto intro: that(2))
  qed (auto intro: that)
qed

section \<open>Well-formed values\<close>

text \<open>Property names of one object are distinct; every object the language builds is so.\<close>

fun wf_val :: "jsval \<Rightarrow> bool" where
  "wf_val (JArr xs) = list_all wf_val xs"
| "wf_val (JObj kvs) = (distinct (map fst kvs) \<and> list_all (\<lambda>(_, v). wf_val v) kvs)"
| "wf_val v = True"

text \<open>Replacing a value keeps a property of values that arrays and objects inherit from their
  elements; so it keeps well-formedness.\<close>

lemma put_keeps:
  assumes child: "\<And>v k c. P v \<Longrightarrow> child v k = Some c \<Longrightarrow> P c"
    and set: "\<And>v k c. P v \<Longrightarrow> P c \<Longrightarrow> P (set_child v k c)"
  shows "P v \<Longrightarrow> P w \<Longrightarrow> P (put v p w)"
  by (induction v p w rule: put.induct) (auto split: option.splits intro: set dest: child)

lemma list_all_set_child:
  assumes "list_all P xs" and "P w"
  shows "list_all P (xs[i := w])"
  using assms set_update_subset_insert [of xs i w] by (auto simp: list_all_iff)

lemma list_all_update:
  assumes "list_all (\<lambda>(k, v). P v) kvs" and "P w"
  shows "list_all (\<lambda>(k, v). P v) (AList.update k w kvs)"
  using assms set_update_subset [of k w kvs] by (fastforce simp: list_all_iff)

lemma wf_val_put: "wf_val v \<Longrightarrow> wf_val w \<Longrightarrow> wf_val (put v p w)"
proof (rule put_keeps [of wf_val])
  show "wf_val c" if "wf_val v" "child v k = Some c" for v k c
    using that by (cases v) (auto simp: list_all_iff split: option.splits if_splits dest!: map_of_SomeD)
  show "wf_val (set_child v k c)" if "wf_val v" "wf_val c" for v k c
    using that by (cases v) (auto simp: list_all_set_child list_all_update distinct_update split: option.splits)
qed

definition canonical_path :: "path \<Rightarrow> bool" where
  "canonical_path p = list_all canonical_key p"

lemma canonical_path_simps [simp]:
  "canonical_path []" "canonical_path (k # p) = (canonical_key k \<and> canonical_path p)"
  "canonical_path (p @ q) = (canonical_path p \<and> canonical_path q)"
  by (auto simp: canonical_path_def)

section \<open>Strings of values\<close>

text \<open>\<open>String(v)\<close>: the elements of an array are joined by commas, null and undefined being empty;
  an object gives \<open>[object Object]\<close>.\<close>

fun join_comma :: "string list \<Rightarrow> string" where
  "join_comma [] = []"
| "join_comma [s] = s"
| "join_comma (s # t # ss) = s @ CHR '','' # join_comma (t # ss)"

fun js_String :: "jsval \<Rightarrow> string" where
  "js_String JNull = ''null''"
| "js_String (JBool b) = (if b then ''true'' else ''false'')"
| "js_String (JNum n) = js_toString n"
| "js_String (JStr s) = s"
| "js_String (JArr xs) =
     join_comma (map (\<lambda>x. if x = JNull then [] else js_String x) xs)"
| "js_String (JObj kvs) = ''[object Object]''"
| "js_String (JGen xs) = ''function''"

end
