(* ===== verification/Lodash.thy ===== *)
theory Lodash
  imports JsValue
begin

text \<open>
  The third-party library lodash, which the program uses to reach into ASTs, is not part
  of the repository: it is a parameter. The record \<open>lodash\<close> collects the functions on
  paths that the program calls, the locale \<open>lodash_lib\<close> states what their documentation
  promises on the arguments the program gives them, and \<open>lodash_ref\<close> is an executable
  instance that meets the locale, used to evaluate concrete examples. Nothing is assumed
  where the documentation is silent (the empty path, a path that does not exist).
  The functions on collections are parameters of their own, in the record \<open>lodash_coll\<close>.
\<close>

section \<open>Deep comparison\<close>

text \<open>
  The documented behaviour of \<open>isEqualWith\<close>: the customizer is asked first, with the two
  values and the key or index they are stored under (none at the top); where it answers
  undefined, arrays are compared element by element, objects property by property
  regardless of order, and other values for equality.
\<close>

type_synonym customizer = "jsval \<Rightarrow> jsval \<Rightarrow> string option \<Rightarrow> bool option"

fun deep_equal_with :: "customizer \<Rightarrow> string option \<Rightarrow> jsval \<Rightarrow> jsval \<Rightarrow> bool"
  and deep_equal_elems :: "customizer \<Rightarrow> nat \<Rightarrow> jsval list \<Rightarrow> jsval list \<Rightarrow> bool"
  and deep_equal_props :: "customizer \<Rightarrow> (string \<times> jsval) list \<Rightarrow> (string \<times> jsval) list \<Rightarrow> bool" where
  "deep_equal_with c key (JArr xs) w =
     (case c (JArr xs) w key of Some r \<Rightarrow> r
      | None \<Rightarrow> (case w of JArr ys \<Rightarrow> deep_equal_elems c 0 xs ys | _ \<Rightarrow> False))"
| "deep_equal_with c key (JObj kvs) w =
     (case c (JObj kvs) w key of Some r \<Rightarrow> r
      | None \<Rightarrow> (case w of
            JObj lvs \<Rightarrow> length kvs = length lvs \<and> deep_equal_props c kvs lvs
          | _ \<Rightarrow> False))"
| "deep_equal_with c key v w = (case c v w key of Some r \<Rightarrow> r | None \<Rightarrow> v = w)"
| "deep_equal_elems c i [] ys = (ys = [])"
| "deep_equal_elems c i (x # xs) ys =
     (case ys of [] \<Rightarrow> False
      | y # ys' \<Rightarrow> deep_equal_with c (Some (idx_key i)) x y \<and> deep_equal_elems c (Suc i) xs ys')"
| "deep_equal_props c [] lvs = True"
| "deep_equal_props c ((k, v) # kvs) lvs =
     (case map_of lvs k of None \<Rightarrow> False
      | Some w \<Rightarrow> deep_equal_with c (Some k) v w \<and> deep_equal_props c kvs lvs)"

text \<open>A customizer that never denies the equality of a value with itself leaves deep
  equality reflexive.\<close>

lemma deep_equal_elems_refl:
  "(\<And>x k. x \<in> set xs \<Longrightarrow> deep_equal_with c k x x) \<Longrightarrow> deep_equal_elems c i xs xs"
  by (induction xs arbitrary: i) auto

lemma deep_equal_props_refl:
  "\<forall>(k, v) \<in> set kvs. map_of lvs k = Some v \<and> (\<forall>key. deep_equal_with c key v v) \<Longrightarrow>
   deep_equal_props c kvs lvs"
  by (induction kvs) auto

lemma deep_equal_refl:
  assumes c: "\<And>x k. wf_val x \<Longrightarrow> c x x k \<noteq> Some False"
  shows "wf_val v \<Longrightarrow> deep_equal_with c key v v"
proof -
  have r: "c x x k = Some r \<Longrightarrow> wf_val x \<Longrightarrow> r" for x k r
    using c by (cases r) auto
  note [dest] = r
  show "wf_val v \<Longrightarrow> deep_equal_with c key v v"
  proof (induction v arbitrary: key)
    case (JArr xs)
    then have "deep_equal_elems c 0 xs xs"
      by (intro deep_equal_elems_refl) (auto simp: list_all_iff)
    with r [OF _ JArr.prems, of key] show ?case by (auto split: option.splits)
  next
    case (JObj kvs)
    then have "deep_equal_props c kvs kvs"
      by (intro deep_equal_props_refl) (fastforce simp: list_all_iff)
    with r [OF _ JObj.prems, of key] show ?case by (auto split: option.splits)
  qed (auto split: option.splits)
qed

section \<open>Functions on paths\<close>

record lodash =
  lget :: "jsval \<Rightarrow> path \<Rightarrow> jsval option"
  lhas :: "jsval \<Rightarrow> path \<Rightarrow> bool"
  lunset :: "jsval \<Rightarrow> path \<Rightarrow> bool \<times> jsval"
  lset :: "jsval \<Rightarrow> path \<Rightarrow> jsval \<Rightarrow> jsval"
  lupdate :: "jsval \<Rightarrow> path \<Rightarrow> (jsval option \<Rightarrow> jsval result) \<Rightarrow> jsval result"
  lequal :: "path \<Rightarrow> path \<Rightarrow> bool"
  lequalVal :: "jsval \<Rightarrow> jsval \<Rightarrow> bool"
  lequalWith :: "jsval \<Rightarrow> jsval \<Rightarrow> customizer \<Rightarrow> bool"

locale lodash_lib =
  fixes L :: lodash
  assumes get_path: "p \<noteq> [] \<Longrightarrow> lget L v p = walk v p"
    and has_path: "p \<noteq> [] \<Longrightarrow> lhas L v p = (walk v p \<noteq> None)"
    and unset_property: "walk v q = Some (JObj kvs) \<Longrightarrow> map_of kvs k \<noteq> None \<Longrightarrow>
      lunset L v (q @ [k]) = (True, put v q (del_child (JObj kvs) k))"
    and set_path: "p \<noteq> [] \<Longrightarrow> cwalk v p \<noteq> None \<Longrightarrow> lset L v p w = put v p w"
    and update_path: "p \<noteq> [] \<Longrightarrow> lupdate L v p f =
      (case f (walk v p) of Inl e \<Rightarrow> Inl e | Inr w \<Rightarrow> Inr (lset L v p w))"
    and equal_paths: "lequal L p q = (p = q)"
    and equal_val: "lequalVal L v w = deep_equal_with (\<lambda>_ _ _. None) None v w"
    and equal_with: "lequalWith L v w c = deep_equal_with c None v w"
begin

text \<open>What the program derives from these laws: reading an array or a node is a walk over
  enumerable properties, and a replacement is read back.\<close>

lemma get_container:
  "p \<noteq> [] \<Longrightarrow> is_container w \<Longrightarrow> lget L v p = Some w \<longleftrightarrow> cwalk v p = Some w"
  by (simp add: get_path walk_container_iff)

lemma get_append:
  "p \<noteq> [] \<Longrightarrow> lget L v p = Some w \<Longrightarrow> q \<noteq> [] \<Longrightarrow> lget L v (p @ q) = lget L w q"
  by (simp add: get_path walk_append)

lemma get_set:
  "p \<noteq> [] \<Longrightarrow> cwalk v p \<noteq> None \<Longrightarrow> lget L (lset L v p w) p = Some w"
  using walk_put_below [of v p w "[]"] by (simp add: get_path set_path)

lemma get_set_other:
  "p \<noteq> [] \<Longrightarrow> cwalk v p \<noteq> None \<Longrightarrow> q \<noteq> [] \<Longrightarrow> \<not> prefix p q \<Longrightarrow> \<not> prefix q p \<Longrightarrow>
   lget L (lset L v p w) q = lget L v q"
  by (simp add: get_path set_path walk_put_other)

end

subsection \<open>A reference instance\<close>

text \<open>A getter that answers \<open>undefined\<close> on the empty path, and operations that leave the
  value as it is on a path that does not exist.\<close>

definition ref_get :: "jsval \<Rightarrow> path \<Rightarrow> jsval option" where
  "ref_get v p = (if p = [] then None else walk v p)"

definition ref_unset :: "jsval \<Rightarrow> path \<Rightarrow> bool \<times> jsval" where
  "ref_unset v p = (if p = [] then (True, v) else
     case walk v (butlast p) of
       Some (JObj kvs) \<Rightarrow> (True, put v (butlast p) (del_child (JObj kvs) (last p)))
     | _ \<Rightarrow> (True, v))"

definition ref_update :: "jsval \<Rightarrow> path \<Rightarrow> (jsval option \<Rightarrow> jsval result) \<Rightarrow> jsval result" where
  "ref_update v p f = (case f (ref_get v p) of Inl e \<Rightarrow> Inl e | Inr w \<Rightarrow> Inr (put v p w))"

definition lodash_ref :: lodash where
  "lodash_ref = \<lparr>lget = ref_get, lhas = (\<lambda>v p. ref_get v p \<noteq> None), lunset = ref_unset,
     lset = put, lupdate = ref_update, lequal = (=),
     lequalVal = deep_equal_with (\<lambda>_ _ _. None) None,
     lequalWith = (\<lambda>v w c. deep_equal_with c None v w)\<rparr>"

interpretation lodash_reference: lodash_lib lodash_ref
  by unfold_locales
    (auto simp: lodash_ref_def ref_get_def ref_unset_def ref_update_def split: sum.splits)

lemma lodash_lib_ref: "lodash_lib lodash_ref"
  by (rule lodash_reference.lodash_lib_axioms)

lemma lodash_ref_sel [simp, js_simps]:
  "lget lodash_ref v p = (if p = [] then None else walk v p)"
  "lhas lodash_ref v p = (p \<noteq> [] \<and> walk v p \<noteq> None)"
  "lset lodash_ref v p w = put v p w"
  "lunset lodash_ref v p = ref_unset v p"
  "lupdate lodash_ref v p f = ref_update v p f"
  "lequal lodash_ref p q = (p = q)"
  "lequalVal lodash_ref v w = deep_equal_with (\<lambda>_ _ _. None) None v w"
  "lequalWith lodash_ref v w c = deep_equal_with c None v w"
  by (auto simp: lodash_ref_def ref_get_def)

section \<open>Functions on collections\<close>

text \<open>
  The documented behaviour of the array functions with a comparator or a predicate: the
  union keeps the first of equal elements, in order; \<open>pullAllWith\<close> and \<open>remove\<close> change the
  array in place (the remaining array is the result here), \<open>intersectionWith\<close> returns a new
  one. The comparators of the program compare paths or whole values, and are symmetric.
\<close>

fun uniq_with :: "('a \<Rightarrow> 'a \<Rightarrow> bool) \<Rightarrow> 'a list \<Rightarrow> 'a list \<Rightarrow> 'a list" where
  "uniq_with c seen [] = rev seen"
| "uniq_with c seen (x # xs) =
     (if list_ex (\<lambda>y. c y x) seen then uniq_with c seen xs else uniq_with c (x # seen) xs)"

text \<open>The elements of a union: all of them occur, equal ones once.\<close>

lemma uniq_with_subset: "set (uniq_with c seen xs) \<subseteq> set seen \<union> set xs"
proof (induction xs arbitrary: seen)
  case (Cons a xs)
  from Cons.IH [of seen] Cons.IH [of "a # seen"] show ?case by auto
qed simp

lemma uniq_with_keeps_seen: "set seen \<subseteq> set (uniq_with c seen xs)"
proof (induction xs arbitrary: seen)
  case (Cons a xs)
  from Cons.IH [of seen] Cons.IH [of "a # seen"] show ?case by auto
qed simp

lemma uniq_with_covers:
  "reflp c \<Longrightarrow> symp c \<Longrightarrow> x \<in> set seen \<union> set xs \<Longrightarrow> \<exists>y \<in> set (uniq_with c seen xs). c x y"
proof (induction xs arbitrary: seen)
  case Nil
  then show ?case by (auto dest: reflpD)
next
  case (Cons a xs)
  show ?case
  proof (cases "x = a \<and> list_ex (\<lambda>y. c y a) seen")
    case True
    then obtain y where "y \<in> set seen" "c y a" by (auto simp: list_ex_iff)
    with True Cons.prems(2) uniq_with_keeps_seen [of seen c xs] show ?thesis
      by (auto dest: sympD)
  next
    case False
    with Cons.prems Cons.IH [of seen] Cons.IH [of "a # seen"] show ?thesis by auto
  qed
qed

lemma uniq_with_distinct:
  "symp c \<Longrightarrow> (\<forall>i<length seen. \<forall>j<length seen. i \<noteq> j \<longrightarrow> \<not> c (seen ! i) (seen ! j)) \<Longrightarrow>
   i < j \<Longrightarrow> j < length (uniq_with c seen xs) \<Longrightarrow>
   \<not> c (uniq_with c seen xs ! i) (uniq_with c seen xs ! j)"
proof (induction xs arbitrary: seen)
  case Nil
  then show ?case by (auto simp: rev_nth)
next
  case (Cons a xs)
  show ?case
  proof (cases "list_ex (\<lambda>y. c y a) seen")
    case True
    with Cons show ?thesis by simp
  next
    case False
    then have "\<not> c (seen ! k) a" if "k < length seen" for k
      using that by (auto simp: list_ex_iff)
    with Cons.prems have "\<forall>i<length (a # seen). \<forall>j<length (a # seen). i \<noteq> j \<longrightarrow>
        \<not> c ((a # seen) ! i) ((a # seen) ! j)"
      by (auto simp: nth_Cons' dest: sympD)
    with False Cons.prems Cons.IH [of "a # seen"] show ?thesis by simp
  qed
qed

record ('a, 'b) lodash_coll =
  luniqWith :: "'a list \<Rightarrow> ('a \<Rightarrow> 'a \<Rightarrow> bool) \<Rightarrow> 'a list"
  lunionWith :: "'a list \<Rightarrow> 'a list \<Rightarrow> ('a \<Rightarrow> 'a \<Rightarrow> bool) \<Rightarrow> 'a list"
  lpullAllWith :: "'a list \<Rightarrow> 'b list \<Rightarrow> ('a \<Rightarrow> 'b \<Rightarrow> bool) \<Rightarrow> 'a list"
  lintersectionWith :: "'a list \<Rightarrow> 'b list \<Rightarrow> ('a \<Rightarrow> 'b \<Rightarrow> bool) \<Rightarrow> 'a list"
  lremove :: "'a list \<Rightarrow> ('a \<Rightarrow> bool) \<Rightarrow> 'a list"

locale lodash_arrays =
  fixes A :: "('a, 'b) lodash_coll"
  assumes uniqWith: "symp c \<Longrightarrow> luniqWith A xs c = uniq_with c [] xs"
    and unionWith: "symp c \<Longrightarrow> lunionWith A xs ys c = uniq_with c [] (xs @ ys)"
    and uniqWith_subset: "set (luniqWith A xs c) \<subseteq> set xs"
    and unionWith_subset: "set (lunionWith A xs ys c) \<subseteq> set xs \<union> set ys"
    and pullAllWith: "lpullAllWith A xs zs c' = filter (\<lambda>x. \<not> list_ex (c' x) zs) xs"
    and remove: "lremove A xs p = filter (\<lambda>x. \<not> p x) xs"
begin

text \<open>With an equivalence as comparator, a union keeps a representative of every element.\<close>

lemma unionWith_covers:
  "reflp c \<Longrightarrow> symp c \<Longrightarrow> x \<in> set xs \<union> set ys \<Longrightarrow> \<exists>y \<in> set (lunionWith A xs ys c). c x y"
  using uniq_with_covers [of c x "[]" "xs @ ys"] by (simp add: unionWith)

end

definition lodash_coll_ref :: "('a, 'b) lodash_coll" where
  "lodash_coll_ref = \<lparr>luniqWith = (\<lambda>xs c. uniq_with c [] xs),
     lunionWith = (\<lambda>xs ys c. uniq_with c [] (xs @ ys)),
     lpullAllWith = (\<lambda>xs zs c. filter (\<lambda>x. \<not> list_ex (c x) zs) xs),
     lintersectionWith = (\<lambda>xs zs c. filter (\<lambda>x. list_ex (c x) zs) xs),
     lremove = (\<lambda>xs p. filter (\<lambda>x. \<not> p x) xs)\<rparr>"

interpretation lodash_arrays_reference: lodash_arrays lodash_coll_ref
  using uniq_with_subset by unfold_locales (fastforce simp: lodash_coll_ref_def)+

lemma lodash_arrays_ref: "lodash_arrays lodash_coll_ref"
  by (rule lodash_arrays_reference.lodash_arrays_axioms)

lemma lodash_coll_ref_sel [simp, js_simps]:
  "luniqWith lodash_coll_ref xs c = uniq_with c [] xs"
  "lunionWith lodash_coll_ref xs ys c = uniq_with c [] (xs @ ys)"
  "lpullAllWith lodash_coll_ref xs zs c' = filter (\<lambda>x. \<not> list_ex (c' x) zs) xs"
  "lintersectionWith lodash_coll_ref xs zs c' = filter (\<lambda>x. list_ex (c' x) zs) xs"
  "lremove lodash_coll_ref xs p = filter (\<lambda>x. \<not> p x) xs"
  by (simp_all add: lodash_coll_ref_def)

end
