(* ===== verification/AstUtils.thy ===== *)
theory AstUtils
  imports Lodash
begin

text \<open>
  The helpers of \<open>lib/utils/index.ts\<close> and \<open>lib/utils/NodePathUtils.ts\<close> on ASTs and node
  paths: recognising nodes, prefixes of paths, the nearest enclosing node, visiting the
  values along a path, scopes, attribute removal, and the traversal \<open>visitWithPath\<close>.
\<close>

section \<open>Nodes\<close>

text \<open>\<open>!!node && typeof node === 'object' && node.hasOwnProperty('type')\<close>\<close>

fun isASTNode :: "jsval option \<Rightarrow> bool" where
  "isASTNode (Some (JObj kvs)) = (map_of kvs ''type'' \<noteq> None)"
| "isASTNode _ = False"

text \<open>\<open>node.type === t\<close>\<close>

definition has_type :: "jsval \<Rightarrow> string \<Rightarrow> bool" where
  "has_type v t = (js_prop v ''type'' = Some (JStr t))"

lemma isASTNode_container: "isASTNode (Some v) \<Longrightarrow> is_container v"
  by (cases v) auto

lemma isASTNode_obj: "isASTNode (Some v) \<Longrightarrow> \<exists>kvs. v = JObj kvs"
  by (cases v) auto

definition getASTNodeFromPath :: "lodash \<Rightarrow> jsval \<Rightarrow> path \<Rightarrow> jsval option" where
  "getASTNodeFromPath L ast nodePath = lget L ast nodePath"

text \<open>\<open>maybeStartWith.every((val, idx) => arr[idx] === val)\<close>: past the end, \<open>arr[idx]\<close> is
  undefined.\<close>

fun arrStartsWithArr :: "path \<Rightarrow> path \<Rightarrow> bool" where
  "arrStartsWithArr arr [] = True"
| "arrStartsWithArr [] (v # vs) = False"
| "arrStartsWithArr (a # arr) (v # vs) = (a = v \<and> arrStartsWithArr arr vs)"

lemma arrStartsWithArr_prefix [simp]: "arrStartsWithArr arr p = prefix p arr"
  by (induction arr p rule: arrStartsWithArr.induct) auto

text \<open>The loop of \<open>findASTParentNode\<close>, from the longest proper prefix to the first
  component.\<close>

fun find_parent_from :: "lodash \<Rightarrow> jsval \<Rightarrow> path \<Rightarrow> nat \<Rightarrow> path option" where
  "find_parent_from L ast nodePath 0 = None"
| "find_parent_from L ast nodePath (Suc i) =
     (let parentPath = take (Suc i) nodePath in
      if isASTNode (getASTNodeFromPath L ast parentPath) then Some parentPath
      else find_parent_from L ast nodePath i)"

definition findASTParentNode :: "lodash \<Rightarrow> jsval \<Rightarrow> path \<Rightarrow> path option" where
  "findASTParentNode L ast nodePath = find_parent_from L ast nodePath (length nodePath - 1)"

lemma find_parent_from_Some:
  "find_parent_from L ast p i = Some q \<Longrightarrow>
   \<exists>j. 0 < j \<and> j \<le> i \<and> q = take j p \<and> isASTNode (getASTNodeFromPath L ast q) \<and>
     (\<forall>k. j < k \<and> k \<le> i \<longrightarrow> \<not> isASTNode (getASTNodeFromPath L ast (take k p)))"
proof (induction i)
  case (Suc i)
  show ?case
  proof (cases "isASTNode (getASTNodeFromPath L ast (take (Suc i) p))")
    case True
    with Suc.prems show ?thesis by (intro exI [of _ "Suc i"]) auto
  next
    case False
    with Suc obtain j where "0 < j" "j \<le> i" "q = take j p" "isASTNode (getASTNodeFromPath L ast q)"
      "\<forall>k. j < k \<and> k \<le> i \<longrightarrow> \<not> isASTNode (getASTNodeFromPath L ast (take k p))"
      by auto
    with False show ?thesis by (intro exI [of _ j]) (auto simp: le_Suc_eq)
  qed
qed simp

lemma find_parent_from_None:
  "find_parent_from L ast p i = None \<longleftrightarrow>
   (\<forall>k. 0 < k \<and> k \<le> i \<longrightarrow> \<not> isASTNode (getASTNodeFromPath L ast (take k p)))"
proof (induction i)
  case (Suc i)
  then show ?case by (cases "isASTNode (getASTNodeFromPath L ast (take (Suc i) p))") (auto simp: le_Suc_eq)
qed simp

section \<open>Visiting the values along a path\<close>

text \<open>
  \<open>objPathVisit\<close> calls the visitor on the value itself and on each value along the path,
  until it answers false. The visitor changes captured variables (the state) and may
  throw; the state reached before an exception is kept, since the caller may catch it.
\<close>

fun objPathVisit ::
  "jsval option \<Rightarrow> path \<Rightarrow> (jsval option \<Rightarrow> 's \<Rightarrow> 's \<times> bool result) \<Rightarrow> 's \<Rightarrow> 's \<times> unit result" where
  "objPathVisit obj visitPath visitorFn s =
     (case visitorFn obj s of
        (s', Inl e) \<Rightarrow> (s', Inl e)
      | (s', Inr go) \<Rightarrow>
          (case visitPath of
             [] \<Rightarrow> (s', Inr ())
           | k # ks \<Rightarrow>
               if go then (case js_field obj k of
                   Inl e \<Rightarrow> (s', Inl e)
                 | Inr obj' \<Rightarrow> objPathVisit obj' ks visitorFn s')
               else (s', Inr ())))"

declare objPathVisit.simps [simp del]

text \<open>Names are read as they are stored: undefined (\<open>None\<close>), null or a string.\<close>

record scope_info =
  contractName :: "jsval option"
  functionName :: "jsval option"

definition scope_visitor :: "jsval option \<Rightarrow> scope_info \<Rightarrow> scope_info \<times> bool result" where
  "scope_visitor nd s =
     (case nd of
        None \<Rightarrow> (s, Inr True)
      | Some node \<Rightarrow>
          if \<not> isASTNode nd then (s, Inr True)
          else if has_type node ''ContractDefinition''
          then (s\<lparr>contractName := js_prop node ''name''\<rparr>, Inr True)
          else if has_type node ''FunctionDefinition''
          then (s\<lparr>functionName := js_prop node ''name''\<rparr>, Inr False)
          else (s, Inr True))"

definition getNodePathScopeInfo :: "jsval \<Rightarrow> path \<Rightarrow> scope_info result" where
  "getNodePathScopeInfo ast nodePath =
     (case objPathVisit (Some ast) nodePath scope_visitor
         \<lparr>contractName = None, functionName = None\<rparr> of
        (s, Inl e) \<Rightarrow> Inl e
      | (s, Inr _) \<Rightarrow> Inr s)"

text \<open>\<open>isNodePathInScope\<close>: a missing list of names admits every scope.\<close>

definition isNodePathInScope ::
  "jsval \<Rightarrow> path \<Rightarrow> jsval option list option \<Rightarrow> jsval option list option \<Rightarrow> bool result" where
  "isNodePathInScope ast nodePath contractNames functionNames =
     bind_result (getNodePathScopeInfo ast nodePath) (\<lambda>scope.
       Inr ((case contractNames of None \<Rightarrow> True | Some ns \<Rightarrow> contractName scope \<in> set ns) \<and>
            (case functionNames of None \<Rightarrow> True | Some ns \<Rightarrow> functionName scope \<in> set ns)))"

text \<open>Along a path that exists, the scope is that of the definitions it passes through:
  nothing below a function definition is looked at.\<close>

lemma scope_info_stops_at_function:
  assumes "isASTNode (Some f)" and "has_type f ''FunctionDefinition''"
  shows "objPathVisit (Some f) q scope_visitor s
    = (s\<lparr>functionName := js_prop f ''name''\<rparr>, Inr ())"
  using assms
  by (subst objPathVisit.simps)
    (auto simp: scope_visitor_def has_type_def split: list.splits)

section \<open>Removing attributes\<close>

fun ASTNodeRemoveAttrs :: "jsval \<Rightarrow> string list \<Rightarrow> jsval" where
  "ASTNodeRemoveAttrs (JObj kvs) attributesToRemove =
     JObj (filter (\<lambda>(attr, _). attr \<notin> set attributesToRemove) kvs)"
| "ASTNodeRemoveAttrs v _ = v"

fun ASTNodeRemoveLocDeep :: "jsval \<Rightarrow> jsval" where
  "ASTNodeRemoveLocDeep (JObj kvs) =
     JObj (filter (\<lambda>(attr, _). attr \<notin> {''range'', ''loc''})
       (map (\<lambda>(k, v). (k, ASTNodeRemoveLocDeep v)) kvs))"
| "ASTNodeRemoveLocDeep (JArr xs) = JArr (map ASTNodeRemoveLocDeep xs)"
| "ASTNodeRemoveLocDeep v = v"

text \<open>
  \<open>ASTNodeRemoveAttrsDeep\<close> removes the given attributes from the node itself, and then
  calls \<open>ASTNodeRemoveLocDeep\<close>, not itself, on every object below.
\<close>

fun ASTNodeRemoveAttrsDeep :: "jsval \<Rightarrow> string list \<Rightarrow> jsval" where
  "ASTNodeRemoveAttrsDeep node attributesToRemove =
     (case ASTNodeRemoveAttrs node attributesToRemove of
        JObj kvs \<Rightarrow> JObj (map (\<lambda>(k, v). (k, ASTNodeRemoveLocDeep v)) kvs)
      | JArr xs \<Rightarrow> JArr (map ASTNodeRemoveLocDeep xs)
      | v \<Rightarrow> v)"

definition ASTNodeRemoveExtraAttributesDeep :: "jsval \<Rightarrow> jsval" where
  "ASTNodeRemoveExtraAttributesDeep node = ASTNodeRemoveAttrsDeep node [''tokens'']"

text \<open>The defining equation of \<open>ASTNodeRemoveLocDeep\<close> in the source.\<close>

lemma ASTNodeRemoveLocDeep_AttrsDeep:
  "ASTNodeRemoveLocDeep v = ASTNodeRemoveAttrsDeep v [''range'', ''loc'']"
  by (cases v) (auto simp: filter_map comp_def case_prod_unfold)

lemma ASTNodeRemoveLocDeep_idem [simp]:
  "ASTNodeRemoveLocDeep (ASTNodeRemoveLocDeep v) = ASTNodeRemoveLocDeep v"
proof (induction v rule: ASTNodeRemoveLocDeep.induct)
  case (1 kvs)
  then show ?case by (auto simp: filter_map comp_def case_prod_unfold)
qed (auto simp: comp_def)

end
