(* ===== verification/TrackedEdit.thy ===== *)
theory TrackedEdit
  imports AstUtils
begin

text \<open>
  The contract of the abstract class \<open>Mutation\<close> (\<open>lib/Mutations/Mutation.ts\<close>): an edit of
  the AST together with the two functions that carry node paths across it. The clients
  (mutation sequences, the fault space of the generators, crossover) rely on exactly these
  laws; the four mutations prove them. \<open>spared m ast q\<close> says that the edit does not touch
  the value at \<open>q\<close>: it neither is removed or replaced nor contains the place of the edit.
\<close>

locale tracked_edit =
  fixes applicable :: "'m \<Rightarrow> jsval \<Rightarrow> bool"
    and apply_edit :: "'m \<Rightarrow> jsval \<Rightarrow> jsval result"
    and update_path :: "'m \<Rightarrow> jsval \<Rightarrow> path \<Rightarrow> path option"
    and reverse_path :: "'m \<Rightarrow> jsval \<Rightarrow> path \<Rightarrow> path option"
    and spared :: "'m \<Rightarrow> jsval \<Rightarrow> path \<Rightarrow> bool"
  assumes keeps: "applicable m ast \<Longrightarrow> apply_edit m ast = Inr ast' \<Longrightarrow> spared m ast q \<Longrightarrow>
      cwalk ast q = Some x \<Longrightarrow> \<exists>q'. update_path m ast q = Some q' \<and> cwalk ast' q' = Some x"
    and alive: "applicable m ast \<Longrightarrow> apply_edit m ast = Inr ast' \<Longrightarrow>
      update_path m ast q = Some q' \<Longrightarrow> isASTNode (cwalk ast q) \<Longrightarrow> isASTNode (cwalk ast' q')"
    and reverses: "applicable m ast \<Longrightarrow> canonical_path q \<Longrightarrow>
      update_path m ast q = Some q' \<Longrightarrow> reverse_path m ast q' = Some q"
    and canonical: "applicable m ast \<Longrightarrow> canonical_path q \<Longrightarrow>
      update_path m ast q = Some q' \<Longrightarrow> canonical_path q'"
begin

lemma update_path_inj:
  assumes "applicable m ast" "canonical_path p" "canonical_path q"
    and "update_path m ast p = Some r" "update_path m ast q = Some r"
  shows "p = q"
  using reverses [OF assms(1,2,4)] reverses [OF assms(1,3,5)] by simp

lemma kept_node_type:
  assumes "applicable m ast" "apply_edit m ast = Inr ast'" "spared m ast q"
    and "cwalk ast q = Some x" "update_path m ast q = Some q'"
  shows "cwalk ast' q' = Some x"
  using keeps [OF assms(1-4)] assms(5) by auto

end

section \<open>Nodes around a rewritten place\<close>

lemma isASTNode_set_child [simp]:
  "isASTNode (Some v) \<Longrightarrow> isASTNode (Some (set_child v k w))"
  by (cases v) (auto simp: AList.update_conv split: if_splits)

lemma isASTNode_del_child:
  "isASTNode (Some v) \<Longrightarrow> k \<noteq> ''type'' \<Longrightarrow> isASTNode (Some (del_child v k))"
  by (cases v) (auto simp: AList.delete_conv)

text \<open>A node strictly above a rewritten place is still a node.\<close>

lemma isASTNode_put_above:
  assumes "cwalk v p \<noteq> None" and "strict_prefix q p" and "isASTNode (cwalk v q)"
  shows "isASTNode (cwalk (put v p w) q)"
proof -
  obtain k r where p: "p = q @ k # r"
    using assms(2) by (auto elim: strict_prefixE')
  obtain x where x: "cwalk v q = Some x"
    using assms(3) by (cases "cwalk v q") auto
  with assms p obtain c where "cwalk (put v p w) q = Some (set_child x k (put c r w))"
    using cwalk_put_above [of v q k r x w] by auto
  with assms(3) x show ?thesis by simp
qed

lemma cwalk_strict_prefix_some:
  "cwalk v (q @ r) = Some x \<Longrightarrow> \<exists>y. cwalk v q = Some y"
  by (auto simp: cwalk_append split: option.splits)

lemma take_nth_drop_append [simp]:
  "(p @ k # r) ! length p = k" "(p @ k # r)[length p := k'] = p @ k' # r"
  by simp_all

text \<open>Every canonical path is one of three: through the target array at an index, through
  another property of it, or not strictly below it.\<close>

lemma path_below_cases:
  assumes "canonical_path q"
  obtains (index) z r where "q = p @ show_int z # r"
  | (other) k r where "q = p @ k # r" "js_parseInt k = NaN"
  | (elsewhere) "\<not> strict_prefix p q"
proof (cases "strict_prefix p q")
  case True
  then obtain k r where q: "q = p @ k # r" by (auto elim: strict_prefixE')
  with assms have k: "canonical_key k" by simp
  show thesis
  proof (cases k rule: js_parseInt_cases)
    case (num z)
    with k have "k = show_int z" by (rule canonical_keyD)
    with q show thesis by (auto intro: index)
  qed (use q other in blast)
qed (rule elsewhere)

end
