(* ===== verification/InsertionM.thy ===== *)
theory InsertionM
  imports TrackedEdit
begin

text \<open>
  The mutation \<open>InsertionM\<close> (\<open>lib/Mutations/InsertionM.ts\<close>): a new node is spliced into the
  array that \<open>targetPropertyPath\<close> leads to. Nodes at or after the insertion index move one
  place; \<open>updateASTPath\<close> and \<open>reverseUpdateASTPath\<close> carry paths across.
\<close>

record insertionM =
  targetPropertyPath :: path
  insertIndex :: jsnum
  newNode :: jsval

text \<open>The constructor passes \<open>targetPropertyPath.slice(0, -1)\<close> on as the target node path.\<close>

definition InsertionM_targetNodePath :: "insertionM \<Rightarrow> path" where
  "InsertionM_targetNodePath m = butlast (targetPropertyPath m)"

definition InsertionM_apply :: "lodash \<Rightarrow> insertionM \<Rightarrow> jsval \<Rightarrow> jsval result" where
  "InsertionM_apply L m ast =
     (case lget L ast (targetPropertyPath m) of
        Some (JArr children) \<Rightarrow>
          bind_result (js_assert (insertIndex m \<le> Fin (int (length children)))) (\<lambda>_.
            Inr (put ast (targetPropertyPath m)
              (JArr (splice_insert children (insertIndex m) (newNode m)))))
      | _ \<Rightarrow> Inl AssertionError)"

definition InsertionM_updateASTPath :: "insertionM \<Rightarrow> path \<Rightarrow> path" where
  "InsertionM_updateASTPath m path =
     (let n = length (targetPropertyPath m) in
      if arrStartsWithArr path (targetPropertyPath m) \<and> length path > n then
        let targetNum = js_parseInt (path ! n) in
        if insertIndex m \<le> targetNum then path[n := js_toString (targetNum + 1)] else path
      else path)"

definition InsertionM_reverseUpdateASTPath :: "insertionM \<Rightarrow> path \<Rightarrow> path" where
  "InsertionM_reverseUpdateASTPath m path =
     (let n = length (targetPropertyPath m) in
      if arrStartsWithArr path (targetPropertyPath m) \<and> length path > n then
        let targetNum = js_parseInt (path ! n) in
        if insertIndex m \<le> targetNum - 1 then path[n := js_toString (targetNum - 1)] else path
      else path)"

definition InsertionM_modifiedNodePath :: "insertionM \<Rightarrow> path list" where
  "InsertionM_modifiedNodePath m = [targetPropertyPath m @ [js_toString (insertIndex m)]]"

text \<open>
  The insertions the generators build: the target is an existing array, the index lies
  between 0 and its length.
\<close>

definition InsertionM_applicable :: "insertionM \<Rightarrow> jsval \<Rightarrow> bool" where
  "InsertionM_applicable m ast =
     (targetPropertyPath m \<noteq> [] \<and>
      (case (cwalk ast (targetPropertyPath m), insertIndex m) of
         (Some (JArr xs), Fin z) \<Rightarrow> 0 \<le> z \<and> z \<le> int (length xs)
       | _ \<Rightarrow> False))"

definition InsertionM_spared :: "insertionM \<Rightarrow> jsval \<Rightarrow> path \<Rightarrow> bool" where
  "InsertionM_spared m ast q = (\<not> prefix q (targetPropertyPath m))"

lemma InsertionM_applicableE:
  assumes "InsertionM_applicable m ast"
  obtains xs i where "targetPropertyPath m \<noteq> []" "cwalk ast (targetPropertyPath m) = Some (JArr xs)"
    "insertIndex m = Fin (int i)" "i \<le> length xs"
  using assms nonneg_int_cases
  by (fastforce simp: InsertionM_applicable_def split: option.splits jsval.splits jsnum.splits)

section \<open>What the functions compute\<close>

lemma InsertionM_apply_eq [edit_simps]:
  assumes "lodash_lib L" and "targetPropertyPath m \<noteq> []"
    and "cwalk ast (targetPropertyPath m) = Some (JArr xs)"
    and "insertIndex m = Fin (int i)" and "i \<le> length xs"
  shows "InsertionM_apply L m ast =
    Inr (put ast (targetPropertyPath m) (JArr (take i xs @ newNode m # drop i xs)))"
  using assms lodash_lib.get_container [OF assms(1,2), of "JArr xs" ast]
  by (simp add: InsertionM_apply_def splice_insert_in_range)

lemma InsertionM_update_below [edit_simps]:
  "insertIndex m = Fin i \<Longrightarrow>
   InsertionM_updateASTPath m (targetPropertyPath m @ show_int z # r)
   = targetPropertyPath m @ show_int (if i \<le> z then z + 1 else z) # r"
  by (simp add: InsertionM_updateASTPath_def)

lemma InsertionM_reverse_below [edit_simps]:
  "insertIndex m = Fin i \<Longrightarrow>
   InsertionM_reverseUpdateASTPath m (targetPropertyPath m @ show_int z # r)
   = targetPropertyPath m @ show_int (if i \<le> z - 1 then z - 1 else z) # r"
  by (simp add: InsertionM_reverseUpdateASTPath_def)

lemma InsertionM_below_nan [edit_simps]:
  "js_parseInt k = NaN \<Longrightarrow> insertIndex m = Fin i \<Longrightarrow>
   InsertionM_updateASTPath m (targetPropertyPath m @ k # r) = targetPropertyPath m @ k # r"
  "js_parseInt k = NaN \<Longrightarrow> insertIndex m = Fin i \<Longrightarrow>
   InsertionM_reverseUpdateASTPath m (targetPropertyPath m @ k # r) = targetPropertyPath m @ k # r"
  by (simp_all add: InsertionM_updateASTPath_def InsertionM_reverseUpdateASTPath_def)

lemma InsertionM_elsewhere [edit_simps]:
  "\<not> strict_prefix (targetPropertyPath m) q \<Longrightarrow> InsertionM_updateASTPath m q = q"
  "\<not> strict_prefix (targetPropertyPath m) q \<Longrightarrow> InsertionM_reverseUpdateASTPath m q = q"
  by (auto simp: InsertionM_updateASTPath_def InsertionM_reverseUpdateASTPath_def Let_def
      prefix_def strict_prefix_def)

section \<open>The contract\<close>

lemma InsertionM_keeps:
  assumes L: "lodash_lib L" and m: "InsertionM_applicable m ast"
    and ap: "InsertionM_apply L m ast = Inr ast'" and sp: "InsertionM_spared m ast q"
    and x: "cwalk ast q = Some x"
  shows "cwalk ast' (InsertionM_updateASTPath m q) = Some x"
proof -
  let ?P = "targetPropertyPath m"
  from m obtain xs i where P: "?P \<noteq> []" and xs: "cwalk ast ?P = Some (JArr xs)"
    and i: "insertIndex m = Fin (int i)" "i \<le> length xs"
    by (rule InsertionM_applicableE)
  have ast': "ast' = put ast ?P (JArr (take i xs @ newNode m # drop i xs))"
    using ap InsertionM_apply_eq [OF L P xs i] by simp
  show ?thesis
  proof (cases q ?P rule: prefix_cases3)
    case above
    with sp show ?thesis by (simp add: InsertionM_spared_def)
  next
    case (below k r)
    with xs x obtain j where j: "k = idx_key j" "j < length xs" "cwalk (xs ! j) r = Some x"
      by (auto elim: cwalk_through_array)
    let ?j = "if i \<le> j then Suc j else j"
    have "InsertionM_updateASTPath m q = ?P @ idx_key ?j # r"
      using below j i by (simp add: edit_simps ac_simps)
    moreover have "cwalk ast' (?P @ idx_key ?j # r) = cwalk ast (?P @ idx_key j # r)"
      unfolding ast' using i j nth_splice_insert [of i xs j "newNode m"]
      by (intro cwalk_put_reindex [OF xs]) auto
    ultimately show ?thesis using x below j by simp
  next
    case apart
    then show ?thesis
      using x ast' by (auto simp: edit_simps cwalk_put_other strict_prefix_def)
  qed
qed

lemma InsertionM_alive:
  assumes L: "lodash_lib L" and m: "InsertionM_applicable m ast"
    and ap: "InsertionM_apply L m ast = Inr ast'" and x: "isASTNode (cwalk ast q)"
  shows "isASTNode (cwalk ast' (InsertionM_updateASTPath m q))"
proof (cases "prefix q (targetPropertyPath m)")
  case True
  from m obtain xs i where P: "targetPropertyPath m \<noteq> []"
    and xs: "cwalk ast (targetPropertyPath m) = Some (JArr xs)"
    and i: "insertIndex m = Fin (int i)" "i \<le> length xs"
    by (rule InsertionM_applicableE)
  from True x xs have "strict_prefix q (targetPropertyPath m)" by (auto simp: strict_prefix_def)
  with InsertionM_apply_eq [OF L P xs i] ap x xs show ?thesis
    by (auto simp: edit_simps prefix_order.less_le_not_le intro: isASTNode_put_above)
next
  case False
  with assms show ?thesis
    using InsertionM_keeps [OF L m ap] by (cases "cwalk ast q") (auto simp: InsertionM_spared_def)
qed

lemma InsertionM_reverses:
  assumes "InsertionM_applicable m ast" and "canonical_path q"
  shows "InsertionM_reverseUpdateASTPath m (InsertionM_updateASTPath m q) = q"
    and "canonical_path (InsertionM_updateASTPath m q)"
proof -
  from assms(1) obtain i where i: "insertIndex m = Fin i" by (auto elim: InsertionM_applicableE)
  show "InsertionM_reverseUpdateASTPath m (InsertionM_updateASTPath m q) = q"
    and "canonical_path (InsertionM_updateASTPath m q)"
    using assms(2)
    by (cases q rule: path_below_cases [where p = "targetPropertyPath m"];
        use i assms(2) in \<open>auto simp: edit_simps\<close>)+
qed

sublocale lodash_lib \<subseteq> insertion: tracked_edit InsertionM_applicable "InsertionM_apply L"
  "\<lambda>m ast q. Some (InsertionM_updateASTPath m q)"
  "\<lambda>m ast q. Some (InsertionM_reverseUpdateASTPath m q)" InsertionM_spared
  by unfold_locales
    (auto simp: InsertionM_reverses intro: InsertionM_keeps [OF lodash_lib_axioms]
      InsertionM_alive [OF lodash_lib_axioms])

interpretation insertion_reference: tracked_edit InsertionM_applicable
  "InsertionM_apply lodash_ref" "\<lambda>m ast q. Some (InsertionM_updateASTPath m q)"
  "\<lambda>m ast q. Some (InsertionM_reverseUpdateASTPath m q)" InsertionM_spared
  by (rule lodash_reference.insertion.tracked_edit_axioms)

end
