(* ===== verification/DeletionM.thy ===== *)
theory DeletionM
  imports TrackedEdit
begin

text \<open>
  The mutation \<open>DeletionM\<close> (\<open>lib/Mutations/DeletionM.ts\<close>): the node at a path is removed,
  from the array that holds it (the following elements move up) or from its object.
\<close>

record deletionM =
  del_targetNodePath :: path

text \<open>\<open>parseInt(path[path.length - 1])\<close>: on the empty path the element is undefined, which
  parses to NaN.\<close>

definition parseInt_last :: "path \<Rightarrow> jsnum" where
  "parseInt_last p = (if p = [] then NaN else js_parseInt (last p))"

definition isInteger :: "jsnum \<Rightarrow> bool" where
  "isInteger n = (case n of Fin _ \<Rightarrow> True | _ \<Rightarrow> False)"

definition DeletionM_apply :: "lodash \<Rightarrow> deletionM \<Rightarrow> jsval \<Rightarrow> jsval result" where
  "DeletionM_apply L m ast =
     (let target = del_targetNodePath m in
      case getASTNodeFromPath L ast (butlast target) of
        Some (JArr siblings) \<Rightarrow>
          bind_result (js_assert (isInteger (parseInt_last target))) (\<lambda>_.
            Inr (put ast (butlast target) (JArr (splice_remove siblings (parseInt_last target)))))
      | _ \<Rightarrow>
          bind_result (js_assert (lhas L ast target)) (\<lambda>_.
            let (deleted, ast') = lunset L ast target in
            bind_result (js_assert deleted) (\<lambda>_. Inr ast')))"

definition DeletionM_updateASTPath :: "lodash \<Rightarrow> deletionM \<Rightarrow> jsval \<Rightarrow> path \<Rightarrow> path option" where
  "DeletionM_updateASTPath L m ast path =
     (let target = del_targetNodePath m; n = length target - 1 in
      if arrStartsWithArr path target then None
      else case getASTNodeFromPath L ast (butlast target) of
        Some (JArr _) \<Rightarrow>
          if arrStartsWithArr path (butlast target) \<and> length path \<ge> length target then
            let targetNum = js_parseInt (path ! n) in
            if parseInt_last target < targetNum
            then Some (path[n := js_toString (targetNum - 1)]) else Some path
          else Some path
      | _ \<Rightarrow> Some path)"

definition DeletionM_reverseUpdateASTPath ::
  "lodash \<Rightarrow> deletionM \<Rightarrow> jsval \<Rightarrow> path \<Rightarrow> path option" where
  "DeletionM_reverseUpdateASTPath L m ast path =
     (let target = del_targetNodePath m; n = length target - 1 in
      case getASTNodeFromPath L ast (butlast target) of
        Some (JArr _) \<Rightarrow>
          if arrStartsWithArr path (butlast target) \<and> length path \<ge> length target then
            let targetNum = js_parseInt (path ! n) in
            if parseInt_last target < targetNum + 1
            then Some (path[n := js_toString (targetNum + 1)]) else Some path
          else Some path
      | _ \<Rightarrow> Some path)"

definition DeletionM_modifiedNodePath :: "deletionM \<Rightarrow> path list" where
  "DeletionM_modifiedNodePath m = []"

text \<open>The deletions the generators build: the target exists, below the root node; the
  \<open>type\<close> of a node is never deleted.\<close>

definition DeletionM_applicable :: "deletionM \<Rightarrow> jsval \<Rightarrow> bool" where
  "DeletionM_applicable m ast =
     (let target = del_targetNodePath m in
      length target \<ge> 2 \<and> last target \<noteq> ''type'' \<and> cwalk ast target \<noteq> None)"

definition DeletionM_spared :: "deletionM \<Rightarrow> jsval \<Rightarrow> path \<Rightarrow> bool" where
  "DeletionM_spared m ast q =
     (\<not> prefix (del_targetNodePath m) q \<and> \<not> prefix q (butlast (del_targetNodePath m)))"

lemma DeletionM_applicableE:
  assumes "DeletionM_applicable m ast"
  obtains (elem) d i xs where "del_targetNodePath m = d @ [idx_key i]" "d \<noteq> []"
    "cwalk ast d = Some (JArr xs)" "i < length xs"
  | (field) d k kvs where "del_targetNodePath m = d @ [k]" "d \<noteq> []" "k \<noteq> ''type''"
    "cwalk ast d = Some (JObj kvs)" "map_of kvs k \<noteq> None"
proof -
  obtain d k where t: "del_targetNodePath m = d @ [k]" "d \<noteq> []"
    using assms by (cases "del_targetNodePath m" rule: rev_cases)
      (auto simp: DeletionM_applicable_def Let_def Suc_le_eq)
  then obtain x where x: "cwalk ast d = Some x" "child x k \<noteq> None" and k: "k \<noteq> ''type''"
    using assms by (auto simp: DeletionM_applicable_def Let_def cwalk_append split: option.splits)
  then consider xs where "x = JArr xs" | kvs where "x = JObj kvs" by (cases x) auto
  then show thesis
    by cases (use t x k in \<open>auto simp: arr_idx_Some_iff split: option.splits if_splits
      intro: elem field\<close>)
qed

section \<open>What the functions compute\<close>

context lodash_lib
begin

lemma del_get_array [edit_simps]:
  "d \<noteq> [] \<Longrightarrow> cwalk ast d = Some (JArr xs) \<Longrightarrow> getASTNodeFromPath L ast d = Some (JArr xs)"
  by (simp add: getASTNodeFromPath_def get_path cwalk_walk)

lemma del_get_object [edit_simps]:
  "d \<noteq> [] \<Longrightarrow> cwalk ast d = Some (JObj kvs) \<Longrightarrow> getASTNodeFromPath L ast d = Some (JObj kvs)"
  by (simp add: getASTNodeFromPath_def get_path cwalk_walk)

lemma DeletionM_apply_elem [edit_simps]:
  assumes "del_targetNodePath m = d @ [idx_key i]" "d \<noteq> []" "cwalk ast d = Some (JArr xs)"
    and "i < length xs"
  shows "DeletionM_apply L m ast = Inr (put ast d (JArr (take i xs @ drop (Suc i) xs)))"
  using assms
  by (simp add: DeletionM_apply_def edit_simps parseInt_last_def isInteger_def
      splice_remove_in_range)

lemma DeletionM_apply_prop [edit_simps]:
  assumes "del_targetNodePath m = d @ [k]" "d \<noteq> []" "cwalk ast d = Some (JObj kvs)"
    and "map_of kvs k \<noteq> None"
  shows "DeletionM_apply L m ast = Inr (put ast d (del_child (JObj kvs) k))"
proof -
  have w: "walk ast d = Some (JObj kvs)" using assms(3) by (rule cwalk_walk)
  then have "walk ast (d @ [k]) \<noteq> None" using assms(4) by (auto simp: walk_append)
  with w assms show ?thesis
    by (simp add: DeletionM_apply_def edit_simps has_path unset_property Let_def)
qed

lemma DeletionM_paths_elem [edit_simps]:
  assumes "del_targetNodePath m = d @ [idx_key i]" "d \<noteq> []" "cwalk ast d = Some (JArr xs)"
  shows "DeletionM_updateASTPath L m ast (d @ show_int z # r) =
      (if z = int i then None else Some (d @ show_int (if int i < z then z - 1 else z) # r))"
    and "DeletionM_reverseUpdateASTPath L m ast (d @ show_int z # r) =
      Some (d @ show_int (if int i < z + 1 then z + 1 else z) # r)"
    and "js_parseInt k = NaN \<Longrightarrow>
      DeletionM_updateASTPath L m ast (d @ k # r) = Some (d @ k # r)"
    and "js_parseInt k = NaN \<Longrightarrow>
      DeletionM_reverseUpdateASTPath L m ast (d @ k # r) = Some (d @ k # r)"
    and "\<not> strict_prefix d q \<Longrightarrow> DeletionM_updateASTPath L m ast q = Some q"
    and "\<not> strict_prefix d q \<Longrightarrow> DeletionM_reverseUpdateASTPath L m ast q = Some q"
  using assms
  by (auto simp: DeletionM_updateASTPath_def DeletionM_reverseUpdateASTPath_def edit_simps
      parseInt_last_def Let_def strict_prefix_def prefix_def)

lemma DeletionM_paths_prop [edit_simps]:
  assumes "del_targetNodePath m = d @ [k]" "d \<noteq> []" "cwalk ast d = Some (JObj kvs)"
  shows "DeletionM_updateASTPath L m ast q = (if prefix (d @ [k]) q then None else Some q)"
    and "DeletionM_reverseUpdateASTPath L m ast q = Some q"
  using assms
  by (auto simp: DeletionM_updateASTPath_def DeletionM_reverseUpdateASTPath_def edit_simps Let_def)

end

section \<open>The contract\<close>

context lodash_lib
begin

lemma DeletionM_keeps:
  assumes m: "DeletionM_applicable m ast" and ap: "DeletionM_apply L m ast = Inr ast'"
    and sp: "DeletionM_spared m ast q" and x: "cwalk ast q = Some x"
  shows "\<exists>q'. DeletionM_updateASTPath L m ast q = Some q' \<and> cwalk ast' q' = Some x"
  using m
proof (cases rule: DeletionM_applicableE)
  case (elem d i xs)
  note paths = DeletionM_paths_elem [OF elem(1,2,3)]
  have ast': "ast' = put ast d (JArr (take i xs @ drop (Suc i) xs))"
    using ap DeletionM_apply_elem [OF elem] by simp
  show ?thesis
  proof (cases q d rule: prefix_cases3)
    case above
    with sp elem show ?thesis by (simp add: DeletionM_spared_def)
  next
    case (below k r)
    with elem x obtain j where j: "k = idx_key j" "j < length xs" "cwalk (xs ! j) r = Some x"
      by (auto elim: cwalk_through_array)
    have ji: "j \<noteq> i" using sp below elem j by (auto simp: DeletionM_spared_def)
    let ?j = "if i < j then j - 1 else j"
    have "DeletionM_updateASTPath L m ast q = Some (d @ idx_key ?j # r)"
      using below j ji by (auto simp: paths of_nat_diff)
    moreover have "cwalk ast' (d @ idx_key ?j # r) = cwalk ast (d @ idx_key j # r)"
      unfolding ast' using elem j ji nth_splice_remove [of i xs j]
      by (intro cwalk_put_reindex [OF elem(3)]) auto
    ultimately show ?thesis using x below j by simp
  next
    case apart
    then show ?thesis
      using x ast' by (auto simp: paths cwalk_put_other strict_prefix_def)
  qed
next
  case (field d k kvs)
  note paths = DeletionM_paths_prop [OF field(1,2,4)]
  have ast': "ast' = put ast d (del_child (JObj kvs) k)"
    using ap DeletionM_apply_prop [OF field(1,2,4,5)] by simp
  have np: "\<not> prefix (d @ [k]) q" using sp field by (simp add: DeletionM_spared_def)
  then have up: "DeletionM_updateASTPath L m ast q = Some q" by (simp add: paths)
  show ?thesis
  proof (cases q d rule: prefix_cases3)
    case above
    with sp field show ?thesis by (simp add: DeletionM_spared_def)
  next
    case (below k' r)
    with np have "k' \<noteq> k" by auto
    with below x field(4) ast' have "cwalk ast' q = Some x"
      using cwalk_put_below [of ast d "del_child (JObj kvs) k" "k' # r"]
      by (simp add: cwalk_append AList.delete_conv split: option.splits)
    with up show ?thesis by simp
  next
    case apart
    with up x ast' show ?thesis by (simp add: cwalk_put_other)
  qed
qed

lemma DeletionM_alive:
  assumes m: "DeletionM_applicable m ast" and ap: "DeletionM_apply L m ast = Inr ast'"
    and up: "DeletionM_updateASTPath L m ast q = Some q'" and x: "isASTNode (cwalk ast q)"
  shows "isASTNode (cwalk ast' q')"
proof (cases "prefix q (butlast (del_targetNodePath m))")
  case False
  moreover have "\<not> prefix (del_targetNodePath m) q"
    using up by (auto simp: DeletionM_updateASTPath_def Let_def)
  ultimately show ?thesis
    using DeletionM_keeps [OF m ap, of q] up x
    by (cases "cwalk ast q") (auto simp: DeletionM_spared_def)
next
  case True
  from m show ?thesis
  proof (cases rule: DeletionM_applicableE)
    case (elem d i xs)
    with True x have sp: "strict_prefix q d" by (auto simp: strict_prefix_def)
    then have "q' = q"
      using up DeletionM_paths_elem(5) [OF elem(1,2,3), of q] by auto
    with sp elem x DeletionM_apply_elem [OF elem] ap show ?thesis
      by (auto intro: isASTNode_put_above)
  next
    case (field d k kvs)
    then have ast': "ast' = put ast d (del_child (JObj kvs) k)" and "q' = q"
      using ap DeletionM_apply_prop [OF field(1,2,4,5)] up
        DeletionM_paths_prop(1) [OF field(1,2,4), of q] by (auto split: if_splits)
    show ?thesis
    proof (cases "q = d")
      case True
      with field x have "isASTNode (Some (del_child (JObj kvs) k))"
        by (intro isASTNode_del_child) auto
      with True ast' \<open>q' = q\<close> field show ?thesis
        using cwalk_put_below [of ast d _ "[]"] by simp
    next
      case False
      with True field have "strict_prefix q d" by (simp add: strict_prefix_def)
      with ast' \<open>q' = q\<close> field x show ?thesis by (auto intro: isASTNode_put_above)
    qed
  qed
qed

lemma DeletionM_reverses:
  assumes m: "DeletionM_applicable m ast" and q: "canonical_path q"
    and up: "DeletionM_updateASTPath L m ast q = Some q'"
  shows "DeletionM_reverseUpdateASTPath L m ast q' = Some q" and "canonical_path q'"
proof -
  have "DeletionM_reverseUpdateASTPath L m ast q' = Some q \<and> canonical_path q'"
    using m
  proof (cases rule: DeletionM_applicableE)
    case (elem d i xs)
    note paths = DeletionM_paths_elem [OF elem(1,2,3)]
    from q show ?thesis
      by (cases q rule: path_below_cases [where p = d])
        (use up q in \<open>auto simp: paths split: if_splits\<close>)
  next
    case (field d k kvs)
    then show ?thesis
      using up q DeletionM_paths_prop [OF field(1,2,4)] by (auto split: if_splits)
  qed
  then show "DeletionM_reverseUpdateASTPath L m ast q' = Some q" "canonical_path q'" by auto
qed

end

sublocale lodash_lib \<subseteq> deletion: tracked_edit DeletionM_applicable "DeletionM_apply L"
  "DeletionM_updateASTPath L" "DeletionM_reverseUpdateASTPath L" DeletionM_spared
  by unfold_locales (fact DeletionM_keeps DeletionM_alive DeletionM_reverses)+

interpretation deletion_reference: tracked_edit DeletionM_applicable "DeletionM_apply lodash_ref"
  "DeletionM_updateASTPath lodash_ref" "DeletionM_reverseUpdateASTPath lodash_ref" DeletionM_spared
  by (rule lodash_reference.deletion.tracked_edit_axioms)

end
