(* ===== verification/FunctionalEqual.thy ===== *)
theory FunctionalEqual
  imports AstUtils
begin

text \<open>
  \<open>ASTFunctionalEqualCompareCustomizer\<close> of \<open>lib/utils/index.ts\<close>: with it, lodash's
  \<open>isEqualWith\<close> compares two ASTs up to the attributes that do not change the program
  (tokens, comments and source locations). The customizer calls \<open>isEqualWith\<close> with itself
  on copies without these attributes; the recursion is bounded by a fuel argument, and
  \<open>functional_equal_iff\<close> shows that the depth of the first value is enough.
\<close>

definition nonFunctionalRelatedAttributes :: "string list" where
  "nonFunctionalRelatedAttributes = [''tokens'', ''comments'', ''loc'', ''range'']"

fun has_nonfunctional :: "jsval \<Rightarrow> bool" where
  "has_nonfunctional (JObj kvs) =
     list_ex (\<lambda>x. map_of kvs x \<noteq> None) nonFunctionalRelatedAttributes"
| "has_nonfunctional _ = False"

fun ASTFunctionalEqualCompareCustomizer :: "lodash \<Rightarrow> nat \<Rightarrow> customizer" where
  "ASTFunctionalEqualCompareCustomizer L 0 objVal othVal key = None"
| "ASTFunctionalEqualCompareCustomizer L (Suc n) objVal othVal key =
     (if (case key of Some k \<Rightarrow> k \<in> set nonFunctionalRelatedAttributes | None \<Rightarrow> False)
      then Some True
      else if has_nonfunctional objVal \<or> has_nonfunctional othVal
      then Some (lequalWith L (ASTNodeRemoveAttrs objVal nonFunctionalRelatedAttributes)
        (ASTNodeRemoveAttrs othVal nonFunctionalRelatedAttributes)
        (ASTFunctionalEqualCompareCustomizer L n))
      else None)"

fun depth :: "jsval \<Rightarrow> nat" where
  "depth (JArr xs) = Suc (foldr max (map depth xs) 1)"
| "depth (JObj kvs) = Suc (foldr max (map (\<lambda>(_, v). depth v) kvs) 1)"
| "depth v = 1"

text \<open>\<open>lodash_equalWith(a, b, ASTFunctionalEqualCompareCustomizer)\<close>\<close>

definition functional_equal :: "lodash \<Rightarrow> jsval \<Rightarrow> jsval \<Rightarrow> bool" where
  "functional_equal L a b = lequalWith L a b (ASTFunctionalEqualCompareCustomizer L (depth a))"

section \<open>The specification\<close>

abbreviation functional_props :: "(string \<times> jsval) list \<Rightarrow> (string \<times> jsval) list" where
  "functional_props kvs \<equiv>
     filter (\<lambda>(attr, _). attr \<notin> set nonFunctionalRelatedAttributes) kvs"

fun same_program :: "jsval \<Rightarrow> jsval \<Rightarrow> bool" where
  "same_program (JArr xs) w =
     (case w of JArr ys \<Rightarrow> list_all2 same_program xs ys | _ \<Rightarrow> False)"
| "same_program (JObj kvs) w =
     (case w of
        JObj lvs \<Rightarrow> length (functional_props kvs) = length (functional_props lvs) \<and>
          list_all (\<lambda>(k, v). k \<in> set nonFunctionalRelatedAttributes \<or>
            (case map_of lvs k of None \<Rightarrow> False | Some u \<Rightarrow> same_program v u)) kvs
      | _ \<Rightarrow> False)"
| "same_program v w = (v = w)"

lemma depth_pos [simp]: "0 < depth v"
  by (cases v) auto

lemma depth_elem: "x \<in> set xs \<Longrightarrow> depth x < depth (JArr xs)"
  using foldr_max_ge [of "depth x" "map depth xs" 1] by (simp add: less_Suc_eq_le)

lemma depth_prop: "(k, v) \<in> set kvs \<Longrightarrow> depth v < depth (JObj kvs)"
proof -
  assume "(k, v) \<in> set kvs"
  then have "depth v \<in> set (map (\<lambda>(_, v). depth v) kvs)" by force
  from foldr_max_ge [OF this, of 1] show ?thesis by (simp add: less_Suc_eq_le)
qed

lemma idx_key_functional [simp]: "idx_key i \<notin> set nonFunctionalRelatedAttributes"
proof -
  have "js_parseInt a = NaN" if "a \<in> set nonFunctionalRelatedAttributes" for a
    using that by (auto simp: nonFunctionalRelatedAttributes_def js_parseInt_def is_space_def
        parse_digits_def digit_val_def)
  then show ?thesis using js_parseInt_show_int [of "int i"] by fastforce
qed

section \<open>The customizer meets the specification\<close>

lemma deep_equal_props_iff:
  assumes "\<And>k v w. (k, v) \<in> set kvs \<Longrightarrow> deep_equal_with c (Some k) v w = P k v w"
  shows "deep_equal_props c kvs lvs =
    list_all (\<lambda>(k, v). case map_of lvs k of None \<Rightarrow> False | Some w \<Rightarrow> P k v w) kvs"
  using assms by (induction kvs) (auto split: option.splits)

lemma deep_equal_elems_iff:
  assumes "\<And>i v w. v \<in> set xs \<Longrightarrow> deep_equal_with c (Some (idx_key i)) v w = P v w"
  shows "deep_equal_elems c i xs ys = list_all2 P xs ys"
  using assms
proof (induction xs arbitrary: i ys)
  case Nil
  then show ?case by simp
next
  case (Cons x xs)
  then show ?case by (cases ys) auto
qed

lemma has_nonfunctional_iff:
  "has_nonfunctional (JObj kvs) \<longleftrightarrow> functional_props kvs \<noteq> kvs"
  by (auto simp: list_ex_iff filter_id_conv map_of_eq_None_iff image_iff)

lemma map_of_functional_props:
  "k \<notin> set nonFunctionalRelatedAttributes \<Longrightarrow> map_of (functional_props kvs) k = map_of kvs k"
  by (induction kvs) auto

lemma functional_props_idem [simp]: "functional_props (functional_props kvs) = functional_props kvs"
  by simp

lemma has_nonfunctional_arr [simp]: "\<not> has_nonfunctional (JArr xs)"
  by simp

lemma has_nonfunctional_removed [simp]:
  "\<not> has_nonfunctional (ASTNodeRemoveAttrs v nonFunctionalRelatedAttributes)"
  by (cases v) (auto simp: list_ex_iff map_of_eq_None_iff)

lemma removed_id:
  "\<not> has_nonfunctional v \<Longrightarrow> ASTNodeRemoveAttrs v nonFunctionalRelatedAttributes = v"
  by (cases v) (simp_all add: has_nonfunctional_iff del: has_nonfunctional.simps)

text \<open>A value stored under one of the attributes.\<close>

fun under_nonfunctional :: "string option \<Rightarrow> bool" where
  "under_nonfunctional (Some k) = (k \<in> set nonFunctionalRelatedAttributes)"
| "under_nonfunctional None = False"

lemma customizer_Suc:
  "ASTFunctionalEqualCompareCustomizer L (Suc n) v w key =
     (if under_nonfunctional key then Some True
      else if has_nonfunctional v \<or> has_nonfunctional w
      then Some (lequalWith L (ASTNodeRemoveAttrs v nonFunctionalRelatedAttributes)
        (ASTNodeRemoveAttrs w nonFunctionalRelatedAttributes)
        (ASTFunctionalEqualCompareCustomizer L n))
      else None)"
  by (cases key) simp_all

declare has_nonfunctional.simps(1) [simp del] ASTFunctionalEqualCompareCustomizer.simps(2) [simp del]

context lodash_lib
begin

lemma customizer_step:
  assumes "\<And>k v w. (k, v) \<in> set kvs \<Longrightarrow> deep_equal_with (ASTFunctionalEqualCompareCustomizer L (Suc n)) (Some k) v w
      = (k \<in> set nonFunctionalRelatedAttributes \<or> same_program v w)"
  shows "deep_equal_with (ASTFunctionalEqualCompareCustomizer L (Suc n)) None
      (JObj (functional_props kvs)) (ASTNodeRemoveAttrs w nonFunctionalRelatedAttributes)
    = same_program (JObj kvs) w"
proof (cases w)
  case (JObj lvs)
  have "deep_equal_props (ASTFunctionalEqualCompareCustomizer L (Suc n))
      (functional_props kvs) (functional_props lvs)
    = list_all (\<lambda>(k, v). k \<in> set nonFunctionalRelatedAttributes \<or>
        (case map_of lvs k of None \<Rightarrow> False | Some u \<Rightarrow> same_program v u)) kvs"
    using assms
    by (subst deep_equal_props_iff [where P = "\<lambda>k. same_program"])
      (auto simp: list_all_iff map_of_functional_props)
  with JObj show ?thesis
    by (simp add: customizer_Suc has_nonfunctional_iff)
qed (simp_all add: customizer_Suc has_nonfunctional_iff)

lemma customizer_removed [simp]:
  "ASTFunctionalEqualCompareCustomizer L n
     (ASTNodeRemoveAttrs v nonFunctionalRelatedAttributes)
     (ASTNodeRemoveAttrs w nonFunctionalRelatedAttributes) None = None"
  by (cases n) (simp_all add: customizer_Suc)

lemma customizer_leaf:
  assumes "\<not> is_container v" and "0 < n"
  shows "deep_equal_with (ASTFunctionalEqualCompareCustomizer L n) key v w =
     (under_nonfunctional key \<or> same_program v w)"
proof -
  obtain m where n: "n = Suc m" using assms(2) by (cases n) auto
  have id: "ASTNodeRemoveAttrs v nonFunctionalRelatedAttributes = v" "\<not> has_nonfunctional v"
    using assms(1) by (cases v; simp)+
  have deep: "deep_equal_with c k v u = (case c v u k of Some r \<Rightarrow> r | None \<Rightarrow> v = u)" for c k u
    using assms(1) by (cases v) (simp_all split: option.splits)
  have same: "same_program v w = (v = w)"
    using assms(1) by (cases v) simp_all
  have obj: "v \<noteq> w \<and> v \<noteq> ASTNodeRemoveAttrs w nonFunctionalRelatedAttributes"
    if "has_nonfunctional w"
    using that assms(1) by (cases w) auto
  have "ASTFunctionalEqualCompareCustomizer L m v
      (ASTNodeRemoveAttrs w nonFunctionalRelatedAttributes) None = None"
    using customizer_removed [of m v w] id(1) by simp
  then show ?thesis
    using obj by (simp add: deep same n customizer_Suc id equal_with)
qed

text \<open>With at least the depth of the first value as fuel, comparison under the customizer is
  equality up to the non-functional attributes.\<close>

lemma customizer_meets_spec:
  "depth v \<le> n \<Longrightarrow> deep_equal_with (ASTFunctionalEqualCompareCustomizer L n) key v w =
     (under_nonfunctional key \<or> same_program v w)"
proof (induction v arbitrary: n key w)
  case (JArr xs)
  then obtain n' where n: "n = Suc n'" by (cases n) auto
  have "deep_equal_elems (ASTFunctionalEqualCompareCustomizer L n) 0 xs ys
      = list_all2 same_program xs ys" for ys
  proof (rule deep_equal_elems_iff)
    fix i v w assume v: "v \<in> set xs"
    then have "depth v \<le> n" using depth_elem [OF v] JArr.prems by simp
    with v show "deep_equal_with (ASTFunctionalEqualCompareCustomizer L n) (Some (idx_key i)) v w
        = same_program v w" using JArr.IH by simp
  qed
  moreover have "ASTFunctionalEqualCompareCustomizer L n' (JArr xs)
      (ASTNodeRemoveAttrs w nonFunctionalRelatedAttributes) None = None"
    using customizer_removed [of n' "JArr xs" w] by simp
  ultimately show ?case
    using n by (cases w) (simp_all add: customizer_Suc [of L n' "JArr xs"] equal_with)
next
  case (JObj kvs)
  have IH: "deep_equal_with (ASTFunctionalEqualCompareCustomizer L m) (Some k) v w
      = (k \<in> set nonFunctionalRelatedAttributes \<or> same_program v w)"
    if "(k, v) \<in> set kvs" "depth v \<le> m" for k v w m
    using JObj.IH that by fastforce
  have d: "depth v < depth (JObj kvs)" if "(k, v) \<in> set kvs" for k v
    using that by (rule depth_prop)
  have "Suc (Suc 0) \<le> depth (JObj kvs)"
    by (induction kvs) auto
  then obtain n' where n: "n = Suc (Suc n')" using JObj.prems
    by (metis Suc_le_D Suc_le_mono order.trans)
  have step: "deep_equal_with (ASTFunctionalEqualCompareCustomizer L (Suc m)) None
      (JObj (functional_props kvs)) (ASTNodeRemoveAttrs u nonFunctionalRelatedAttributes)
    = same_program (JObj kvs) u" if "n' \<le> m" for u m
  proof (rule customizer_step)
    fix k v w assume kv: "(k, v) \<in> set kvs"
    then have "depth v \<le> Suc m" using d [OF kv] JObj.prems n that by simp
    with kv show "deep_equal_with (ASTFunctionalEqualCompareCustomizer L (Suc m)) (Some k) v w
      = (k \<in> set nonFunctionalRelatedAttributes \<or> same_program v w)" by (rule IH)
  qed
  show ?case
  proof (cases "has_nonfunctional (JObj kvs) \<or> has_nonfunctional w")
    case True
    then show ?thesis
      using step [of n' w]
      by (simp add: n customizer_Suc [of L _ "JObj kvs"] equal_with del: same_program.simps)
  next
    case False
    then have id: "functional_props kvs = kvs"
        "ASTNodeRemoveAttrs w nonFunctionalRelatedAttributes = w"
      by (simp_all add: has_nonfunctional_iff removed_id)
    from step [of "Suc n'" w] have "deep_equal_with (ASTFunctionalEqualCompareCustomizer L n) None
        (JObj kvs) w = same_program (JObj kvs) w" by (simp only: id n)
    with False show ?thesis
      by (simp add: n customizer_Suc [of L _ "JObj kvs"] del: same_program.simps)
  qed
qed (rule customizer_leaf; simp add: Suc_le_eq)+

theorem functional_equal_iff: "functional_equal L a b = same_program a b"
  by (simp add: functional_equal_def equal_with customizer_meets_spec)

end

section \<open>Stripped copies\<close>

text \<open>The copies the program makes without locations or tokens are the same program.\<close>

lemma map_of_filter_key: "map_of (filter (\<lambda>(k, _). P k) kvs) k = (if P k then map_of kvs k else None)"
  by (induction kvs) auto

lemma map_of_map_values: "map_of (map (\<lambda>(k, v). (k, f v)) kvs) k = map_option f (map_of kvs k)"
  by (induction kvs) auto

lemma functional_props_map:
  "functional_props (map (\<lambda>(k, v). (k, f v)) kvs) = map (\<lambda>(k, v). (k, f v)) (functional_props kvs)"
  by (induction kvs) auto

lemma functional_props_filter:
  "set as \<subseteq> set nonFunctionalRelatedAttributes \<Longrightarrow>
   functional_props (filter (\<lambda>(attr, _). attr \<notin> set as) kvs) = functional_props kvs"
  by (induction kvs) auto

lemma same_program_stripped:
  assumes "distinct (map fst kvs)" and "set as \<subseteq> set nonFunctionalRelatedAttributes"
    and "\<And>k v. (k, v) \<in> set kvs \<Longrightarrow> same_program v (f v)"
  shows "same_program (JObj kvs)
    (JObj (map (\<lambda>(k, v). (k, f v)) (filter (\<lambda>(attr, _). attr \<notin> set as) kvs)))"
proof -
  have "k \<in> set nonFunctionalRelatedAttributes \<or>
      (case map_of (map (\<lambda>(k, v). (k, f v)) (filter (\<lambda>(attr, _). attr \<notin> set as) kvs)) k of
        None \<Rightarrow> False | Some u \<Rightarrow> same_program v u)" if "(k, v) \<in> set kvs" for k v
    using that assms by (auto simp: map_of_map_values map_of_filter_key)
  moreover have "length (functional_props
      (map (\<lambda>(k, v). (k, f v)) (filter (\<lambda>(attr, _). attr \<notin> set as) kvs)))
      = length (functional_props kvs)"
    by (simp only: functional_props_map functional_props_filter [OF assms(2)] length_map)
  ultimately show ?thesis
    by (simp add: list_all_iff split_beta)
qed

lemma same_program_remove_loc: "wf_val v \<Longrightarrow> same_program v (ASTNodeRemoveLocDeep v)"
proof (induction v)
  case (JArr xs)
  then show ?case by (auto simp: list_all2_map2 list_all_iff intro: list.rel_refl_strong)
next
  case (JObj kvs)
  have "ASTNodeRemoveLocDeep (JObj kvs) = JObj (map (\<lambda>(k, v). (k, ASTNodeRemoveLocDeep v))
      (filter (\<lambda>(attr, _). attr \<notin> set [''range'', ''loc'']) kvs))"
    by (simp add: filter_map comp_def case_prod_unfold)
  moreover have "same_program v (ASTNodeRemoveLocDeep v)" if "(k, v) \<in> set kvs" for k v
    using JObj that by (fastforce simp: list_all_iff)
  ultimately show ?case
    using JObj.prems
    by (simp only:) (rule same_program_stripped; simp add: nonFunctionalRelatedAttributes_def)
qed simp_all

lemma same_program_remove_extra:
  "wf_val v \<Longrightarrow> same_program v (ASTNodeRemoveExtraAttributesDeep v)"
proof (cases v)
  case (JObj kvs)
  moreover assume "wf_val v"
  ultimately show ?thesis
    using same_program_stripped [of kvs "[''tokens'']" ASTNodeRemoveLocDeep]
    by (fastforce simp: ASTNodeRemoveExtraAttributesDeep_def nonFunctionalRelatedAttributes_def
        list_all_iff same_program_remove_loc simp del: same_program.simps)
next
  case (JArr xs)
  moreover assume "wf_val v"
  ultimately show ?thesis
    using same_program_remove_loc [of v] by (simp add: ASTNodeRemoveExtraAttributesDeep_def)
qed (simp_all add: ASTNodeRemoveExtraAttributesDeep_def)

end
