(* ===== verification/MovementM.thy ===== *)
theory MovementM
  imports InsertionM DeletionM FunctionalEqual
begin

text \<open>
  The mutation \<open>MovementM\<close> (\<open>lib/Mutations/MovementM.ts\<close>): a node is taken from one place
  and inserted at another, as a deletion followed by an insertion. The mutation is built
  for one AST, keeps a stripped copy of it, and refuses to be applied to another.
\<close>

record movementM =
  mov_ast :: jsval
  fromNodePath :: path
  toPropertyPath :: path
  mov_insertIndex :: jsnum
  fstMutation :: deletionM
  sndMutation :: insertionM

text \<open>\<open>[...targetPropertyPath, insertIndex.toString()]\<close>\<close>

definition insertion_location :: "insertionM \<Rightarrow> path" where
  "insertion_location m = targetPropertyPath m @ [js_toString (insertIndex m)]"

definition new_MovementM ::
  "lodash \<Rightarrow> jsval \<Rightarrow> path \<Rightarrow> path \<Rightarrow> jsnum \<Rightarrow> movementM result" where
  "new_MovementM L ast from toPath index =
     (let thisAst = ASTNodeRemoveExtraAttributesDeep ast in
      case getASTNodeFromPath L thisAst from of
        None \<Rightarrow> Inl AssertionError
      | Some node \<Rightarrow>
          let theNode = ASTNodeRemoveLocDeep node;
              fst_m = \<lparr>del_targetNodePath = from\<rparr> in
          case DeletionM_updateASTPath L fst_m thisAst (toPath @ [js_toString index]) of
            None \<Rightarrow> Inl AssertionError
          | Some newTargetPath \<Rightarrow>
              let newToPropertyPath = butlast newTargetPath;
                  newInsertIndex = parseInt_last newTargetPath;
                  snd_m = \<lparr>targetPropertyPath = newToPropertyPath,
                    insertIndex = newInsertIndex, newNode = theNode\<rparr> in
              bind_result (js_assert (\<not> lequal L from newToPropertyPath)) (\<lambda>_.
                Inr \<lparr>mov_ast = thisAst, fromNodePath = from, toPropertyPath = toPath,
                  mov_insertIndex = index, fstMutation = fst_m, sndMutation = snd_m\<rparr>))"

definition MovementM_fromMutation ::
  "lodash \<Rightarrow> jsval \<Rightarrow> deletionM \<Rightarrow> insertionM \<Rightarrow> movementM result" where
  "MovementM_fromMutation L ast fst_m snd_m =
     (case DeletionM_reverseUpdateASTPath L fst_m ast (insertion_location snd_m) of
        None \<Rightarrow> Inl AssertionError
      | Some ori_insertNodePath \<Rightarrow>
          new_MovementM L ast (del_targetNodePath fst_m) (butlast ori_insertNodePath)
            (parseInt_last ori_insertNodePath))"

definition MovementM_apply :: "lodash \<Rightarrow> movementM \<Rightarrow> jsval \<Rightarrow> jsval result" where
  "MovementM_apply L m ast =
     bind_result (js_assert (functional_equal L ast (mov_ast m))) (\<lambda>_.
     bind_result (DeletionM_apply L (fstMutation m) ast) (\<lambda>ast1.
       InsertionM_apply L (sndMutation m) ast1))"

definition MovementM_updateASTPath :: "lodash \<Rightarrow> movementM \<Rightarrow> jsval \<Rightarrow> path \<Rightarrow> path option" where
  "MovementM_updateASTPath L m ast path =
     (case DeletionM_updateASTPath L (fstMutation m) ast path of
        None \<Rightarrow>
          if lequal L path (fromNodePath m) then Some (insertion_location (sndMutation m)) else None
      | Some ret1 \<Rightarrow> Some (InsertionM_updateASTPath (sndMutation m) ret1))"

definition MovementM_reverseUpdateASTPath ::
  "lodash \<Rightarrow> movementM \<Rightarrow> jsval \<Rightarrow> path \<Rightarrow> path option" where
  "MovementM_reverseUpdateASTPath L m ast path =
     (if lequal L path (insertion_location (sndMutation m)) then Some (fromNodePath m)
      else DeletionM_reverseUpdateASTPath L (fstMutation m) ast
        (InsertionM_reverseUpdateASTPath (sndMutation m) path))"

definition MovementM_modifiedNodePath :: "lodash \<Rightarrow> movementM \<Rightarrow> jsval \<Rightarrow> path list result" where
  "MovementM_modifiedNodePath L m ast =
     bind_result (DeletionM_apply L (fstMutation m) ast) (\<lambda>intermediateAST.
       Inr (DeletionM_modifiedNodePath (fstMutation m)
         @ InsertionM_modifiedNodePath (sndMutation m)))"

text \<open>
  A movement the generators build for \<open>ast\<close>: its deletion can be applied there and its
  insertion to the result, and the deletion is that of the moved node, which is a node.
\<close>

definition MovementM_applicable :: "lodash \<Rightarrow> movementM \<Rightarrow> jsval \<Rightarrow> bool" where
  "MovementM_applicable L m ast =
     (DeletionM_applicable (fstMutation m) ast \<and>
      fromNodePath m = del_targetNodePath (fstMutation m) \<and>
      isASTNode (Some (newNode (sndMutation m))) \<and>
      canonical_path (targetPropertyPath (sndMutation m)) \<and>
      (case DeletionM_apply L (fstMutation m) ast of
         Inl _ \<Rightarrow> False | Inr ast1 \<Rightarrow> InsertionM_applicable (sndMutation m) ast1))"

definition MovementM_spared :: "lodash \<Rightarrow> movementM \<Rightarrow> jsval \<Rightarrow> path \<Rightarrow> bool" where
  "MovementM_spared L m ast q =
     (DeletionM_spared (fstMutation m) ast q \<and>
      (case DeletionM_updateASTPath L (fstMutation m) ast q of
         None \<Rightarrow> False
       | Some q1 \<Rightarrow> \<not> prefix q1 (targetPropertyPath (sndMutation m))))"

section \<open>The contract\<close>

lemma MovementM_applicableE:
  assumes "MovementM_applicable L m ast"
  obtains ast1 where "DeletionM_applicable (fstMutation m) ast"
    "fromNodePath m = del_targetNodePath (fstMutation m)"
    "DeletionM_apply L (fstMutation m) ast = Inr ast1"
    "InsertionM_applicable (sndMutation m) ast1" "isASTNode (Some (newNode (sndMutation m)))"
    "canonical_path (targetPropertyPath (sndMutation m))"
  using assms by (auto simp: MovementM_applicable_def split: sum.splits)

context lodash_lib
begin

text \<open>The inserted node is found at the insertion location.\<close>

lemma InsertionM_new_node:
  assumes m: "InsertionM_applicable m ast" and ap: "InsertionM_apply L m ast = Inr ast'"
  shows "cwalk ast' (insertion_location m @ r) = cwalk (newNode m) r"
proof -
  let ?P = "targetPropertyPath m"
  from m obtain xs i where P: "?P \<noteq> []" and xs: "cwalk ast ?P = Some (JArr xs)"
    and i: "insertIndex m = Fin (int i)" "i \<le> length xs"
    by (rule InsertionM_applicableE)
  have "ast' = put ast ?P (JArr (take i xs @ newNode m # drop i xs))"
    using ap InsertionM_apply_eq [OF lodash_lib_axioms P xs i] by simp
  then show ?thesis
    using xs i cwalk_put_below [of ast ?P "JArr (take i xs @ newNode m # drop i xs)" "idx_key i # r"]
    by (simp add: insertion_location_def nth_append)
qed

text \<open>No path is carried onto the insertion location or below it.\<close>

lemma InsertionM_update_not_location:
  assumes "InsertionM_applicable m ast" and "canonical_path q"
  shows "InsertionM_updateASTPath m q \<noteq> insertion_location m"
proof -
  from assms(1) obtain i where i: "insertIndex m = Fin i" by (auto elim: InsertionM_applicableE)
  from assms(2) show ?thesis
    by (cases q rule: path_below_cases [where p = "targetPropertyPath m"])
      (auto simp: i insertion_location_def edit_simps strict_prefix_def prefix_def)
qed

lemma canonical_insertion_location:
  "canonical_path (targetPropertyPath m) \<Longrightarrow> insertIndex m = Fin i \<Longrightarrow>
   canonical_path (insertion_location m)"
  by (simp add: insertion_location_def)

lemma DeletionM_update_target: "DeletionM_updateASTPath L m ast (del_targetNodePath m) = None"
  by (simp add: DeletionM_updateASTPath_def Let_def)

lemma MovementM_keeps:
  assumes m: "MovementM_applicable L m ast" and ap: "MovementM_apply L m ast = Inr ast'"
    and sp: "MovementM_spared L m ast q" and x: "cwalk ast q = Some x"
  shows "\<exists>q'. MovementM_updateASTPath L m ast q = Some q' \<and> cwalk ast' q' = Some x"
proof -
  from m obtain ast1 where d: "DeletionM_applicable (fstMutation m) ast"
    "DeletionM_apply L (fstMutation m) ast = Inr ast1"
    and i: "InsertionM_applicable (sndMutation m) ast1"
    by (rule MovementM_applicableE)
  have ap2: "InsertionM_apply L (sndMutation m) ast1 = Inr ast'"
    using ap d by (auto simp: MovementM_apply_def)
  obtain q1 where q1: "DeletionM_updateASTPath L (fstMutation m) ast q = Some q1"
    "cwalk ast1 q1 = Some x"
    using deletion.keeps [OF d _ x] sp by (auto simp: MovementM_spared_def)
  with sp have "InsertionM_spared (sndMutation m) ast1 q1"
    by (simp add: MovementM_spared_def InsertionM_spared_def)
  from InsertionM_keeps [OF lodash_lib_axioms i ap2 this q1(2)] q1(1) show ?thesis
    by (simp add: MovementM_updateASTPath_def)
qed

lemma MovementM_alive:
  assumes m: "MovementM_applicable L m ast" and ap: "MovementM_apply L m ast = Inr ast'"
    and up: "MovementM_updateASTPath L m ast q = Some q'" and x: "isASTNode (cwalk ast q)"
  shows "isASTNode (cwalk ast' q')"
proof -
  from m obtain ast1 where d: "DeletionM_applicable (fstMutation m) ast"
    "DeletionM_apply L (fstMutation m) ast = Inr ast1"
    and i: "InsertionM_applicable (sndMutation m) ast1"
    and new: "isASTNode (Some (newNode (sndMutation m)))"
    by (rule MovementM_applicableE)
  have ap2: "InsertionM_apply L (sndMutation m) ast1 = Inr ast'"
    using ap d by (auto simp: MovementM_apply_def)
  show ?thesis
  proof (cases "DeletionM_updateASTPath L (fstMutation m) ast q")
    case None
    with up have "q' = insertion_location (sndMutation m) @ []"
      by (auto simp: MovementM_updateASTPath_def split: if_splits)
    with new show ?thesis
      using InsertionM_new_node [OF i ap2, of "[]"] by simp
  next
    case (Some q1)
    with up have "q' = InsertionM_updateASTPath (sndMutation m) q1"
      by (auto simp: MovementM_updateASTPath_def)
    with deletion.alive [OF d Some x] show ?thesis
      using InsertionM_alive [OF lodash_lib_axioms i ap2] by simp
  qed
qed

text \<open>The moved node itself is found at the insertion location, without its locations.\<close>

lemma MovementM_moved_path:
  assumes "fromNodePath m = del_targetNodePath (fstMutation m)"
  shows "MovementM_updateASTPath L m ast (fromNodePath m)
    = Some (insertion_location (sndMutation m))"
  using assms DeletionM_update_target [of "fstMutation m" ast]
  by (simp add: MovementM_updateASTPath_def equal_paths)

lemma MovementM_reverses:
  assumes m: "MovementM_applicable L m ast" and q: "canonical_path q"
    and up: "MovementM_updateASTPath L m ast q = Some q'"
  shows "MovementM_reverseUpdateASTPath L m ast q' = Some q"
proof -
  from m obtain ast1 where d: "DeletionM_applicable (fstMutation m) ast"
    and i: "InsertionM_applicable (sndMutation m) ast1"
    by (rule MovementM_applicableE)
  show ?thesis
  proof (cases "DeletionM_updateASTPath L (fstMutation m) ast q")
    case None
    with up show ?thesis
      by (auto simp: MovementM_updateASTPath_def MovementM_reverseUpdateASTPath_def equal_paths
          split: if_splits)
  next
    case (Some q1)
    note r = DeletionM_reverses [OF d q Some]
    have q': "q' = InsertionM_updateASTPath (sndMutation m) q1"
      using up Some by (simp add: MovementM_updateASTPath_def)
    with InsertionM_update_not_location [OF i r(2)] InsertionM_reverses(1) [OF i r(2)] r(1)
    show ?thesis by (simp add: MovementM_reverseUpdateASTPath_def equal_paths)
  qed
qed

lemma MovementM_canonical:
  assumes m: "MovementM_applicable L m ast" and q: "canonical_path q"
    and up: "MovementM_updateASTPath L m ast q = Some q'"
  shows "canonical_path q'"
proof -
  from m obtain ast1 where d: "DeletionM_applicable (fstMutation m) ast"
    and i: "InsertionM_applicable (sndMutation m) ast1"
    and p: "canonical_path (targetPropertyPath (sndMutation m))"
    by (rule MovementM_applicableE)
  from i obtain j where "insertIndex (sndMutation m) = Fin j" by (auto elim: InsertionM_applicableE)
  with p have loc: "canonical_path (insertion_location (sndMutation m))"
    by (rule canonical_insertion_location)
  show ?thesis
  proof (cases "DeletionM_updateASTPath L (fstMutation m) ast q")
    case None
    with up loc show ?thesis by (auto simp: MovementM_updateASTPath_def split: if_splits)
  next
    case (Some q1)
    with up show ?thesis
      using InsertionM_reverses(2) [OF i DeletionM_reverses(2) [OF d q Some]]
      by (simp add: MovementM_updateASTPath_def)
  qed
qed

end

sublocale lodash_lib \<subseteq> movement: tracked_edit "MovementM_applicable L" "MovementM_apply L"
  "MovementM_updateASTPath L" "MovementM_reverseUpdateASTPath L" "MovementM_spared L"
  by unfold_locales
    (fact MovementM_keeps MovementM_alive MovementM_reverses MovementM_canonical)+

section \<open>Movements built by the constructor\<close>

text \<open>A path that does not enter the attributes which the stripped copies drop: the tokens of
  the root, and ranges and locations everywhere.\<close>

definition loc_free :: "path \<Rightarrow> bool" where
  "loc_free p \<longleftrightarrow> list_all (\<lambda>k. k \<notin> {''range'', ''loc''}) p"

definition plain_path :: "path \<Rightarrow> bool" where
  "plain_path p \<longleftrightarrow> loc_free p \<and> (p \<noteq> [] \<longrightarrow> hd p \<noteq> ''tokens'')"

lemma loc_free_simps [simp]:
  "loc_free []" "loc_free (k # p) \<longleftrightarrow> k \<notin> {''range'', ''loc''} \<and> loc_free p"
  "loc_free (p @ q) \<longleftrightarrow> loc_free p \<and> loc_free q"
  by (auto simp: loc_free_def)

lemma plain_path_simps [simp]:
  "plain_path []" "plain_path (k # p) \<longleftrightarrow> k \<notin> {''range'', ''loc'', ''tokens''} \<and> loc_free p"
  by (auto simp: plain_path_def)

lemma plain_path_append: "p \<noteq> [] \<Longrightarrow> plain_path (p @ q) \<longleftrightarrow> plain_path p \<and> loc_free q"
  by (auto simp: plain_path_def)

lemma plain_path_butlast: "plain_path p \<Longrightarrow> plain_path (butlast p)"
  by (cases p rule: rev_cases) (auto simp: plain_path_def hd_append)

lemma child_remove_loc:
  "k \<notin> {''range'', ''loc''} \<Longrightarrow>
   child (ASTNodeRemoveLocDeep v) k = map_option ASTNodeRemoveLocDeep (child v k)"
  by (cases v) (auto simp: map_of_filter_key map_of_map_values split: option.splits)

lemma cwalk_remove_loc:
  "loc_free p \<Longrightarrow>
   cwalk (ASTNodeRemoveLocDeep v) p = map_option ASTNodeRemoveLocDeep (cwalk v p)"
  by (induction p arbitrary: v) (auto simp: child_remove_loc split: option.splits)

lemma child_remove_extra:
  "k \<noteq> ''tokens'' \<Longrightarrow>
   child (ASTNodeRemoveExtraAttributesDeep v) k = map_option ASTNodeRemoveLocDeep (child v k)"
  by (cases v) (auto simp: ASTNodeRemoveExtraAttributesDeep_def map_of_filter_key
      map_of_map_values split: option.splits)

lemma cwalk_remove_extra:
  "plain_path p \<Longrightarrow> p \<noteq> [] \<Longrightarrow>
   cwalk (ASTNodeRemoveExtraAttributesDeep v) p = map_option ASTNodeRemoveLocDeep (cwalk v p)"
  by (cases p) (auto simp: child_remove_extra cwalk_remove_loc split: option.splits)

lemma remove_loc_container [simp]: "is_container (ASTNodeRemoveLocDeep v) = is_container v"
  by (cases v) auto

lemma remove_loc_is_array [simp]: "is_array (ASTNodeRemoveLocDeep v) = is_array v"
  by (cases v) auto

lemma remove_extra_idem [simp]:
  "ASTNodeRemoveExtraAttributesDeep (ASTNodeRemoveExtraAttributesDeep v)
   = ASTNodeRemoveExtraAttributesDeep v"
  by (cases v) (auto simp: ASTNodeRemoveExtraAttributesDeep_def filter_map comp_def
      case_prod_unfold)

lemma new_MovementM_fields:
  assumes "new_MovementM L ast from to index = Inr m"
  obtains node newTarget where
    "getASTNodeFromPath L (ASTNodeRemoveExtraAttributesDeep ast) from = Some node"
    "DeletionM_updateASTPath L \<lparr>del_targetNodePath = from\<rparr> (ASTNodeRemoveExtraAttributesDeep ast)
       (to @ [js_toString index]) = Some newTarget"
    "\<not> lequal L from (butlast newTarget)"
    "m = \<lparr>mov_ast = ASTNodeRemoveExtraAttributesDeep ast, fromNodePath = from,
       toPropertyPath = to, mov_insertIndex = index,
       fstMutation = \<lparr>del_targetNodePath = from\<rparr>,
       sndMutation = \<lparr>targetPropertyPath = butlast newTarget,
         insertIndex = parseInt_last newTarget, newNode = ASTNodeRemoveLocDeep node\<rparr>\<rparr>"
  using assms by (auto simp: new_MovementM_def Let_def split: option.splits)

context lodash_lib
begin

text \<open>The assertion of \<open>apply\<close> lets the AST through for which the movement was built.\<close>

lemma MovementM_accepts_own_ast:
  "new_MovementM L ast from to index = Inr m \<Longrightarrow> wf_val ast \<Longrightarrow> functional_equal L ast (mov_ast m)"
  by (elim new_MovementM_fields)
    (simp add: functional_equal_iff same_program_remove_extra)

lemma MovementM_runs:
  assumes "new_MovementM L ast from to index = Inr m" and "wf_val ast"
    and "MovementM_applicable L m ast"
  obtains ast1 ast' where "DeletionM_apply L (fstMutation m) ast = Inr ast1"
    "InsertionM_applicable (sndMutation m) ast1"
    "InsertionM_apply L (sndMutation m) ast1 = Inr ast'" "MovementM_apply L m ast = Inr ast'"
proof -
  from assms(3) obtain ast1 where a: "DeletionM_apply L (fstMutation m) ast = Inr ast1"
    "InsertionM_applicable (sndMutation m) ast1" by (rule MovementM_applicableE)
  from a(2) obtain xs i where i: "targetPropertyPath (sndMutation m) \<noteq> []"
    "cwalk ast1 (targetPropertyPath (sndMutation m)) = Some (JArr xs)"
    "insertIndex (sndMutation m) = Fin (int i)" "i \<le> length xs" by (rule InsertionM_applicableE)
  from InsertionM_apply_eq [OF lodash_lib_axioms i] obtain ast' where
    ast': "InsertionM_apply L (sndMutation m) ast1 = Inr ast'" by blast
  with a MovementM_accepts_own_ast [OF assms(1,2)] have "MovementM_apply L m ast = Inr ast'"
    by (simp add: MovementM_apply_def)
  with a ast' that show thesis by blast
qed

lemma new_MovementM_node:
  assumes "new_MovementM L ast from to index = Inr m" and "plain_path from" and "from \<noteq> []"
    and "cwalk ast from = Some node" and "is_container node"
  shows "newNode (sndMutation m) = ASTNodeRemoveLocDeep node"
proof -
  have "cwalk (ASTNodeRemoveExtraAttributesDeep ast) from = Some (ASTNodeRemoveLocDeep node)"
    using assms by (simp add: cwalk_remove_extra)
  then have "getASTNodeFromPath L (ASTNodeRemoveExtraAttributesDeep ast) from
      = Some (ASTNodeRemoveLocDeep node)"
    using assms(3,5) by (simp add: getASTNodeFromPath_def get_container)
  with assms(1) show ?thesis by (auto elim: new_MovementM_fields)
qed

text \<open>The paths of the stripped copy are those of the AST.\<close>

lemma DeletionM_paths_stripped:
  assumes "plain_path (del_targetNodePath d)" and "length (del_targetNodePath d) \<ge> 2"
  shows "DeletionM_updateASTPath L d (ASTNodeRemoveExtraAttributesDeep ast) q
      = DeletionM_updateASTPath L d ast q"
    and "DeletionM_reverseUpdateASTPath L d (ASTNodeRemoveExtraAttributesDeep ast) q
      = DeletionM_reverseUpdateASTPath L d ast q"
proof -
  let ?p = "butlast (del_targetNodePath d)"
  have p: "plain_path ?p" "?p \<noteq> []"
    using plain_path_butlast [OF assms(1)] assms(2) by (cases "del_targetNodePath d" rule: rev_cases; auto)+
  have arr: "(\<exists>xs. getASTNodeFromPath L a ?p = Some (JArr xs))
      = (\<exists>v. cwalk a ?p = Some v \<and> is_array v)" for a
    using p(2) get_container [of ?p "JArr xs" a for xs]
    by (auto simp: getASTNodeFromPath_def is_array_iff)
  have "(\<exists>v. cwalk (ASTNodeRemoveExtraAttributesDeep ast) ?p = Some v \<and> is_array v)
      = (\<exists>v. cwalk ast ?p = Some v \<and> is_array v)"
    using p by (auto simp: cwalk_remove_extra)
  then have eq: "(\<exists>xs. getASTNodeFromPath L (ASTNodeRemoveExtraAttributesDeep ast) ?p = Some (JArr xs))
      = (\<exists>xs. getASTNodeFromPath L ast ?p = Some (JArr xs))"
    unfolding arr .
  show "DeletionM_updateASTPath L d (ASTNodeRemoveExtraAttributesDeep ast) q
      = DeletionM_updateASTPath L d ast q"
    and "DeletionM_reverseUpdateASTPath L d (ASTNodeRemoveExtraAttributesDeep ast) q
      = DeletionM_reverseUpdateASTPath L d ast q"
    using eq
    by (auto simp: DeletionM_updateASTPath_def DeletionM_reverseUpdateASTPath_def Let_def
        split: option.splits jsval.splits)
qed

end

interpretation movement_reference: tracked_edit "MovementM_applicable lodash_ref"
  "MovementM_apply lodash_ref" "MovementM_updateASTPath lodash_ref"
  "MovementM_reverseUpdateASTPath lodash_ref" "MovementM_spared lodash_ref"
  by (rule lodash_reference.movement.tracked_edit_axioms)

end
