(* ===== verification/ReplacementM.thy ===== *)
theory ReplacementM
  imports TrackedEdit
begin

text \<open>
  The mutation \<open>ReplacementM\<close> (\<open>lib/Mutations/ReplacementM.ts\<close>): the node at a path is
  replaced by a copy of another node; paths strictly below the replaced node become
  invalid, all others stay as they are.
\<close>

record replacementM =
  rep_targetNodePath :: path
  rep_newNode :: jsval

definition ReplacementM_transformNodeFunc :: "jsval option \<Rightarrow> jsval \<Rightarrow> jsval result" where
  "ReplacementM_transformNodeFunc oriNode nd =
     bind_result (js_assert (isASTNode oriNode)) (\<lambda>_. Inr nd)"

definition ReplacementM_apply :: "lodash \<Rightarrow> replacementM \<Rightarrow> jsval \<Rightarrow> jsval result" where
  "ReplacementM_apply L m ast =
     lupdate L ast (rep_targetNodePath m)
       (\<lambda>oriTargetNode. ReplacementM_transformNodeFunc oriTargetNode (rep_newNode m))"

definition ReplacementM_updateASTPath :: "replacementM \<Rightarrow> path \<Rightarrow> path option" where
  "ReplacementM_updateASTPath m path =
     (if arrStartsWithArr path (rep_targetNodePath m)
         \<and> length path \<noteq> length (rep_targetNodePath m)
      then None else Some path)"

definition ReplacementM_reverseUpdateASTPath :: "replacementM \<Rightarrow> path \<Rightarrow> path option" where
  "ReplacementM_reverseUpdateASTPath m path = ReplacementM_updateASTPath m path"

definition ReplacementM_modifiedNodePath :: "replacementM \<Rightarrow> path list" where
  "ReplacementM_modifiedNodePath m = [rep_targetNodePath m]"

definition ReplacementM_applicable :: "replacementM \<Rightarrow> jsval \<Rightarrow> bool" where
  "ReplacementM_applicable m ast =
     (rep_targetNodePath m \<noteq> [] \<and> isASTNode (cwalk ast (rep_targetNodePath m))
       \<and> isASTNode (Some (rep_newNode m)))"

definition ReplacementM_spared :: "replacementM \<Rightarrow> jsval \<Rightarrow> path \<Rightarrow> bool" where
  "ReplacementM_spared m ast q =
     (\<not> prefix (rep_targetNodePath m) q \<and> \<not> prefix q (rep_targetNodePath m))"

context lodash_lib
begin

lemma ReplacementM_apply_eq [edit_simps]:
  assumes "ReplacementM_applicable m ast"
  shows "ReplacementM_apply L m ast = Inr (put ast (rep_targetNodePath m) (rep_newNode m))"
proof -
  obtain x where x: "cwalk ast (rep_targetNodePath m) = Some x" "isASTNode (Some x)"
    using assms by (cases "cwalk ast (rep_targetNodePath m)") (auto simp: ReplacementM_applicable_def)
  then have "walk ast (rep_targetNodePath m) = Some x" by (auto intro: cwalk_walk)
  with x assms show ?thesis
    by (simp add: ReplacementM_apply_def ReplacementM_transformNodeFunc_def
        ReplacementM_applicable_def update_path set_path)
qed

text \<open>A replacement of something that is not a node throws, whatever is put in its place.\<close>

lemma ReplacementM_apply_not_node:
  assumes "rep_targetNodePath m \<noteq> []" and "\<not> isASTNode (walk ast (rep_targetNodePath m))"
  shows "ReplacementM_apply L m ast = Inl AssertionError"
  using assms by (simp add: ReplacementM_apply_def ReplacementM_transformNodeFunc_def update_path)

lemma ReplacementM_keeps:
  assumes "ReplacementM_applicable m ast" "ReplacementM_apply L m ast = Inr ast'"
    and "ReplacementM_spared m ast q" "cwalk ast q = Some x"
  shows "\<exists>q'. ReplacementM_updateASTPath m q = Some q' \<and> cwalk ast' q' = Some x"
  using assms
  by (auto simp: edit_simps ReplacementM_spared_def ReplacementM_updateASTPath_def cwalk_put_other)

lemma ReplacementM_alive:
  assumes m: "ReplacementM_applicable m ast" and ap: "ReplacementM_apply L m ast = Inr ast'"
    and up: "ReplacementM_updateASTPath m q = Some q'" and x: "isASTNode (cwalk ast q)"
  shows "isASTNode (cwalk ast' q')"
proof -
  let ?T = "rep_targetNodePath m"
  from m obtain y where T: "cwalk ast ?T = Some y" "isASTNode (Some (rep_newNode m))"
    by (cases "cwalk ast ?T") (auto simp: ReplacementM_applicable_def)
  have ast': "ast' = put ast ?T (rep_newNode m)" and q': "q' = q"
    using m ap up by (auto simp: edit_simps ReplacementM_updateASTPath_def split: if_splits)
  have "\<not> strict_prefix ?T q"
    using up by (auto simp: ReplacementM_updateASTPath_def strict_prefix_def prefix_def
        split: if_splits)
  then consider "q = ?T" | "strict_prefix q ?T" | "\<not> prefix ?T q" "\<not> prefix q ?T"
    by (auto simp: strict_prefix_def)
  then show ?thesis
  proof cases
    case 1
    with T ast' q' show ?thesis using cwalk_put_below [of ast ?T _ "[]"] by simp
  next
    case 2
    with T ast' q' x show ?thesis by (auto intro: isASTNode_put_above)
  next
    case 3
    with ast' q' x show ?thesis by (simp add: cwalk_put_other)
  qed
qed

end

sublocale lodash_lib \<subseteq> replacement: tracked_edit ReplacementM_applicable "ReplacementM_apply L"
  "\<lambda>m ast. ReplacementM_updateASTPath m" "\<lambda>m ast. ReplacementM_reverseUpdateASTPath m"
  ReplacementM_spared
proof unfold_locales
  show "ReplacementM_reverseUpdateASTPath m q' = Some q" and "canonical_path q'"
    if "canonical_path q" "ReplacementM_updateASTPath m q = Some q'" for m q q'
    using that
    by (auto simp: ReplacementM_reverseUpdateASTPath_def ReplacementM_updateASTPath_def
        split: if_splits)
qed (fact ReplacementM_keeps ReplacementM_alive)+

interpretation replacement_reference: tracked_edit ReplacementM_applicable
  "ReplacementM_apply lodash_ref" "\<lambda>m ast. ReplacementM_updateASTPath m"
  "\<lambda>m ast. ReplacementM_reverseUpdateASTPath m" ReplacementM_spared
  by (rule lodash_reference.replacement.tracked_edit_axioms)

end
