(* ===== verification/Mutations.thy ===== *)
theory Mutations
  imports MovementM ReplacementM
begin

text \<open>
  The four mutations as one type, with the dispatch that the abstract class \<open>Mutation\<close>
  (\<open>lib/Mutations/Mutation.ts\<close>) gives them. The type as a whole meets the contract
  \<open>tracked_edit\<close>. Their JSON forms are in \<open>MutationJson\<close>.
\<close>

datatype mutation =
    Insertion insertionM
  | Replacement replacementM
  | Deletion deletionM
  | Movement movementM

text \<open>\<open>mutationType\<close> is the name of the class; \<open>allMutationTypes\<close> lists the four.\<close>

fun mutationType :: "mutation \<Rightarrow> string" where
  "mutationType (Insertion m) = ''InsertionM''"
| "mutationType (Replacement m) = ''ReplacementM''"
| "mutationType (Deletion m) = ''DeletionM''"
| "mutationType (Movement m) = ''MovementM''"

definition allMutationTypes :: "string list" where
  "allMutationTypes = [''InsertionM'', ''ReplacementM'', ''DeletionM'', ''MovementM'']"

text \<open>The field \<open>targetNodePath\<close> that each constructor hands to the base class.\<close>

fun targetNodePath :: "mutation \<Rightarrow> path" where
  "targetNodePath (Insertion m) = InsertionM_targetNodePath m"
| "targetNodePath (Replacement m) = rep_targetNodePath m"
| "targetNodePath (Deletion m) = del_targetNodePath m"
| "targetNodePath (Movement m) = fromNodePath m"

fun apply_mutation :: "lodash \<Rightarrow> mutation \<Rightarrow> jsval \<Rightarrow> jsval result" where
  "apply_mutation L (Insertion m) = InsertionM_apply L m"
| "apply_mutation L (Replacement m) = ReplacementM_apply L m"
| "apply_mutation L (Deletion m) = DeletionM_apply L m"
| "apply_mutation L (Movement m) = MovementM_apply L m"

fun updateASTPath :: "lodash \<Rightarrow> mutation \<Rightarrow> jsval \<Rightarrow> path \<Rightarrow> path option" where
  "updateASTPath L (Insertion m) ast path = Some (InsertionM_updateASTPath m path)"
| "updateASTPath L (Replacement m) ast path = ReplacementM_updateASTPath m path"
| "updateASTPath L (Deletion m) ast path = DeletionM_updateASTPath L m ast path"
| "updateASTPath L (Movement m) ast path = MovementM_updateASTPath L m ast path"

fun reverseUpdateASTPath :: "lodash \<Rightarrow> mutation \<Rightarrow> jsval \<Rightarrow> path \<Rightarrow> path option" where
  "reverseUpdateASTPath L (Insertion m) ast path = Some (InsertionM_reverseUpdateASTPath m path)"
| "reverseUpdateASTPath L (Replacement m) ast path = ReplacementM_reverseUpdateASTPath m path"
| "reverseUpdateASTPath L (Deletion m) ast path = DeletionM_reverseUpdateASTPath L m ast path"
| "reverseUpdateASTPath L (Movement m) ast path = MovementM_reverseUpdateASTPath L m ast path"

fun modifiedNodePath :: "lodash \<Rightarrow> mutation \<Rightarrow> jsval \<Rightarrow> path list result" where
  "modifiedNodePath L (Insertion m) ast = Inr (InsertionM_modifiedNodePath m)"
| "modifiedNodePath L (Replacement m) ast = Inr (ReplacementM_modifiedNodePath m)"
| "modifiedNodePath L (Deletion m) ast = Inr (DeletionM_modifiedNodePath m)"
| "modifiedNodePath L (Movement m) ast = MovementM_modifiedNodePath L m ast"

text \<open>When a mutation fits an AST, and which values it leaves alone.\<close>

fun applicable :: "lodash \<Rightarrow> mutation \<Rightarrow> jsval \<Rightarrow> bool" where
  "applicable L (Insertion m) ast = InsertionM_applicable m ast"
| "applicable L (Replacement m) ast = ReplacementM_applicable m ast"
| "applicable L (Deletion m) ast = DeletionM_applicable m ast"
| "applicable L (Movement m) ast = MovementM_applicable L m ast"

fun spared :: "lodash \<Rightarrow> mutation \<Rightarrow> jsval \<Rightarrow> path \<Rightarrow> bool" where
  "spared L (Insertion m) ast q = InsertionM_spared m ast q"
| "spared L (Replacement m) ast q = ReplacementM_spared m ast q"
| "spared L (Deletion m) ast q = DeletionM_spared m ast q"
| "spared L (Movement m) ast q = MovementM_spared L m ast q"

context lodash_lib
begin

lemma mutation_keeps:
  "applicable L m ast \<Longrightarrow> apply_mutation L m ast = Inr ast' \<Longrightarrow> spared L m ast q \<Longrightarrow>
   cwalk ast q = Some x \<Longrightarrow> \<exists>q'. updateASTPath L m ast q = Some q' \<and> cwalk ast' q' = Some x"
  by (cases m)
    (auto dest: insertion.keeps deletion.keeps replacement.keeps movement.keeps)

lemma mutation_alive:
  "applicable L m ast \<Longrightarrow> apply_mutation L m ast = Inr ast' \<Longrightarrow>
   updateASTPath L m ast q = Some q' \<Longrightarrow> isASTNode (cwalk ast q) \<Longrightarrow> isASTNode (cwalk ast' q')"
  by (cases m)
    (auto dest: insertion.alive deletion.alive replacement.alive movement.alive)

lemma mutation_reverses:
  "applicable L m ast \<Longrightarrow> canonical_path q \<Longrightarrow> updateASTPath L m ast q = Some q' \<Longrightarrow>
   reverseUpdateASTPath L m ast q' = Some q"
  by (cases m)
    (auto dest: insertion.reverses deletion.reverses replacement.reverses movement.reverses)

lemma mutation_canonical:
  "applicable L m ast \<Longrightarrow> canonical_path q \<Longrightarrow> updateASTPath L m ast q = Some q' \<Longrightarrow>
   canonical_path q'"
  by (cases m)
    (auto dest: insertion.canonical deletion.canonical replacement.canonical movement.canonical)

end

sublocale lodash_lib \<subseteq> mutation: tracked_edit "applicable L" "apply_mutation L"
  "updateASTPath L" "reverseUpdateASTPath L" "spared L"
  by unfold_locales
    (fact mutation_keeps mutation_alive mutation_reverses mutation_canonical)+

interpretation mutation_reference: tracked_edit "applicable lodash_ref"
  "apply_mutation lodash_ref" "updateASTPath lodash_ref" "reverseUpdateASTPath lodash_ref"
  "spared lodash_ref"
  by (rule lodash_reference.mutation.tracked_edit_axioms)

end
