(* ===== verification/MutationSequence.thy ===== *)
theory MutationSequence
  imports Mutations
begin

text \<open>
  \<open>MutationSequence\<close> (\<open>lib/MutationSequence.ts\<close>), an array of mutations applied one after
  the other, each to the AST the earlier ones produced; the carrying of paths across a
  whole sequence, forwards and backwards; \<open>rebasePath\<close> and the \<open>rebase\<close> methods of the
  mutations, which move a mutation from the end of one sequence to the end of another.
\<close>

section \<open>Reducing over a sequence\<close>

text \<open>
  The reductions are stated for any kind of edit. \<open>prevASTs[idx]\<close>, the AST before the
  edit at \<open>idx\<close>, is the head of the remaining list; past its end it is undefined, in
  which every read is undefined, as in null.
\<close>

fun first_ast :: "jsval list \<Rightarrow> jsval" where
  "first_ast [] = JNull"
| "first_ast (a # asts) = a"

fun reduce_path ::
  "('m \<Rightarrow> jsval \<Rightarrow> path \<Rightarrow> path option) \<Rightarrow> jsval list \<Rightarrow> 'm list \<Rightarrow> path option \<Rightarrow> path option" where
  "reduce_path upd prevASTs [] currPath = currPath"
| "reduce_path upd prevASTs (m # ms) currPath =
     reduce_path upd (tl prevASTs) ms
       (case currPath of None \<Rightarrow> None | Some p \<Rightarrow> upd m (first_ast prevASTs) p)"

fun reduceRight_path ::
  "('m \<Rightarrow> jsval \<Rightarrow> path \<Rightarrow> path option) \<Rightarrow> jsval list \<Rightarrow> 'm list \<Rightarrow> path option \<Rightarrow> path option" where
  "reduceRight_path rev_upd prevASTs [] currPath = currPath"
| "reduceRight_path rev_upd prevASTs (m # ms) currPath =
     (case reduceRight_path rev_upd (tl prevASTs) ms currPath of
        None \<Rightarrow> None
      | Some p \<Rightarrow> rev_upd m (first_ast prevASTs) p)"

text \<open>\<open>reduce((asts, m, idx) => [...asts, m applied to asts[idx]], [ast])\<close>\<close>

fun reduce_asts :: "('m \<Rightarrow> jsval \<Rightarrow> jsval result) \<Rightarrow> 'm list \<Rightarrow> jsval \<Rightarrow> jsval list result" where
  "reduce_asts app [] ast = Inr [ast]"
| "reduce_asts app (m # ms) ast =
     bind_result (app m ast) (\<lambda>ast'.
     bind_result (reduce_asts app ms ast') (\<lambda>asts. Inr (ast # asts)))"

fun apply_all :: "('m \<Rightarrow> jsval \<Rightarrow> jsval result) \<Rightarrow> 'm list \<Rightarrow> jsval \<Rightarrow> jsval result" where
  "apply_all app [] ast = Inr ast"
| "apply_all app (m # ms) ast = bind_result (app m ast) (apply_all app ms)"

text \<open>Every edit of the sequence fits the AST it is applied to.\<close>

fun all_applicable ::
  "('m \<Rightarrow> jsval \<Rightarrow> bool) \<Rightarrow> ('m \<Rightarrow> jsval \<Rightarrow> jsval result) \<Rightarrow> 'm list \<Rightarrow> jsval \<Rightarrow> bool" where
  "all_applicable fits app [] ast = True"
| "all_applicable fits app (m # ms) ast =
     (fits m ast \<and>
      (case app m ast of Inl _ \<Rightarrow> False | Inr ast' \<Rightarrow> all_applicable fits app ms ast'))"

text \<open>The path avoids every edit of the sequence.\<close>

fun all_spared ::
  "('m \<Rightarrow> jsval \<Rightarrow> path \<Rightarrow> bool) \<Rightarrow> ('m \<Rightarrow> jsval \<Rightarrow> jsval result) \<Rightarrow>
   ('m \<Rightarrow> jsval \<Rightarrow> path \<Rightarrow> path option) \<Rightarrow> 'm list \<Rightarrow> jsval \<Rightarrow> path \<Rightarrow> bool" where
  "all_spared sp app upd [] ast q = True"
| "all_spared sp app upd (m # ms) ast q =
     (sp m ast q \<and>
      (case (app m ast, upd m ast q) of
         (Inr ast', Some q') \<Rightarrow> all_spared sp app upd ms ast' q'
       | _ \<Rightarrow> False))"

lemma reduce_path_None [simp]: "reduce_path upd asts ms None = None"
  by (induction ms arbitrary: asts) auto

lemma reduce_asts_apply_all:
  "reduce_asts app ms ast = Inr asts \<Longrightarrow>
   length asts = Suc (length ms) \<and> hd asts = ast \<and> apply_all app ms ast = Inr (last asts)"
proof (induction ms arbitrary: ast asts)
  case (Cons m ms)
  then obtain ast' as where "app m ast = Inr ast'" "reduce_asts app ms ast' = Inr as"
    "asts = ast # as" by auto
  with Cons.IH [of ast' as] show ?case by (cases as) auto
qed auto

lemma apply_all_append:
  "apply_all app (ms @ ns) ast = bind_result (apply_all app ms ast) (apply_all app ns)"
  by (induction ms arbitrary: ast) (auto split: sum.splits, metis bind_result.simps sumE)

context tracked_edit
begin

lemma seq_alive:
  "all_applicable applicable apply_edit ms ast \<Longrightarrow> reduce_asts apply_edit ms ast = Inr asts \<Longrightarrow>
   reduce_path update_path asts ms (Some q) = Some q' \<Longrightarrow> isASTNode (cwalk ast q) \<Longrightarrow>
   isASTNode (cwalk (last asts) q')"
proof (induction ms arbitrary: ast asts q)
  case (Cons m ms)
  then obtain ast' as where ap: "apply_edit m ast = Inr ast'"
    and as: "reduce_asts apply_edit ms ast' = Inr as" "asts = ast # as" by auto
  from as have "as \<noteq> []" using reduce_asts_apply_all [OF as(1)] by auto
  from Cons.prems as obtain q1 where q1: "update_path m ast q = Some q1"
    by (cases "update_path m ast q") auto
  have "isASTNode (cwalk ast' q1)"
    using Cons.prems(1,4) ap q1 by (auto intro: alive)
  with Cons ap as q1 \<open>as \<noteq> []\<close> show ?case by (auto split: sum.splits)
qed auto

lemma seq_keeps:
  "all_applicable applicable apply_edit ms ast \<Longrightarrow> reduce_asts apply_edit ms ast = Inr asts \<Longrightarrow>
   all_spared spared apply_edit update_path ms ast q \<Longrightarrow> cwalk ast q = Some x \<Longrightarrow>
   \<exists>q'. reduce_path update_path asts ms (Some q) = Some q' \<and> cwalk (last asts) q' = Some x"
proof (induction ms arbitrary: ast asts q)
  case (Cons m ms)
  then obtain ast' as where ap: "apply_edit m ast = Inr ast'"
    and as: "reduce_asts apply_edit ms ast' = Inr as" "asts = ast # as" by auto
  from as have "as \<noteq> []" using reduce_asts_apply_all [OF as(1)] by auto
  from Cons.prems ap obtain q1 where q1: "update_path m ast q = Some q1" "cwalk ast' q1 = Some x"
    using keeps [of m ast ast' q x] by auto
  with Cons.prems ap as \<open>as \<noteq> []\<close> show ?case
    using Cons.IH [OF _ as(1) _ q1(2)] by auto
qed auto

lemma seq_reverses:
  "all_applicable applicable apply_edit ms ast \<Longrightarrow> reduce_asts apply_edit ms ast = Inr asts \<Longrightarrow>
   canonical_path q \<Longrightarrow> reduce_path update_path asts ms (Some q) = Some q' \<Longrightarrow>
   reduceRight_path reverse_path asts ms (Some q') = Some q \<and> canonical_path q'"
proof (induction ms arbitrary: ast asts q)
  case (Cons m ms)
  then obtain ast' as where ap: "apply_edit m ast = Inr ast'"
    and as: "reduce_asts apply_edit ms ast' = Inr as" "asts = ast # as" by auto
  from Cons.prems as obtain q1 where q1: "update_path m ast q = Some q1"
    by (cases "update_path m ast q") auto
  with Cons.prems have "reverse_path m ast q1 = Some q" "canonical_path q1"
    by (auto intro: reverses canonical)
  with Cons ap as q1 show ?case by (auto split: sum.splits)
qed auto

end

section \<open>Mutation sequences\<close>

type_synonym mutationSequence = "mutation list"

definition updatePath ::
  "lodash \<Rightarrow> mutationSequence \<Rightarrow> jsval list \<Rightarrow> path list \<Rightarrow> path option list" where
  "updatePath L ms prevASTs paths =
     map (\<lambda>p. reduce_path (updateASTPath L) prevASTs ms (Some p)) paths"

definition reverseUpdatePath ::
  "lodash \<Rightarrow> mutationSequence \<Rightarrow> jsval list \<Rightarrow> path list \<Rightarrow> path option list" where
  "reverseUpdatePath L ms prevASTs paths =
     map (\<lambda>p. reduceRight_path (reverseUpdateASTPath L) prevASTs ms (Some p)) paths"

text \<open>\<open>this.slice(0, -1).reduce(...)\<close> from the original AST: the ASTs before each mutation.\<close>

definition updatePath_oriAST ::
  "lodash \<Rightarrow> mutationSequence \<Rightarrow> jsval \<Rightarrow> path list \<Rightarrow> path option list result" where
  "updatePath_oriAST L ms oriAST paths =
     bind_result (reduce_asts (apply_mutation L) (butlast ms) oriAST)
       (\<lambda>prevASTs. Inr (updatePath L ms prevASTs paths))"

definition reverseUpdatePath_oriAST ::
  "lodash \<Rightarrow> mutationSequence \<Rightarrow> jsval \<Rightarrow> path list \<Rightarrow> path option list result" where
  "reverseUpdatePath_oriAST L ms oriAST paths =
     bind_result (reduce_asts (apply_mutation L) (butlast ms) oriAST)
       (\<lambda>prevASTs. Inr (reverseUpdatePath L ms prevASTs paths))"

definition rebasePath ::
  "lodash \<Rightarrow> path \<Rightarrow> jsval \<Rightarrow> mutationSequence \<Rightarrow> jsval list \<Rightarrow> mutationSequence \<Rightarrow> jsval list \<Rightarrow>
   path option" where
  "rebasePath L p oriAST fromMutationSequence beforeMutationASTs
     afterMutationSequence afterMutationASTs =
     (case hd (reverseUpdatePath L fromMutationSequence beforeMutationASTs [p]) of
        None \<Rightarrow> None
      | Some path_oriAST \<Rightarrow>
          hd (updatePath L afterMutationSequence (oriAST # afterMutationASTs) [path_oriAST]))"

subsection \<open>\<open>mutateAST\<close>\<close>

text \<open>
  \<open>mutateAST\<close> applies the sequence to a clone of the AST. Its optional visitor is called
  before the first mutation and after each one, with the mutation just applied and the
  next one; it works on captured variables (the state \<open>'s\<close>) and stops the loop by
  answering false.
\<close>

type_synonym 's ast_visitor =
  "jsval \<Rightarrow> mutation option \<Rightarrow> mutation option \<Rightarrow> int \<Rightarrow> 's \<Rightarrow> ('s \<times> bool) result"

fun mutation_at_0 :: "mutationSequence \<Rightarrow> mutation option" where
  "mutation_at_0 [] = None"
| "mutation_at_0 (m # ms) = Some m"

fun mutateAST_loop ::
  "lodash \<Rightarrow> 's ast_visitor \<Rightarrow> mutationSequence \<Rightarrow> int \<Rightarrow> jsval \<Rightarrow> 's \<Rightarrow> (jsval \<times> 's) result" where
  "mutateAST_loop L vis [] i ast s = Inr (ast, s)"
| "mutateAST_loop L vis (m # ms) i ast s =
     bind_result (apply_mutation L m ast) (\<lambda>ast'.
     bind_result (vis ast' (Some m) (mutation_at_0 ms) i s) (\<lambda>(s', go).
       if go then mutateAST_loop L vis ms (i + 1) ast' s' else Inr (ast', s')))"

definition mutateAST_visit ::
  "lodash \<Rightarrow> 's ast_visitor \<Rightarrow> mutationSequence \<Rightarrow> jsval \<Rightarrow> 's \<Rightarrow> (jsval \<times> 's) result" where
  "mutateAST_visit L vis ms ast s =
     bind_result (vis ast None (mutation_at_0 ms) (-1) s) (\<lambda>(s', go).
       if go then mutateAST_loop L vis ms 0 ast s' else Inr (ast, s'))"

text \<open>Without a visitor.\<close>

definition mutateAST :: "lodash \<Rightarrow> mutationSequence \<Rightarrow> jsval \<Rightarrow> jsval result" where
  "mutateAST L ms ast = apply_all (apply_mutation L) ms ast"

subsection \<open>The nodes a sequence modifies\<close>

fun all_updated :: "lodash \<Rightarrow> mutation \<Rightarrow> jsval \<Rightarrow> path list \<Rightarrow> path list" where
  "all_updated L m ast [] = []"
| "all_updated L m ast (p # ps) =
     (case updateASTPath L m ast p of
        None \<Rightarrow> all_updated L m ast ps
      | Some p' \<Rightarrow> p' # all_updated L m ast ps)"

definition modifiedNodePaths_visitor :: "lodash \<Rightarrow> path list ast_visitor" where
  "modifiedNodePaths_visitor L ast justApplied nextMutation idx ret =
     (case nextMutation of
        None \<Rightarrow> Inr (ret, True)
      | Some m \<Rightarrow>
          bind_result (modifiedNodePath L m ast) (\<lambda>new.
            Inr (all_updated L m ast ret @ new, True)))"

definition modifiedNodePaths :: "lodash \<Rightarrow> mutationSequence \<Rightarrow> jsval \<Rightarrow> path list result" where
  "modifiedNodePaths L ms originalAST =
     bind_result (mutateAST_visit L (modifiedNodePaths_visitor L) ms originalAST [])
       (\<lambda>(_, ret). Inr ret)"

section \<open>Sequences on their own ASTs\<close>

text \<open>Every mutation of the sequence fits the AST it is applied to; the path avoids all of
  them.\<close>

definition seq_applicable :: "lodash \<Rightarrow> mutationSequence \<Rightarrow> jsval \<Rightarrow> bool" where
  "seq_applicable L ms ast = all_applicable (applicable L) (apply_mutation L) ms ast"

definition seq_spared :: "lodash \<Rightarrow> mutationSequence \<Rightarrow> jsval \<Rightarrow> path \<Rightarrow> bool" where
  "seq_spared L ms ast q = all_spared (spared L) (apply_mutation L) (updateASTPath L) ms ast q"

lemma seq_applicable_runs:
  "all_applicable fits app ms ast \<Longrightarrow> \<exists>asts. reduce_asts app ms ast = Inr asts"
  by (induction ms arbitrary: ast) (fastforce split: sum.splits)+

lemma reduce_asts_snoc:
  "reduce_asts app (ms @ [m]) ast = Inr asts \<Longrightarrow>
   reduce_asts app ms ast = Inr (butlast asts) \<and> app m (last (butlast asts)) = Inr (last asts)"
proof (induction ms arbitrary: ast asts)
  case (Cons k ms)
  then obtain ast' as where as: "app k ast = Inr ast'" "reduce_asts app (ms @ [m]) ast' = Inr as"
    "asts = ast # as" by auto
  from Cons.IH [OF as(2)] have "butlast as \<noteq> []"
    using reduce_asts_apply_all [of app ms ast' "butlast as"] by (metis list.size(3) nat.distinct(1))
  with Cons.IH [OF as(2)] as show ?case by auto
qed auto

lemma reduce_asts_butlast:
  "reduce_asts app ms ast = Inr asts \<Longrightarrow>
   reduce_asts app (butlast ms) ast = Inr (if ms = [] then asts else butlast asts)"
  using reduce_asts_snoc [of app "butlast ms" "last ms" ast asts]
  by (cases "ms = []") auto

lemma first_ast_take: "0 < n \<Longrightarrow> first_ast (take n asts) = first_ast asts"
  by (cases asts; cases n) auto

lemma reduce_path_take:
  "length ms \<le> n \<Longrightarrow> reduce_path upd (take n asts) ms q = reduce_path upd asts ms q"
proof (induction ms arbitrary: asts n q)
  case (Cons m ms)
  then obtain k where "n = Suc k" "length ms \<le> k" by (cases n) auto
  with Cons.IH [of k "tl asts"] show ?case by (cases asts) (auto split: option.split)
qed simp

lemma reduceRight_path_take:
  "length ms \<le> n \<Longrightarrow> reduceRight_path upd (take n asts) ms q = reduceRight_path upd asts ms q"
proof (induction ms arbitrary: asts n)
  case (Cons m ms)
  then obtain k where "n = Suc k" "length ms \<le> k" by (cases n) auto
  with Cons.IH [of k "tl asts"] show ?case by (cases asts) (auto split: option.split)
qed simp

text \<open>Tracking with the ASTs before each mutation is tracking with all of them.\<close>

lemma reduce_asts_own:
  assumes "reduce_asts app ms ast = Inr asts"
  shows "\<exists>prev. reduce_asts app (butlast ms) ast = Inr prev \<and>
    reduce_path upd prev ms q = reduce_path upd asts ms q \<and>
    reduceRight_path rupd prev ms r = reduceRight_path rupd asts ms r"
proof (cases "ms = []")
  case False
  from reduce_asts_apply_all [OF assms] have "butlast asts = take (length ms) asts"
    by (simp add: butlast_conv_take)
  with False reduce_asts_butlast [OF assms] show ?thesis
    by (simp add: reduce_path_take reduceRight_path_take)
qed (use assms in simp)

lemma updatePath_oriAST_own:
  "reduce_asts (apply_mutation L) ms ast = Inr asts \<Longrightarrow>
   updatePath_oriAST L ms ast [q] = Inr [reduce_path (updateASTPath L) asts ms (Some q)] \<and>
   reverseUpdatePath_oriAST L ms ast [q]
     = Inr [reduceRight_path (reverseUpdateASTPath L) asts ms (Some q)]"
  using reduce_asts_own [of "apply_mutation L" ms ast asts "updateASTPath L" "Some q"
      "reverseUpdateASTPath L" "Some q"]
  by (auto simp: updatePath_oriAST_def reverseUpdatePath_oriAST_def updatePath_def
      reverseUpdatePath_def)

lemma mutateAST_asts:
  "reduce_asts (apply_mutation L) ms ast = Inr asts \<Longrightarrow> mutateAST L ms ast = Inr (last asts)"
  using reduce_asts_apply_all [of "apply_mutation L" ms ast asts] by (simp add: mutateAST_def)

lemma seq_applicable_asts:
  assumes "seq_applicable L ms ast"
  obtains asts where "reduce_asts (apply_mutation L) ms ast = Inr asts"
    "mutateAST L ms ast = Inr (last asts)"
  using assms seq_applicable_runs mutateAST_asts unfolding seq_applicable_def by blast

subsection \<open>The visitor\<close>

text \<open>A visitor that never stops the loop and never throws does not change the result.\<close>

lemma mutateAST_loop_transparent:
  assumes "\<And>ast m next i s. \<exists>s'. vis ast m next i s = Inr (s', True)"
  shows "map_sum id fst (mutateAST_loop L vis ms i ast s) = apply_all (apply_mutation L) ms ast"
proof (induction ms arbitrary: i ast s)
  case (Cons m ms)
  show ?case
  proof (cases "apply_mutation L m ast")
    case (Inr ast')
    obtain s' where "vis ast' (Some m) (mutation_at_0 ms) i s = Inr (s', True)"
      using assms by blast
    with Inr Cons show ?thesis by simp
  qed simp
qed simp

subsection \<open>Paths across a sequence\<close>

context lodash_lib
begin

lemma seq_value:
  assumes "seq_applicable L ms ast" and "seq_spared L ms ast q" and "cwalk ast q = Some x"
  shows "\<exists>q' ast'. updatePath_oriAST L ms ast [q] = Inr [Some q'] \<and> mutateAST L ms ast = Inr ast'
    \<and> cwalk ast' q' = Some x"
proof -
  from assms(1) obtain asts where asts: "reduce_asts (apply_mutation L) ms ast = Inr asts"
    "mutateAST L ms ast = Inr (last asts)" by (rule seq_applicable_asts)
  with mutation.seq_keeps [OF _ asts(1), of q x] assms show ?thesis
    by (auto simp: updatePath_oriAST_own seq_applicable_def seq_spared_def)
qed

lemma seq_node:
  assumes "seq_applicable L ms ast" and "isASTNode (cwalk ast q)"
    and "updatePath_oriAST L ms ast [q] = Inr [Some q']" and "mutateAST L ms ast = Inr ast'"
  shows "isASTNode (cwalk ast' q')"
proof -
  from assms(1) obtain asts where asts: "reduce_asts (apply_mutation L) ms ast = Inr asts"
    "mutateAST L ms ast = Inr (last asts)" by (rule seq_applicable_asts)
  with mutation.seq_alive [OF _ asts(1), of q q'] assms show ?thesis
    by (auto simp: updatePath_oriAST_own seq_applicable_def)
qed

lemma seq_back:
  assumes "seq_applicable L ms ast" and "canonical_path q"
    and "updatePath_oriAST L ms ast [q] = Inr [Some q']"
  shows "reverseUpdatePath_oriAST L ms ast [q'] = Inr [Some q] \<and> canonical_path q'"
proof -
  from assms(1) obtain asts where asts: "reduce_asts (apply_mutation L) ms ast = Inr asts"
    by (rule seq_applicable_asts)
  with mutation.seq_reverses [OF _ asts, of q q'] assms show ?thesis
    by (auto simp: updatePath_oriAST_own seq_applicable_def)
qed

text \<open>Rebasing a tracked path onto the sequence it was tracked across gives it back, and
  rebasing it onto another sequence is tracking its origin across that one.\<close>

lemma rebase_tracked:
  assumes "seq_applicable L ms ast" and "canonical_path q"
    and "reduce_asts (apply_mutation L) ms ast = Inr asts"
    and "reduce_path (updateASTPath L) asts ms (Some q) = Some q'"
  shows "rebasePath L q' ast ms (butlast asts) ns afterASTs
    = reduce_path (updateASTPath L) (ast # afterASTs) ns (Some q)"
proof -
  have "butlast asts = take (length ms) asts"
    using reduce_asts_apply_all [OF assms(3)] by (simp add: butlast_conv_take)
  with mutation.seq_reverses [of ms ast asts q q'] assms show ?thesis
    by (simp add: rebasePath_def reverseUpdatePath_def updatePath_def seq_applicable_def
        reduceRight_path_take)
qed

end

subsection \<open>Modified nodes\<close>

text \<open>The new node of an insertion or of a replacement is a node.\<close>

fun inserts_node :: "mutation \<Rightarrow> bool" where
  "inserts_node (Insertion m) = isASTNode (Some (newNode m))"
| "inserts_node m = True"

lemma modifiedNodePaths_visitor_simps [simp]:
  "modifiedNodePaths_visitor L ast j None i ret = Inr (ret, True)"
  "modifiedNodePaths_visitor L ast j (Some m) i ret =
     bind_result (modifiedNodePath L m ast) (\<lambda>new. Inr (all_updated L m ast ret @ new, True))"
  by (simp_all add: modifiedNodePaths_visitor_def)

lemma all_updated_set:
  "p' \<in> set (all_updated L m ast ps) \<longleftrightarrow> (\<exists>p \<in> set ps. updateASTPath L m ast p = Some p')"
  by (induction ps) (auto split: option.splits)

context lodash_lib
begin

lemma modifiedNodePath_nodes:
  assumes "applicable L m ast" and "inserts_node m" and "apply_mutation L m ast = Inr ast'"
    and "modifiedNodePath L m ast = Inr ps" and "p \<in> set ps"
  shows "isASTNode (cwalk ast' p)"
proof (cases m)
  case (Insertion i)
  with assms InsertionM_new_node [of i ast ast' "[]"] show ?thesis
    by (auto simp: InsertionM_modifiedNodePath_def insertion_location_def)
next
  case (Replacement r)
  then have "ast' = put ast (rep_targetNodePath r) (rep_newNode r)"
    using assms ReplacementM_apply_eq [of r ast] by simp
  moreover have "cwalk ast (rep_targetNodePath r) \<noteq> None"
    using assms Replacement
    by (cases "cwalk ast (rep_targetNodePath r)") (simp_all add: ReplacementM_applicable_def)
  ultimately show ?thesis
    using assms Replacement cwalk_put_below [of ast "rep_targetNodePath r" "rep_newNode r" "[]"]
    by (auto simp: ReplacementM_modifiedNodePath_def ReplacementM_applicable_def)
next
  case (Deletion d)
  with assms show ?thesis by (simp add: DeletionM_modifiedNodePath_def)
next
  case (Movement v)
  with assms(1) obtain ast1 where v: "MovementM_applicable L v ast"
    "DeletionM_apply L (fstMutation v) ast = Inr ast1"
    "InsertionM_applicable (sndMutation v) ast1" "isASTNode (Some (newNode (sndMutation v)))"
    by (auto elim: MovementM_applicableE)
  moreover have "InsertionM_apply L (sndMutation v) ast1 = Inr ast'"
    using assms(3) Movement v by (auto simp: MovementM_apply_def)
  ultimately show ?thesis
    using assms(4,5) Movement InsertionM_new_node [of "sndMutation v" ast1 ast' "[]"]
    by (auto simp: MovementM_modifiedNodePath_def DeletionM_modifiedNodePath_def
        InsertionM_modifiedNodePath_def insertion_location_def)
qed

lemma modified_paths_step:
  assumes "applicable L m ast" and "inserts_node m" and "apply_mutation L m ast = Inr ast'"
    and "modifiedNodePath L m ast = Inr new" and "\<forall>p \<in> set ret. isASTNode (cwalk ast p)"
    and "p \<in> set (all_updated L m ast ret @ new)"
  shows "isASTNode (cwalk ast' p)"
  using assms modifiedNodePath_nodes mutation.alive by (auto simp: all_updated_set)

text \<open>The state of the visitor before a mutation holds nodes of the AST it is applied to,
  after the visit that announces it nodes of the AST it produces.\<close>

lemma modified_paths_loop:
  "all_applicable (applicable L) (apply_mutation L) ms ast \<Longrightarrow> list_all inserts_node ms \<Longrightarrow>
   ms = [] \<longrightarrow> (\<forall>p \<in> set ret. isASTNode (cwalk ast p)) \<Longrightarrow>
   (\<And>m ms' ast1. ms = m # ms' \<Longrightarrow> apply_mutation L m ast = Inr ast1 \<Longrightarrow>
      \<forall>p \<in> set ret. isASTNode (cwalk ast1 p)) \<Longrightarrow>
   mutateAST_loop L (modifiedNodePaths_visitor L) ms i ast ret = Inr (ast', ret') \<Longrightarrow>
   \<forall>p \<in> set ret'. isASTNode (cwalk ast' p)"
proof (induction ms arbitrary: ast ret i)
  case (Cons m ms)
  from Cons.prems(5) obtain ast1 ret1 where ast1: "apply_mutation L m ast = Inr ast1"
    and vis: "modifiedNodePaths_visitor L ast1 (Some m) (mutation_at_0 ms) i ret = Inr (ret1, True)"
    and loop: "mutateAST_loop L (modifiedNodePaths_visitor L) ms (i + 1) ast1 ret1 = Inr (ast', ret')"
    by (cases "mutation_at_0 ms") auto
  have ret: "\<forall>p \<in> set ret. isASTNode (cwalk ast1 p)"
    using Cons.prems(4) ast1 by blast
  have fits: "all_applicable (applicable L) (apply_mutation L) ms ast1"
    using Cons.prems(1) ast1 by simp
  show ?case
  proof (rule Cons.IH [OF fits _ _ _ loop])
    show "list_all inserts_node ms" using Cons.prems(2) by simp
    show "ms = [] \<longrightarrow> (\<forall>p \<in> set ret1. isASTNode (cwalk ast1 p))"
      using vis ret by auto
    show "\<forall>p \<in> set ret1. isASTNode (cwalk ast2 p)"
      if "ms = m' # ms'" and "apply_mutation L m' ast1 = Inr ast2" for m' ms' ast2
      using vis fits Cons.prems(2) that modified_paths_step [OF _ _ that(2) _ ret]
      by auto
  qed
qed auto

lemma modifiedNodePaths_nodes:
  assumes "seq_applicable L ms ast" and "list_all inserts_node ms"
    and "modifiedNodePaths L ms ast = Inr ps" and "mutateAST L ms ast = Inr ast'" and "p \<in> set ps"
  shows "isASTNode (cwalk ast' p)"
proof -
  let ?v = "modifiedNodePaths_visitor L"
  obtain ret ast1 where vis: "?v ast None (mutation_at_0 ms) (-1) [] = Inr (ret, True)"
    and loop: "mutateAST_loop L ?v ms 0 ast ret = Inr (ast1, ps)"
    using assms(3)
    by (cases "mutation_at_0 ms")
      (auto simp: modifiedNodePaths_def mutateAST_visit_def)
  have "\<forall>p \<in> set ps. isASTNode (cwalk ast1 p)"
  proof (rule modified_paths_loop [OF _ assms(2) _ _ loop])
    show "all_applicable (applicable L) (apply_mutation L) ms ast"
      using assms(1) by (simp add: seq_applicable_def)
    show "ms = [] \<longrightarrow> (\<forall>p \<in> set ret. isASTNode (cwalk ast p))"
      using vis by auto
    show "\<forall>p \<in> set ret. isASTNode (cwalk ast2 p)"
      if "ms = m # ms'" "apply_mutation L m ast = Inr ast2" for m ms' ast2
      using vis that assms(1,2) modifiedNodePath_nodes
      by (auto simp: seq_applicable_def)
  qed
  moreover have "ast1 = ast'"
  proof -
    have "mutateAST_loop L ?v ns j a r = Inr (b, r') \<Longrightarrow> apply_all (apply_mutation L) ns a = Inr b"
      for ns j a r b r'
    proof (induction ns arbitrary: j a r)
      case (Cons n ns)
      then show ?case
        by (cases "mutation_at_0 ns") fastforce+
    qed simp
    with loop assms(4) show ?thesis by (fastforce simp: mutateAST_def)
  qed
  ultimately show ?thesis using assms(5) by blast
qed

end

end
