(* ===== verification/Sample.thy ===== *)
theory Sample
  imports MutationSequence
begin

text \<open>
  A concrete AST, and concrete edits of it, at which the witnesses of the properties
  evaluate the model: the source unit of
  \<open>contract C { function f() { a(); b(); c(); } }\<close>, with a location on the statements.
\<close>

definition sample_call :: "string \<Rightarrow> jsval" where
  "sample_call f = JObj [(''type'', JStr ''ExpressionStatement''),
     (''expression'', JObj [(''type'', JStr ''FunctionCall''),
        (''expression'', JObj [(''type'', JStr ''Identifier''), (''name'', JStr f)]),
        (''arguments'', JArr []), (''names'', JArr [])])]"

definition sample_loc :: "int \<Rightarrow> jsval" where
  "sample_loc n = JObj [(''start'', JObj [(''line'', JNum (Fin n)), (''column'', JNum (Fin 4))]),
     (''end'', JObj [(''line'', JNum (Fin n)), (''column'', JNum (Fin 8))])]"

definition sample_located :: "int \<Rightarrow> string \<Rightarrow> jsval" where
  "sample_located n f = set_child (sample_call f) ''loc'' (sample_loc n)"

definition sample_block :: "jsval list \<Rightarrow> jsval" where
  "sample_block ss = JObj [(''type'', JStr ''Block''), (''statements'', JArr ss)]"

definition sample_unit :: "jsval list \<Rightarrow> jsval" where
  "sample_unit ss = JObj [(''type'', JStr ''SourceUnit''), (''children'', JArr [
     JObj [(''type'', JStr ''ContractDefinition''), (''name'', JStr ''C''),
       (''subNodes'', JArr [
          JObj [(''type'', JStr ''FunctionDefinition''), (''name'', JStr ''f''),
            (''body'', sample_block ss)]])]])]"

definition sample_ast :: jsval where
  "sample_ast = sample_unit
     [sample_located 1 ''a'', sample_located 2 ''b'', sample_located 3 ''c'']"

definition sample_statements :: path where
  "sample_statements =
     [''children'', ''0'', ''subNodes'', ''0'', ''body'', ''statements'']"

definition sample_insertion :: mutation where
  "sample_insertion = Insertion \<lparr>targetPropertyPath = sample_statements,
     insertIndex = Fin 1, newNode = sample_call ''d''\<rparr>"

definition sample_deletion :: mutation where
  "sample_deletion = Deletion \<lparr>del_targetNodePath = sample_statements @ [''0'']\<rparr>"

definition sample_replacement :: mutation where
  "sample_replacement = Replacement \<lparr>rep_targetNodePath = sample_statements @ [''1''],
     rep_newNode = sample_call ''e''\<rparr>"

lemma sample_seq_applicable:
  "seq_applicable lodash_ref [sample_insertion, sample_deletion, sample_replacement] sample_ast"
  by code_simp

end
