(* ===== verification/SequenceProperties.thy ===== *)
theory SequenceProperties
  imports Sample
begin

text \<open>
  The properties of mutation sequences: paths carried across a sequence keep leading to the
  same value, or at least to a node; carrying them back undoes it; rebasing a path is
  tracking its origin; the visitor of \<open>mutateAST\<close> sees the intermediate ASTs; the paths
  reported as modified are nodes of the mutated AST.
\<close>

definition sample_sequence :: mutationSequence where
  "sample_sequence = [sample_insertion, sample_deletion, sample_replacement]"

lemma sample_sequence_applicable: "seq_applicable lodash_ref sample_sequence sample_ast"
  using sample_seq_applicable by (simp add: sample_sequence_def)

lemma sample_sequence_spared:
  "seq_spared lodash_ref sample_sequence sample_ast (sample_statements @ [''2''])"
  by code_simp

lemma sample_node: "cwalk sample_ast (sample_statements @ [''2'']) = Some (sample_located 3 ''c'')"
  by code_simp

lemma sample_tracked:
  "updatePath_oriAST lodash_ref sample_sequence sample_ast [sample_statements @ [''2'']]
   = Inr [Some (sample_statements @ [''2''])]"
  by code_simp

definition sample_mutated :: jsval where
  "sample_mutated = sample_unit
     [sample_call ''d'', sample_call ''e'', sample_located 3 ''c'']"

lemma sample_mutates: "mutateAST lodash_ref sample_sequence sample_ast = Inr sample_mutated"
  by code_simp

section \<open>Carrying paths across a sequence\<close>

text \<open>Property C1. When every mutation of a sequence fits the AST it is applied to and none
  of them touches the value at a path, tracking the path answers a path, and in the mutated
  AST that path leads to exactly the same value.\<close>

theorem updatePath_oriAST_keeps_value:
  assumes "lodash_lib L" and "seq_applicable L ms ast" and "seq_spared L ms ast q"
    and "cwalk ast q = Some x"
  shows "\<exists>q' ast'. updatePath_oriAST L ms ast [q] = Inr [Some q'] \<and> mutateAST L ms ast = Inr ast'
    \<and> cwalk ast' q' = Some x"
  using lodash_lib.seq_value [OF assms] .

theorem updatePath_oriAST_keeps_value_witness:
  "\<exists>q' ast'. updatePath_oriAST lodash_ref sample_sequence sample_ast
      [sample_statements @ [''2'']] = Inr [Some q'] \<and>
    mutateAST lodash_ref sample_sequence sample_ast = Inr ast' \<and>
    cwalk ast' q' = Some (sample_located 3 ''c'')"
  by (rule updatePath_oriAST_keeps_value
      [OF lodash_lib_ref sample_sequence_applicable sample_sequence_spared sample_node])

text \<open>Property C2. Even a path whose value is edited keeps leading to a node: when the path
  of a node is tracked across a sequence that fits and the tracking answers a path, that
  path leads to a node of the mutated AST.\<close>

theorem updatePath_oriAST_keeps_nodes:
  assumes "lodash_lib L" and "seq_applicable L ms ast" and "isASTNode (cwalk ast q)"
    and "updatePath_oriAST L ms ast [q] = Inr [Some q']" and "mutateAST L ms ast = Inr ast'"
  shows "isASTNode (cwalk ast' q')"
  using lodash_lib.seq_node [OF assms] .

theorem updatePath_oriAST_keeps_nodes_witness:
  "isASTNode (cwalk sample_mutated (sample_statements @ [''2'']))"
proof (rule updatePath_oriAST_keeps_nodes
    [OF lodash_lib_ref sample_sequence_applicable _ sample_tracked sample_mutates])
  show "isASTNode (cwalk sample_ast (sample_statements @ [''2'']))" by code_simp
qed

text \<open>Property C3. Tracking a path forwards and then backwards gives the path back: on the
  paths of a sequence that fits, whatever the forward tracking answers, the backward
  tracking maps it to where it came from.\<close>

theorem reverseUpdatePath_undoes_updatePath:
  assumes "lodash_lib L" and "seq_applicable L ms ast" and "canonical_path q"
    and "updatePath_oriAST L ms ast [q] = Inr [Some q']"
  shows "reverseUpdatePath_oriAST L ms ast [q'] = Inr [Some q]"
  using lodash_lib.seq_back [OF assms] by simp

lemma sample_path_canonical: "canonical_path (sample_statements @ [''2''])"
  by code_simp

theorem reverseUpdatePath_undoes_updatePath_witness:
  "reverseUpdatePath_oriAST lodash_ref sample_sequence sample_ast [sample_statements @ [''2'']]
   = Inr [Some (sample_statements @ [''2''])]"
  by (rule reverseUpdatePath_undoes_updatePath
      [OF lodash_lib_ref sample_sequence_applicable sample_path_canonical sample_tracked])

text \<open>Two different paths of the original AST are never carried onto the same
  path.\<close>

theorem updatePath_oriAST_injective:
  assumes "lodash_lib L" and "seq_applicable L ms ast"
    and "canonical_path p" and "canonical_path q" and "p \<noteq> q"
    and "updatePath_oriAST L ms ast [p] = Inr [Some p']"
    and "updatePath_oriAST L ms ast [q] = Inr [Some q']"
  shows "p' \<noteq> q'"
  using lodash_lib.seq_back [OF assms(1-3,6)] lodash_lib.seq_back [OF assms(1,2,4,7)] assms(5)
  by auto

lemma sample_tracked_1:
  "updatePath_oriAST lodash_ref sample_sequence sample_ast [sample_statements @ [''1'']]
   = Inr [Some (sample_statements @ [''1''])]"
  by code_simp

section \<open>Rebasing\<close>

text \<open>Property C21. Rebasing: a path that comes from the path \<open>q\<close> of the original AST by a
  sequence \<open>ms\<close> is rebased onto another sequence \<open>ns\<close> to exactly what tracking \<open>q\<close> across
  \<open>ns\<close> gives, undefined when \<open>ns\<close> destroys it.\<close>

theorem rebasePath_tracks_origin:
  assumes "lodash_lib L" and "seq_applicable L ms ast" and "canonical_path q"
    and "reduce_asts (apply_mutation L) ms ast = Inr asts"
    and "updatePath L ms asts [q] = [Some q']"
    and "reduce_asts (apply_mutation L) ns ast = Inr asts2"
  shows "rebasePath L q' ast ms (butlast asts) ns (tl asts2) = hd (updatePath L ns asts2 [q])"
proof -
  have "asts2 = ast # tl asts2"
    using reduce_asts_apply_all [OF assms(6)] by (cases asts2) auto
  moreover have "rebasePath L q' ast ms (butlast asts) ns (tl asts2)
      = reduce_path (updateASTPath L) (ast # tl asts2) ns (Some q)"
    using assms by (intro lodash_lib.rebase_tracked) (auto simp: updatePath_def)
  ultimately show ?thesis by (simp add: updatePath_def)
qed

lemma sample_asts:
  "reduce_asts (apply_mutation lodash_ref) sample_sequence sample_ast =
   Inr [sample_ast,
     sample_unit [sample_located 1 ''a'', sample_call ''d'', sample_located 2 ''b'', sample_located 3 ''c''],
     sample_unit [sample_call ''d'', sample_located 2 ''b'', sample_located 3 ''c''],
     sample_mutated]"
  by code_simp

lemma sample_asts_deletion:
  "reduce_asts (apply_mutation lodash_ref) [sample_deletion] sample_ast =
   Inr [sample_ast, sample_unit [sample_located 2 ''b'', sample_located 3 ''c'']]"
  by code_simp

theorem rebasePath_tracks_origin_witness:
  "\<exists>asts asts2. rebasePath lodash_ref (sample_statements @ [''2'']) sample_ast sample_sequence
      (butlast asts) [sample_deletion] (tl asts2) =
    hd (updatePath lodash_ref [sample_deletion] asts2 [sample_statements @ [''2'']])"
proof (intro exI, rule rebasePath_tracks_origin
    [OF lodash_lib_ref sample_sequence_applicable sample_path_canonical sample_asts _
      sample_asts_deletion])
  show "updatePath lodash_ref sample_sequence
     [sample_ast,
     sample_unit [sample_located 1 ''a'', sample_call ''d'', sample_located 2 ''b'', sample_located 3 ''c''],
     sample_unit [sample_call ''d'', sample_located 2 ''b'', sample_located 3 ''c''],
     sample_mutated] [sample_statements @ [''2'']] = [Some (sample_statements @ [''2''])]"
    by code_simp
qed

section \<open>The visitor of \<open>mutateAST\<close>\<close>

text \<open>A visitor that records what it is shown is shown exactly the AST before
  the first mutation and the AST after each one, in order, and the AST \<open>mutateAST\<close> returns is
  the last of them; an exception of a mutation is passed on.\<close>

theorem mutateAST_visits_each_AST:
  "mutateAST_visit L (\<lambda>a _ _ _ seen. Inr (seen @ [a], True)) ms ast []
   = bind_result (reduce_asts (apply_mutation L) ms ast) (\<lambda>asts. Inr (last asts, asts))"
proof -
  have loop: "mutateAST_loop L (\<lambda>a _ _ _ seen. Inr (seen @ [a], True)) ms i ast (seen @ [ast])
    = bind_result (reduce_asts (apply_mutation L) ms ast)
        (\<lambda>asts. Inr (last asts, seen @ asts))" for i ast seen
  proof (induction ms arbitrary: i ast seen)
    case (Cons m ms)
    show ?case
    proof (cases "apply_mutation L m ast")
      case (Inr ast')
      with Cons.IH [of "i + 1" ast' "seen @ [ast]"]
        reduce_asts_apply_all [of "apply_mutation L" ms ast'] show ?thesis
        by (cases "reduce_asts (apply_mutation L) ms ast'") (auto simp: last_ConsR)
    qed simp
  qed simp
  from loop [of 0 ast "[]"] show ?thesis by (simp add: mutateAST_visit_def)
qed

section \<open>Modified nodes\<close>

text \<open>Property C26. The paths \<open>modifiedNodePaths\<close> reports (the nodes inserted, replaced or
  moved, carried across the later mutations) all lead to nodes of the mutated AST.\<close>

theorem modifiedNodePaths_are_nodes:
  assumes "lodash_lib L" and "seq_applicable L ms ast" and "list_all inserts_node ms"
    and "modifiedNodePaths L ms ast = Inr ps" and "mutateAST L ms ast = Inr ast'" and "p \<in> set ps"
  shows "isASTNode (cwalk ast' p)"
  using lodash_lib.modifiedNodePaths_nodes [OF assms] .

theorem modifiedNodePaths_are_nodes_witness:
  "isASTNode (cwalk sample_mutated (sample_statements @ [''1'']))"
proof (rule modifiedNodePaths_are_nodes
    [OF lodash_lib_ref sample_sequence_applicable _ _ sample_mutates])
  show "list_all inserts_node sample_sequence" by code_simp
  show "modifiedNodePaths lodash_ref sample_sequence sample_ast
    = Inr [sample_statements @ [''0''], sample_statements @ [''1'']]" by code_simp
qed simp

end
