(* ===== verification/Rebase.thy ===== *)
theory Rebase
  imports MutationSequence
begin

text \<open>
  The \<open>rebase\<close> methods of the four mutations, and the one-point crossover of two mutation
  sequences (\<open>lib/MutateMutationSequence.ts\<close>) that is built on them: the tail of each
  sequence is carried over to the head of the other. An undefined result is \<open>None\<close>, a
  failed assertion the left value of the sum.

  The results of crossover are spread into array literals, \<open>[...fst, ...snd] as MutationSequence\<close>;
  the cast is gone at run time, so they are arrays without the methods of \<open>MutationSequence\<close>.
\<close>

section \<open>The rebase methods\<close>

definition InsertionM_rebase ::
  "lodash \<Rightarrow> insertionM \<Rightarrow> jsval \<Rightarrow> mutationSequence \<Rightarrow> jsval list \<Rightarrow> mutationSequence \<Rightarrow>
   jsval list \<Rightarrow> insertionM option" where
  "InsertionM_rebase L m oriAST fromSeq beforeASTs afterSeq afterASTs =
     (case rebasePath L (insertion_location m) oriAST fromSeq beforeASTs afterSeq afterASTs of
        None \<Rightarrow> None
      | Some newLocation \<Rightarrow> Some \<lparr>targetPropertyPath = butlast newLocation,
          insertIndex = parseInt_last newLocation, newNode = newNode m\<rparr>)"

definition DeletionM_rebase ::
  "lodash \<Rightarrow> deletionM \<Rightarrow> jsval \<Rightarrow> mutationSequence \<Rightarrow> jsval list \<Rightarrow> mutationSequence \<Rightarrow>
   jsval list \<Rightarrow> deletionM option" where
  "DeletionM_rebase L m oriAST fromSeq beforeASTs afterSeq afterASTs =
     (case rebasePath L (del_targetNodePath m) oriAST fromSeq beforeASTs afterSeq afterASTs of
        None \<Rightarrow> None
      | Some newTarget \<Rightarrow> Some \<lparr>del_targetNodePath = newTarget\<rparr>)"

definition ReplacementM_rebase ::
  "lodash \<Rightarrow> replacementM \<Rightarrow> jsval \<Rightarrow> mutationSequence \<Rightarrow> jsval list \<Rightarrow> mutationSequence \<Rightarrow>
   jsval list \<Rightarrow> replacementM option" where
  "ReplacementM_rebase L m oriAST fromSeq beforeASTs afterSeq afterASTs =
     (case rebasePath L (rep_targetNodePath m) oriAST fromSeq beforeASTs afterSeq afterASTs of
        None \<Rightarrow> None
      | Some newTarget \<Rightarrow> Some \<lparr>rep_targetNodePath = newTarget, rep_newNode = rep_newNode m\<rparr>)"

definition MovementM_rebase ::
  "lodash \<Rightarrow> movementM \<Rightarrow> jsval \<Rightarrow> mutationSequence \<Rightarrow> jsval list \<Rightarrow> mutationSequence \<Rightarrow>
   jsval list \<Rightarrow> movementM option result" where
  "MovementM_rebase L m oriAST fromSeq beforeASTs afterSeq afterASTs =
     bind_result (js_assert (length beforeASTs = length fromSeq)) (\<lambda>_.
     bind_result (js_assert (length afterASTs = length afterSeq)) (\<lambda>_.
     bind_result (js_assert (list_all (\<lambda>x. isASTNode (Some x)) beforeASTs)) (\<lambda>_.
     bind_result (js_assert (list_all (\<lambda>x. isASTNode (Some x)) afterASTs)) (\<lambda>_.
       case DeletionM_rebase L (fstMutation m) oriAST fromSeq beforeASTs afterSeq afterASTs of
         None \<Rightarrow> Inr None
       | Some newFst \<Rightarrow>
           let baseAST = (if afterASTs = [] then oriAST else afterASTs ! (length afterSeq - 1)) in
           bind_result (DeletionM_apply L newFst baseAST) (\<lambda>aftFstAST.
           case InsertionM_rebase L (sndMutation m) oriAST
               (fromSeq @ [Deletion (fstMutation m)]) (beforeASTs @ [mov_ast m])
               (afterSeq @ [Deletion newFst]) (afterASTs @ [aftFstAST]) of
             None \<Rightarrow> Inr None
           | Some newSnd \<Rightarrow>
               bind_result (MovementM_fromMutation L baseAST newFst newSnd)
                 (\<lambda>v. Inr (Some v)))))))"

fun rebase ::
  "lodash \<Rightarrow> mutation \<Rightarrow> jsval \<Rightarrow> mutationSequence \<Rightarrow> jsval list \<Rightarrow> mutationSequence \<Rightarrow>
   jsval list \<Rightarrow> mutation option result" where
  "rebase L (Insertion m) oriAST fromSeq beforeASTs afterSeq afterASTs =
     Inr (map_option Insertion (InsertionM_rebase L m oriAST fromSeq beforeASTs afterSeq afterASTs))"
| "rebase L (Deletion m) oriAST fromSeq beforeASTs afterSeq afterASTs =
     Inr (map_option Deletion (DeletionM_rebase L m oriAST fromSeq beforeASTs afterSeq afterASTs))"
| "rebase L (Replacement m) oriAST fromSeq beforeASTs afterSeq afterASTs =
     Inr (map_option Replacement
       (ReplacementM_rebase L m oriAST fromSeq beforeASTs afterSeq afterASTs))"
| "rebase L (Movement m) oriAST fromSeq beforeASTs afterSeq afterASTs =
     map_sum id (map_option Movement)
       (MovementM_rebase L m oriAST fromSeq beforeASTs afterSeq afterASTs)"

lemma rebase_type: "rebase L m oriAST fs bs as cs = Inr (Some m') \<Longrightarrow> mutationType m' = mutationType m"
  by (cases m) (auto simp: map_sum_def split: sum.splits)

section \<open>One-point crossover\<close>

text \<open>
  The loop that carries the tail \<open>xs\<close> of one sequence over: \<open>fromFst\<close> and \<open>done\<close> are the
  mutations that precede it there, \<open>prevFrom\<close> the ASTs of that sequence; \<open>afterFst\<close> is the
  head it is appended to, \<open>newArr\<close> what has been carried over, \<open>aftASTs\<close> the ASTs after
  each mutation of the head and of \<open>newArr\<close>.
\<close>

fun adapt_snd ::
  "lodash \<Rightarrow> jsval \<Rightarrow> mutationSequence \<Rightarrow> mutationSequence \<Rightarrow> jsval list \<Rightarrow> mutationSequence \<Rightarrow>
   mutationSequence \<Rightarrow> jsval list \<Rightarrow> mutationSequence \<Rightarrow> mutationSequence option result" where
  "adapt_snd L oriAST fromFst done prevFrom afterFst newArr aftASTs [] = Inr (Some newArr)"
| "adapt_snd L oriAST fromFst done prevFrom afterFst newArr aftASTs (x # xs) =
     bind_result (rebase L x oriAST (fromFst @ done)
       (take (length fromFst + length done) prevFrom) (afterFst @ newArr) aftASTs) (\<lambda>maybeX.
     case maybeX of
       None \<Rightarrow> Inr None
     | Some newX \<Rightarrow>
         let idx = int (length afterFst) - 1 + int (length done);
             astBefore = (if idx = -1 then oriAST else aftASTs ! nat idx) in
         bind_result (apply_mutation L newX astBefore) (\<lambda>newAST.
           adapt_snd L oriAST fromFst (done @ [x]) prevFrom afterFst (newArr @ [newX])
             (aftASTs @ [newAST]) xs))"

text \<open>An array of mutations of the class \<open>MutationSequence\<close>, or of no class but \<open>Array\<close>. The methods of
  the class are those of its objects; on another array \<open>seq.mutateAST\<close> is undefined, and calling it
  throws.\<close>

datatype mutation_array = SequenceObject mutationSequence | PlainArray mutationSequence

fun elements :: "mutation_array \<Rightarrow> mutationSequence" where
  "elements (SequenceObject ms) = ms"
| "elements (PlainArray ms) = ms"

definition new_MutationSequence :: "mutation_array \<Rightarrow> mutation_array" where
  "new_MutationSequence spread = SequenceObject (elements spread)"

fun call_mutateAST :: "lodash \<Rightarrow> mutation_array \<Rightarrow> jsval \<Rightarrow> jsval result" where
  "call_mutateAST L (SequenceObject ms) ast = mutateAST L ms ast"
| "call_mutateAST L (PlainArray ms) ast = Inl TypeError"

text \<open>The parents are only read as arrays, so their elements are enough; the sequences that
  \<open>rebase\<close> gets are made with \<open>new\<close>.\<close>

definition MutateMutationSequence_Crossover_OnePoint ::
  "lodash \<Rightarrow> jsval \<Rightarrow> mutationSequence \<Rightarrow> mutationSequence \<Rightarrow> int \<Rightarrow> int \<Rightarrow>
   mutation_array list result" where
  "MutateMutationSequence_Crossover_OnePoint L oriAST seq1 seq2 crosspoint1 crosspoint2 =
     bind_result (js_assert (crosspoint1 \<ge> -1 \<and> crosspoint1 < int (length seq1))) (\<lambda>_.
     bind_result (js_assert (crosspoint2 \<ge> -1 \<and> crosspoint2 < int (length seq2))) (\<lambda>_.
       let fst1 = take (nat (crosspoint1 + 1)) seq1; snd1 = drop (nat (crosspoint1 + 1)) seq1;
           fst2 = take (nat (crosspoint2 + 1)) seq2; snd2 = drop (nat (crosspoint2 + 1)) seq2 in
       bind_result (reduce_asts (apply_mutation L) seq1 oriAST) (\<lambda>prevASTs1.
       bind_result (reduce_asts (apply_mutation L) seq2 oriAST) (\<lambda>prevASTs2.
         let aft2 = take (length fst2) (drop 1 prevASTs2) in
         bind_result (js_assert (length aft2 = length fst2)) (\<lambda>_.
         bind_result (adapt_snd L oriAST fst1 [] prevASTs1 fst2 [] aft2 snd1) (\<lambda>adapted1.
         let aft1 = take (length fst1) (drop 1 prevASTs1) in
         bind_result (js_assert (length aft1 = length fst1)) (\<lambda>_.
         bind_result (adapt_snd L oriAST fst2 [] prevASTs2 fst1 [] aft1 snd2) (\<lambda>adapted2.
           Inr ((case adapted2 of None \<Rightarrow> [] | Some ys \<Rightarrow> [PlainArray (fst1 @ ys)])
              @ (case adapted1 of None \<Rightarrow> [] | Some ys \<Rightarrow> [PlainArray (fst2 @ ys)]))))))))))"

section \<open>What crossover produces\<close>

text \<open>The list of ASTs after each mutation follows the sequence.\<close>

lemma reduce_asts_append1:
  "reduce_asts app ms ast = Inr asts \<Longrightarrow> app m (last asts) = Inr a \<Longrightarrow>
   reduce_asts app (ms @ [m]) ast = Inr (asts @ [a])"
proof (induction ms arbitrary: ast asts)
  case (Cons k ms)
  then obtain ast' as where as: "app k ast = Inr ast'" "reduce_asts app ms ast' = Inr as"
    "asts = ast # as" by auto
  moreover have "as \<noteq> []" using reduce_asts_apply_all [OF as(2)] by auto
  ultimately show ?case using Cons by simp
qed auto

lemma reduce_asts_take:
  "reduce_asts app ms ast = Inr asts \<Longrightarrow>
   reduce_asts app (take n ms) ast = Inr (take (Suc n) asts)"
proof (induction ms arbitrary: ast asts n)
  case (Cons m ms)
  then obtain ast' as where as: "app m ast = Inr ast'" "reduce_asts app ms ast' = Inr as"
    "asts = ast # as" by auto
  with Cons.IH [OF as(2)] show ?case by (cases n) auto
qed (cases n; auto)

lemma adapt_snd_result:
  "adapt_snd L oriAST fromFst done prevFrom afterFst newArr aftASTs xs = Inr (Some ys) \<Longrightarrow>
   length newArr = length done \<Longrightarrow>
   reduce_asts (apply_mutation L) (afterFst @ newArr) oriAST = Inr (oriAST # aftASTs) \<Longrightarrow>
   map mutationType newArr = map mutationType done \<Longrightarrow>
   map mutationType ys = map mutationType (done @ xs) \<and>
   (\<exists>asts. reduce_asts (apply_mutation L) (afterFst @ ys) oriAST = Inr asts)"
proof (induction xs arbitrary: "done" newArr aftASTs)
  case (Cons x xs)
  let ?idx = "int (length afterFst) - 1 + int (length done)"
  let ?before = "if ?idx = -1 then oriAST else aftASTs ! nat ?idx"
  from Cons.prems(1) obtain newX newAST
    where newX: "rebase L x oriAST (fromFst @ done) (take (length fromFst + length done) prevFrom)
        (afterFst @ newArr) aftASTs = Inr (Some newX)"
      and newAST: "apply_mutation L newX ?before = Inr newAST"
      and rest: "adapt_snd L oriAST fromFst (done @ [x]) prevFrom afterFst (newArr @ [newX])
        (aftASTs @ [newAST]) xs = Inr (Some ys)"
    by (auto simp: Let_def split: option.splits)
  have len: "length aftASTs = length afterFst + length done"
    using reduce_asts_apply_all [OF Cons.prems(3)] Cons.prems(2) by simp
  have "?before = last (oriAST # aftASTs)"
    using len by (cases aftASTs rule: rev_cases) (auto simp: nth_append)
  with newAST reduce_asts_append1 [OF Cons.prems(3)]
  have "reduce_asts (apply_mutation L) (afterFst @ newArr @ [newX]) oriAST
      = Inr (oriAST # aftASTs @ [newAST])" by simp
  with Cons.IH [OF rest] Cons.prems(2,4) rebase_type [OF newX] show ?case by simp
qed auto

lemma crossover_half:
  assumes "reduce_asts (apply_mutation L) seq2 oriAST = Inr prevASTs2"
    and "adapt_snd L oriAST fst1 [] prevASTs1 (take n seq2) []
      (take (length (take n seq2)) (drop 1 prevASTs2)) snd1 = Inr (Some ys)"
  shows "map mutationType ys = map mutationType snd1 \<and>
    (\<exists>asts. reduce_asts (apply_mutation L) (take n seq2 @ ys) oriAST = Inr asts)"
proof -
  let ?k = "length (take n seq2)"
  have "prevASTs2 = oriAST # drop 1 prevASTs2"
    using reduce_asts_apply_all [OF assms(1)] by (cases prevASTs2) auto
  then have "take (Suc ?k) prevASTs2 = oriAST # take ?k (drop 1 prevASTs2)"
    by (metis take_Suc_Cons)
  with reduce_asts_take [OF assms(1), of ?k]
  have "reduce_asts (apply_mutation L) (take n seq2 @ []) oriAST
      = Inr (oriAST # take ?k (drop 1 prevASTs2))"
    by (simp add: min_def split: if_splits)
  from adapt_snd_result [OF assms(2) _ this] show ?thesis by simp
qed

lemma crossover_runs:
  assumes "MutateMutationSequence_Crossover_OnePoint L oriAST seq1 seq2 cp1 cp2 = Inr children"
  obtains prevASTs1 prevASTs2 adapted1 adapted2 where
    "reduce_asts (apply_mutation L) seq1 oriAST = Inr prevASTs1"
    "reduce_asts (apply_mutation L) seq2 oriAST = Inr prevASTs2"
    "adapt_snd L oriAST (take (nat (cp1 + 1)) seq1) [] prevASTs1 (take (nat (cp2 + 1)) seq2) []
       (take (length (take (nat (cp2 + 1)) seq2)) (drop 1 prevASTs2)) (drop (nat (cp1 + 1)) seq1)
     = Inr adapted1"
    "adapt_snd L oriAST (take (nat (cp2 + 1)) seq2) [] prevASTs2 (take (nat (cp1 + 1)) seq1) []
       (take (length (take (nat (cp1 + 1)) seq1)) (drop 1 prevASTs1)) (drop (nat (cp2 + 1)) seq2)
     = Inr adapted2"
    "children =
       (case adapted2 of None \<Rightarrow> [] | Some ys \<Rightarrow> [PlainArray (take (nat (cp1 + 1)) seq1 @ ys)])
       @ (case adapted1 of None \<Rightarrow> [] | Some ys \<Rightarrow> [PlainArray (take (nat (cp2 + 1)) seq2 @ ys)])"
  using assms unfolding MutateMutationSequence_Crossover_OnePoint_def Let_def
  by (elim bind_result_Inr [THEN iffD1, elim_format] exE conjE) simp

lemma crossover_child:
  assumes "MutateMutationSequence_Crossover_OnePoint L oriAST seq1 seq2 cp1 cp2 = Inr children"
    and "kid \<in> set children"
  obtains (first) ys asts where "kid = PlainArray (take (nat (cp1 + 1)) seq1 @ ys)"
      "map mutationType ys = map mutationType (drop (nat (cp2 + 1)) seq2)"
      "reduce_asts (apply_mutation L) (elements kid) oriAST = Inr asts"
  | (second) ys asts where "kid = PlainArray (take (nat (cp2 + 1)) seq2 @ ys)"
      "map mutationType ys = map mutationType (drop (nat (cp1 + 1)) seq1)"
      "reduce_asts (apply_mutation L) (elements kid) oriAST = Inr asts"
proof -
  from assms(1) obtain prevASTs1 prevASTs2 adapted1 adapted2 where
    p1: "reduce_asts (apply_mutation L) seq1 oriAST = Inr prevASTs1"
    and p2: "reduce_asts (apply_mutation L) seq2 oriAST = Inr prevASTs2"
    and a1: "adapt_snd L oriAST (take (nat (cp1 + 1)) seq1) [] prevASTs1
       (take (nat (cp2 + 1)) seq2) []
       (take (length (take (nat (cp2 + 1)) seq2)) (drop 1 prevASTs2)) (drop (nat (cp1 + 1)) seq1)
     = Inr adapted1"
    and a2: "adapt_snd L oriAST (take (nat (cp2 + 1)) seq2) [] prevASTs2
       (take (nat (cp1 + 1)) seq1) []
       (take (length (take (nat (cp1 + 1)) seq1)) (drop 1 prevASTs1)) (drop (nat (cp2 + 1)) seq2)
     = Inr adapted2"
    and c: "children =
       (case adapted2 of None \<Rightarrow> [] | Some ys \<Rightarrow> [PlainArray (take (nat (cp1 + 1)) seq1 @ ys)])
       @ (case adapted1 of None \<Rightarrow> [] | Some ys \<Rightarrow> [PlainArray (take (nat (cp2 + 1)) seq2 @ ys)])"
    by (rule crossover_runs)
  from c assms(2) consider
    ys where "adapted2 = Some ys" "kid = PlainArray (take (nat (cp1 + 1)) seq1 @ ys)"
    | ys where "adapted1 = Some ys" "kid = PlainArray (take (nat (cp2 + 1)) seq2 @ ys)"
    by (auto split: option.splits)
  then show thesis
  proof cases
    case 1
    with crossover_half [OF p1 a2 [unfolded 1]] first show thesis by auto
  next
    case 2
    with crossover_half [OF p2 a1 [unfolded 2]] second show thesis by auto
  qed
qed

end
