(* ===== verification/CrossoverProperties.thy ===== *)
theory CrossoverProperties
  imports Rebase Sample
begin

text \<open>
  The properties of one-point crossover: what it returns are arrays without methods, whose mutations
  can be applied to the original AST and have the shape of a crossover; wrong crossover points are refused.
\<close>

definition sample_parent1 :: mutationSequence where
  "sample_parent1 = [sample_insertion, sample_deletion]"

definition sample_parent2 :: mutationSequence where
  "sample_parent2 = [sample_replacement]"

definition sample_children :: "mutation_array list" where
  "sample_children = [
     PlainArray [sample_insertion, Replacement \<lparr>rep_targetNodePath = sample_statements @ [''2''],
        rep_newNode = sample_call ''e''\<rparr>],
     PlainArray [sample_deletion]]"

lemma sample_crossover:
  "MutateMutationSequence_Crossover_OnePoint lodash_ref sample_ast sample_parent1 sample_parent2 0 (-1)
   = Inr sample_children"
  by code_simp

text \<open>Property C4. What one-point crossover returns are plain arrays, cast to \<open>MutationSequence\<close>, so calling
  \<open>mutateAST\<close> on one of them throws, whatever the parents are. Their mutations are sound: put into an object with
  \<open>new MutationSequence\<close>, as the program does elsewhere, every one of them applies to the original AST
  without an exception, whatever the two parents and the crossover points are, and whatever lodash does.\<close>

theorem crossover_children_apply_rebuilt:
  assumes "MutateMutationSequence_Crossover_OnePoint L oriAST seq1 seq2 cp1 cp2 = Inr children"
    and "kid \<in> set children"
  shows "call_mutateAST L kid oriAST = Inl TypeError \<and>
    (\<exists>ast'. call_mutateAST L (new_MutationSequence kid) oriAST = Inr ast')"
  using assms by (rule crossover_child) (auto simp: new_MutationSequence_def dest: mutateAST_asts)

theorem crossover_children_apply_rebuilt_witness:
  "call_mutateAST lodash_ref (PlainArray [sample_deletion]) sample_ast = Inl TypeError \<and>
    (\<exists>ast'. call_mutateAST lodash_ref (new_MutationSequence (PlainArray [sample_deletion])) sample_ast = Inr ast')"
  by (rule crossover_children_apply_rebuilt [OF sample_crossover]) (simp add: sample_children_def)

text \<open>The shape of the children: there are at most two; each keeps the head of
  one parent up to its crossover point unchanged and continues with rebased mutations, one
  for each mutation of the tail of the other parent, of the same types in the same order.\<close>

theorem crossover_children_shape:
  assumes "MutateMutationSequence_Crossover_OnePoint L oriAST seq1 seq2 cp1 cp2 = Inr children"
  shows "length children \<le> 2 \<and>
    (\<forall>kid \<in> set children.
      (\<exists>ys. kid = PlainArray (take (nat (cp1 + 1)) seq1 @ ys) \<and>
         map mutationType ys = map mutationType (drop (nat (cp2 + 1)) seq2)) \<or>
      (\<exists>ys. kid = PlainArray (take (nat (cp2 + 1)) seq2 @ ys) \<and>
         map mutationType ys = map mutationType (drop (nat (cp1 + 1)) seq1)))"
proof
  show "length children \<le> 2"
    using assms by (rule crossover_runs) (simp split: option.splits)
qed (blast elim: crossover_child [OF assms])

text \<open>A crossover point that is not the index of a mutation of its sequence, and
  is not -1 (nothing kept), fails the assertion.\<close>

theorem crossover_rejects_bad_points:
  assumes "cp1 < -1 \<or> int (length seq1) \<le> cp1 \<or> cp2 < -1 \<or> int (length seq2) \<le> cp2"
  shows "MutateMutationSequence_Crossover_OnePoint L oriAST seq1 seq2 cp1 cp2 = Inl AssertionError"
  using assms by (auto simp: MutateMutationSequence_Crossover_OnePoint_def js_assert_def)

end
