(* ===== verification/MovementProperties.thy ===== *)
theory MovementProperties
  imports Sample
begin

text \<open>
  The properties of the movement mutation: a movement built for an AST is accepted there and
  puts the moved node, without its locations, at the place the tracked path says; it refuses
  every other program; \<open>fromMutation\<close> inverts the constructor; and the constructor accepts
  movements that change nothing.
\<close>

definition sample_movement :: movementM where
  "sample_movement = \<lparr>mov_ast = ASTNodeRemoveExtraAttributesDeep sample_ast,
     fromNodePath = sample_statements @ [''0''], toPropertyPath = sample_statements,
     mov_insertIndex = Fin 3,
     fstMutation = \<lparr>del_targetNodePath = sample_statements @ [''0'']\<rparr>,
     sndMutation = \<lparr>targetPropertyPath = sample_statements, insertIndex = Fin 2,
       newNode = sample_call ''a''\<rparr>\<rparr>"

lemma sample_new_movement:
  "new_MovementM lodash_ref sample_ast (sample_statements @ [''0'']) sample_statements (Fin 3)
   = Inr sample_movement"
  by code_simp

lemma sample_ast_wf: "wf_val sample_ast"
  by code_simp

lemma sample_from_plain: "plain_path (sample_statements @ [''0''])"
  by code_simp

lemma sample_movement_applicable: "applicable lodash_ref (Movement sample_movement) sample_ast"
  by code_simp

lemma sample_first: "cwalk sample_ast (sample_statements @ [''0'']) = Some (sample_located 1 ''a'')"
  by code_simp

section \<open>Moving a node\<close>

text \<open>Property C15. A movement built for an AST, at places that fit it, applies to that AST
  without an exception; the tracked path of the moved node is the insertion location, and
  the node is found there in the new AST, stripped of its locations.\<close>

theorem movement_moves_node:
  assumes "lodash_lib L" and "wf_val ast" and "new_MovementM L ast from to index = Inr m"
    and "applicable L (Movement m) ast" and "plain_path from"
    and "cwalk ast from = Some node" and "isASTNode (Some node)"
  shows "\<exists>ast' loc. apply_mutation L (Movement m) ast = Inr ast' \<and>
    updateASTPath L (Movement m) ast from = Some loc \<and>
    cwalk ast' loc = Some (ASTNodeRemoveLocDeep node)"
proof -
  from assms(4) have fits: "MovementM_applicable L m ast" by simp
  from lodash_lib.MovementM_runs [OF assms(1,3,2) fits] obtain ast1 ast' where
    run: "InsertionM_applicable (sndMutation m) ast1"
    "InsertionM_apply L (sndMutation m) ast1 = Inr ast'" "MovementM_apply L m ast = Inr ast'" .
  from assms(3) have m: "fromNodePath m = from" "del_targetNodePath (fstMutation m) = from"
    by (auto elim: new_MovementM_fields)
  with fits have "from \<noteq> []"
    by (auto elim!: MovementM_applicableE simp: DeletionM_applicable_def Let_def)
  with assms have "newNode (sndMutation m) = ASTNodeRemoveLocDeep node"
    by (intro lodash_lib.new_MovementM_node) (auto intro: isASTNode_container)
  moreover have "MovementM_updateASTPath L m ast from = Some (insertion_location (sndMutation m))"
    using lodash_lib.MovementM_moved_path [OF assms(1), of m ast] m by simp
  ultimately show ?thesis
    using lodash_lib.InsertionM_new_node [OF assms(1) run(1,2), of "[]"] run(3) by auto
qed

theorem movement_moves_node_witness:
  "\<exists>ast' loc. apply_mutation lodash_ref (Movement sample_movement) sample_ast = Inr ast' \<and>
    updateASTPath lodash_ref (Movement sample_movement) sample_ast (sample_statements @ [''0''])
      = Some loc \<and>
    cwalk ast' loc = Some (ASTNodeRemoveLocDeep (sample_located 1 ''a''))"
proof (rule movement_moves_node [OF lodash_lib_ref sample_ast_wf sample_new_movement
      sample_movement_applicable sample_from_plain sample_first])
  show "isASTNode (Some (sample_located 1 ''a''))" by code_simp
qed

text \<open>A movement is refused, with an assertion error and before anything is
  changed, on every AST that is not the program it was built for; it is let through on
  every AST that is, whatever its locations, comments and tokens.\<close>

theorem movement_only_on_same_program:
  assumes "lodash_lib L"
  shows "MovementM_apply L m ast =
    (if same_program ast (mov_ast m)
     then bind_result (DeletionM_apply L (fstMutation m) ast) (InsertionM_apply L (sndMutation m))
     else Inl AssertionError)"
  by (simp add: MovementM_apply_def lodash_lib.functional_equal_iff [OF assms])

section \<open>The constructor and \<open>fromMutation\<close>\<close>

lemma DeletionM_update_shape:
  assumes "DeletionM_updateASTPath L d ast p = Some q"
  shows "q = p \<or> (\<exists>n < length p. q = p[n := js_toString (js_parseInt (p ! n) - 1)])"
proof -
  let ?n = "length (del_targetNodePath d) - 1"
  have "del_targetNodePath d \<noteq> []"
    using assms by (auto simp: DeletionM_updateASTPath_def)
  then have "length (del_targetNodePath d) \<le> length p \<Longrightarrow> ?n < length p"
    by (cases "del_targetNodePath d") auto
  then show ?thesis
    using assms
    by (auto simp: DeletionM_updateASTPath_def Let_def split: if_splits option.splits jsval.splits)
qed

lemma parseInt_last_of_update:
  assumes "DeletionM_updateASTPath L d ast (to @ [show_int i]) = Some q"
  obtains r z where "q = r @ [show_int z]"
  using DeletionM_update_shape [OF assms]
proof
  assume "\<exists>n<length (to @ [show_int i]).
    q = (to @ [show_int i])[n := js_toString (js_parseInt ((to @ [show_int i]) ! n) - 1)]"
  then obtain n where n: "n < Suc (length to)"
    "q = (to @ [show_int i])[n := js_toString (js_parseInt ((to @ [show_int i]) ! n) - 1)]" by auto
  show thesis
  proof (cases "n = length to")
    case True
    with n show thesis by (intro that [of to "i - 1"]) simp
  next
    case False
    with n show thesis by (intro that) (simp add: list_update_append)
  qed
qed (rule that)

text \<open>\<open>MovementM.fromMutation\<close> undoes the decomposition of a movement: from the
  deletion and the insertion of a movement, it rebuilds that movement.\<close>

theorem fromMutation_rebuilds_movement:
  assumes "lodash_lib L" and "new_MovementM L ast from to (Fin i) = Inr m"
    and "DeletionM_applicable \<lparr>del_targetNodePath = from\<rparr> ast"
    and "plain_path from" and "canonical_path to"
  shows "MovementM_fromMutation L ast (fstMutation m) (sndMutation m) = Inr m"
proof -
  let ?d = "\<lparr>del_targetNodePath = from\<rparr>"
  from assms(2) obtain node q where
    q: "DeletionM_updateASTPath L ?d (ASTNodeRemoveExtraAttributesDeep ast)
        (to @ [js_toString (Fin i)]) = Some q"
    and m: "fstMutation m = ?d" "targetPropertyPath (sndMutation m) = butlast q"
      "insertIndex (sndMutation m) = parseInt_last q"
    by (auto elim: new_MovementM_fields)
  have paths: "DeletionM_updateASTPath L ?d (ASTNodeRemoveExtraAttributesDeep ast) p
      = DeletionM_updateASTPath L ?d ast p" for p
    using assms(3,4) by (intro lodash_lib.DeletionM_paths_stripped [OF assms(1)])
      (auto simp: DeletionM_applicable_def Let_def)
  from q paths have up: "DeletionM_updateASTPath L ?d ast (to @ [show_int i]) = Some q" by simp
  then obtain r z where r: "q = r @ [show_int z]" by (rule parseInt_last_of_update)
  then have "insertion_location (sndMutation m) = q"
    by (simp add: insertion_location_def m parseInt_last_def)
  moreover have "DeletionM_reverseUpdateASTPath L ?d ast q = Some (to @ [show_int i])"
    using lodash_lib.DeletionM_reverses [OF assms(1,3) _ up] assms(5) by simp
  ultimately show ?thesis
    using assms(2) by (simp add: MovementM_fromMutation_def m(1) parseInt_last_def)
qed

section \<open>Ineffective movements\<close>

lemma keys_not_indices:
  "arr_idx ''range'' = None" "arr_idx ''loc'' = None" "arr_idx ''tokens'' = None"
  by code_simp+

text \<open>The constructor means to refuse a movement that changes nothing, but it
  compares the path of the moved node with the path of the array, without the index: moving
  an element of an array to the place just behind itself is accepted, and the movement
  inserts the node where it took it from.\<close>

theorem ineffective_movement_accepted:
  assumes "lodash_lib L" and "cwalk ast d = Some (JArr xs)" and "i < length xs" and "d \<noteq> []"
    and "plain_path d" and "cwalk ast (d @ [idx_key i]) = Some node" and "isASTNode (Some node)"
  shows "\<exists>m. new_MovementM L ast (d @ [idx_key i]) d (Fin (int i + 1)) = Inr m \<and>
    insertion_location (sndMutation m) = fromNodePath m"
proof -
  let ?s = "ASTNodeRemoveExtraAttributesDeep ast" and ?d = "\<lparr>del_targetNodePath = d @ [idx_key i]\<rparr>"
  have "idx_key i \<noteq> k" if "arr_idx k = None" for k using that by auto
  then have plain: "plain_path [idx_key i]" by (simp add: plain_path_def keys_not_indices)
  have arr: "cwalk ?s d = Some (JArr (map ASTNodeRemoveLocDeep xs))"
    using assms by (simp add: cwalk_remove_extra)
  have "cwalk ?s (d @ [idx_key i]) = Some (ASTNodeRemoveLocDeep node)"
    using assms plain by (subst cwalk_remove_extra) (auto simp: plain_path_append)
  then have get: "getASTNodeFromPath L ?s (d @ [idx_key i]) = Some (ASTNodeRemoveLocDeep node)"
    using assms by (simp add: getASTNodeFromPath_def lodash_lib.get_path cwalk_walk)
  have "DeletionM_updateASTPath L ?d ?s (d @ [show_int (int i + 1)])
      = Some (d @ [idx_key i])"
    using lodash_lib.DeletionM_paths_elem(1) [OF assms(1) _ assms(4) arr, of ?d i "int i + 1" "[]"]
    by simp
  then show ?thesis
    using get lodash_lib.equal_paths [OF assms(1)]
    by (simp add: new_MovementM_def Let_def parseInt_last_def insertion_location_def)
qed

end
