(* ===== verification/MutationJson.thy ===== *)
theory MutationJson
  imports Mutations
begin

text \<open>
  Mutations as JSON: what \<open>JSON.stringify\<close> writes for a mutation (its own properties in the
  order the constructors assign them, or the result of its \<open>toJSON\<close>), and \<open>objToMutation\<close>
  (\<open>lib/Mutations/index.ts\<close>), which rebuilds a mutation from a parsed object. The driver
  sends mutation sequences to its client in this form and gets them back.

  The fields of a mutation are typed here. Where \<open>objToMutation\<close> is given an object whose
  fields have other types, the program fails in the constructor or when the mutation is
  first used; the model fails at once, with a type error.
\<close>

section \<open>Writing\<close>

definition json_path :: "path \<Rightarrow> jsval" where
  "json_path p = JArr (map JStr p)"

text \<open>JSON has no infinities and no NaN; they are written as null.\<close>

fun json_num :: "jsnum \<Rightarrow> jsval" where
  "json_num (Fin z) = JNum (Fin z)"
| "json_num _ = JNull"

text \<open>Values that survive \<open>JSON.stringify\<close> and \<open>JSON.parse\<close>: no functions, finite numbers.\<close>

fun is_json :: "jsval \<Rightarrow> bool" where
  "is_json (JNum (Fin z)) = True"
| "is_json (JNum _) = False"
| "is_json (JGen xs) = False"
| "is_json (JArr xs) = list_all is_json xs"
| "is_json (JObj kvs) = list_all (\<lambda>(_, v). is_json v) kvs"
| "is_json _ = True"

definition ReplacementM_toJSON :: "replacementM \<Rightarrow> jsval" where
  [simp]: "ReplacementM_toJSON m = JObj [
     (''mutationType'', JStr ''ReplacementM''),
     (''targetNodePath'', json_path (rep_targetNodePath m)),
     (''newNode'', rep_newNode m)]"

definition MovementM_toJSON :: "movementM \<Rightarrow> jsval" where
  [simp]: "MovementM_toJSON m = JObj [
     (''ast'', ASTNodeRemoveLocDeep (mov_ast m)),
     (''mutationType'', JStr ''MovementM''),
     (''fromNodePath'', json_path (fromNodePath m)),
     (''toPropertyPath'', json_path (toPropertyPath m)),
     (''insertIndex'', json_num (mov_insertIndex m))]"

fun mutation_toJSON :: "mutation \<Rightarrow> jsval" where
  "mutation_toJSON (Insertion m) = JObj [
     (''targetNodePath'', json_path (InsertionM_targetNodePath m)),
     (''targetPropertyPath'', json_path (targetPropertyPath m)),
     (''insertIndex'', json_num (insertIndex m)),
     (''newNode'', newNode m),
     (''mutationType'', JStr ''InsertionM'')]"
| "mutation_toJSON (Deletion m) = JObj [
     (''targetNodePath'', json_path (del_targetNodePath m)),
     (''mutationType'', JStr ''DeletionM'')]"
| "mutation_toJSON (Replacement m) = ReplacementM_toJSON m"
| "mutation_toJSON (Movement m) = MovementM_toJSON m"

section \<open>Reading\<close>

fun path_elems :: "jsval list \<Rightarrow> path result" where
  "path_elems [] = Inr []"
| "path_elems (JStr s # xs) = bind_result (path_elems xs) (\<lambda>p. Inr (s # p))"
| "path_elems (_ # xs) = Inl TypeError"

fun read_path :: "jsval option \<Rightarrow> path result" where
  "read_path (Some (JArr xs)) = path_elems xs"
| "read_path _ = Inl TypeError"

fun read_num :: "jsval option \<Rightarrow> jsnum result" where
  "read_num (Some (JNum n)) = Inr n"
| "read_num _ = Inl TypeError"

fun read_node :: "jsval option \<Rightarrow> jsval result" where
  "read_node (Some v) = Inr v"
| "read_node None = Inl TypeError"

definition objToMutation :: "lodash \<Rightarrow> jsval \<Rightarrow> mutation result" where
  "objToMutation L obj =
     bind_result (js_field (Some obj) ''mutationType'') (\<lambda>ty.
     if ty \<in> Some ` JStr ` set allMutationTypes then
       if ty = Some (JStr ''InsertionM'') then
         bind_result (read_path (js_prop obj ''targetPropertyPath'')) (\<lambda>p.
         bind_result (read_num (js_prop obj ''insertIndex'')) (\<lambda>i.
         bind_result (read_node (js_prop obj ''newNode'')) (\<lambda>n.
           Inr (Insertion \<lparr>targetPropertyPath = p, insertIndex = i, newNode = n\<rparr>))))
       else if ty = Some (JStr ''ReplacementM'') then
         bind_result (read_path (js_prop obj ''targetNodePath'')) (\<lambda>p.
         bind_result (read_node (js_prop obj ''newNode'')) (\<lambda>n.
           Inr (Replacement \<lparr>rep_targetNodePath = p, rep_newNode = n\<rparr>)))
       else if ty = Some (JStr ''DeletionM'') then
         bind_result (read_path (js_prop obj ''targetNodePath'')) (\<lambda>p.
           Inr (Deletion \<lparr>del_targetNodePath = p\<rparr>))
       else
         bind_result (read_node (js_prop obj ''ast'')) (\<lambda>a.
         bind_result (read_path (js_prop obj ''fromNodePath'')) (\<lambda>from.
         bind_result (read_path (js_prop obj ''toPropertyPath'')) (\<lambda>to.
         bind_result (read_num (js_prop obj ''insertIndex'')) (\<lambda>i.
         bind_result (new_MovementM L a from to i) (\<lambda>m. Inr (Movement m))))))
     else Inl GenericError)"

section \<open>The round trip\<close>

lemma path_elems_map [simp]: "path_elems (map JStr p) = Inr p"
  by (induction p) auto

lemma read_json_path [simp]: "read_path (Some (json_path p)) = Inr p"
  by (simp add: json_path_def)

lemma read_json_num [simp]: "read_num (Some (json_num (Fin z))) = Inr (Fin z)"
  by simp

text \<open>A movement comes back with its AST stripped of all locations, and otherwise as it was.\<close>

lemma remove_extra_remove_loc:
  "ASTNodeRemoveExtraAttributesDeep (ASTNodeRemoveLocDeep (ASTNodeRemoveExtraAttributesDeep v))
   = ASTNodeRemoveLocDeep (ASTNodeRemoveExtraAttributesDeep v)"
  by (cases v) (auto simp: ASTNodeRemoveExtraAttributesDeep_def filter_map comp_def
      case_prod_unfold conj_commute)

context lodash_lib
begin

lemma DeletionM_update_cong:
  assumes "(\<exists>xs. getASTNodeFromPath L a (butlast (del_targetNodePath d)) = Some (JArr xs))
    = (\<exists>xs. getASTNodeFromPath L b (butlast (del_targetNodePath d)) = Some (JArr xs))"
  shows "DeletionM_updateASTPath L d a q = DeletionM_updateASTPath L d b q"
  using assms by (auto simp: DeletionM_updateASTPath_def Let_def split: option.splits jsval.splits)

lemma array_after_remove_loc:
  assumes "plain_path p" and "p \<noteq> []"
  shows "(\<exists>xs. getASTNodeFromPath L (ASTNodeRemoveLocDeep a) p = Some (JArr xs))
    = (\<exists>xs. getASTNodeFromPath L a p = Some (JArr xs))"
proof -
  have arr: "(\<exists>xs. getASTNodeFromPath L b p = Some (JArr xs)) = (\<exists>v. cwalk b p = Some v \<and> is_array v)" for b
    using get_container [of p "JArr xs" b for xs] assms(2)
    by (auto simp: getASTNodeFromPath_def is_array_iff)
  show ?thesis unfolding arr using assms(1) by (auto simp: cwalk_remove_loc plain_path_def)
qed

lemma Movement_roundtrip:
  assumes new: "new_MovementM L ast from to (Fin i) = Inr m"
    and p: "plain_path from" "length from \<ge> 2"
    and node: "isASTNode (cwalk ast from)"
  shows "objToMutation L (mutation_toJSON (Movement m))
    = Inr (Movement (m\<lparr>mov_ast := ASTNodeRemoveLocDeep (mov_ast m)\<rparr>))"
proof -
  let ?s = "ASTNodeRemoveExtraAttributesDeep ast"
  let ?d = "\<lparr>del_targetNodePath = from\<rparr>"
  obtain x where x: "cwalk ast from = Some x" "is_container x"
    using node by (cases "cwalk ast from") (auto intro: isASTNode_container)
  have ne: "from \<noteq> []" using p(2) by auto
  have b: "plain_path (butlast from)" "butlast from \<noteq> []"
    using plain_path_butlast [OF p(1)] p(2) by (cases "from" rule: rev_cases; auto)+
  have s: "cwalk ?s from = Some (ASTNodeRemoveLocDeep x)"
    using x p ne by (simp add: cwalk_remove_extra)
  have s': "cwalk (ASTNodeRemoveLocDeep ?s) from = Some (ASTNodeRemoveLocDeep x)"
    using s p by (simp add: cwalk_remove_loc plain_path_def)
  have get: "getASTNodeFromPath L ?s from = Some (ASTNodeRemoveLocDeep x)"
    "getASTNodeFromPath L (ASTNodeRemoveLocDeep ?s) from = Some (ASTNodeRemoveLocDeep x)"
    using s s' ne x(2) by (simp_all add: getASTNodeFromPath_def get_container)
  have up: "DeletionM_updateASTPath L ?d (ASTNodeRemoveLocDeep ?s) q
      = DeletionM_updateASTPath L ?d ?s q" for q
    using array_after_remove_loc [OF b] by (intro DeletionM_update_cong) simp
  from new obtain newTarget where
    nt: "DeletionM_updateASTPath L ?d ?s (to @ [js_toString (Fin i)]) = Some newTarget"
      "\<not> lequal L from (butlast newTarget)"
    and m: "m = \<lparr>mov_ast = ?s, fromNodePath = from, toPropertyPath = to,
       mov_insertIndex = Fin i, fstMutation = ?d,
       sndMutation = \<lparr>targetPropertyPath = butlast newTarget,
         insertIndex = parseInt_last newTarget, newNode = ASTNodeRemoveLocDeep x\<rparr>\<rparr>"
    using get(1) by (auto elim!: new_MovementM_fields)
  have "new_MovementM L (ASTNodeRemoveLocDeep ?s) from to (Fin i)
      = Inr (m\<lparr>mov_ast := ASTNodeRemoveLocDeep ?s\<rparr>)"
    using nt get(2) by (simp add: new_MovementM_def Let_def remove_extra_remove_loc up m)
  then show ?thesis
    by (simp add: objToMutation_def allMutationTypes_def m)
qed

end

end
