(* ===== verification/ModifiedLocations.thy ===== *)
theory ModifiedLocations
  imports MutationSequence
begin

text \<open>
  The source locations a mutation modifies (\<open>modifiedLocations\<close> of \<open>Mutation.ts\<close>,
  \<open>InsertionM.ts\<close>, \<open>MovementM.ts\<close>) and those a sequence modifies
  (\<open>modifiedLocations\<close> of \<open>MutationSequence.ts\<close>). A location is the \<open>loc\<close> value of a
  node; nodes inserted by earlier mutations have none, and get the locations recorded for
  their path. The record is a Map keyed by \<open>JSON.stringify\<close> of the path, an injective
  rendering of a list of strings, so here the path itself is the key.
\<close>

datatype locations = Unknown | Locations "jsval list"

type_synonym nodepathLocMap = "(path \<times> jsval list) list"

definition loc_or_recorded :: "jsval option \<Rightarrow> nodepathLocMap \<Rightarrow> path \<Rightarrow> locations result" where
  "loc_or_recorded node locMap p =
     bind_result (js_field node ''loc'') (\<lambda>loc.
       case loc of
         Some l \<Rightarrow> Inr (Locations [l])
       | None \<Rightarrow> Inr (case map_of locMap p of Some ls \<Rightarrow> Locations ls | None \<Rightarrow> Unknown))"

definition Mutation_modifiedLocations ::
  "lodash \<Rightarrow> path \<Rightarrow> jsval \<Rightarrow> nodepathLocMap \<Rightarrow> locations result" where
  "Mutation_modifiedLocations L target ast locMap =
     loc_or_recorded (getASTNodeFromPath L ast target) locMap target"

text \<open>Without an enclosing node the lookup is that of the path null, which is undefined.\<close>

definition InsertionM_modifiedLocations ::
  "lodash \<Rightarrow> insertionM \<Rightarrow> jsval \<Rightarrow> nodepathLocMap \<Rightarrow> locations result" where
  "InsertionM_modifiedLocations L m ast locMap =
     loc_or_recorded
       (case findASTParentNode L ast (targetPropertyPath m) of
          None \<Rightarrow> None
        | Some p \<Rightarrow> getASTNodeFromPath L ast p)
       locMap (InsertionM_targetNodePath m)"

text \<open>The record as seen after the deletion: keys are carried across, a later entry for the
  same key replaces an earlier one.\<close>

fun carry_record :: "lodash \<Rightarrow> deletionM \<Rightarrow> jsval \<Rightarrow> nodepathLocMap \<Rightarrow> nodepathLocMap \<Rightarrow> nodepathLocMap" where
  "carry_record L d ast [] acc = acc"
| "carry_record L d ast ((p, ls) # rest) acc =
     (case DeletionM_updateASTPath L d ast p of
        None \<Rightarrow> carry_record L d ast rest acc
      | Some p' \<Rightarrow> carry_record L d ast rest (AList.update p' ls acc))"

fun nonempty_locations :: "locations \<Rightarrow> bool" where
  "nonempty_locations Unknown = True"
| "nonempty_locations (Locations ls) = (ls \<noteq> [])"

definition MovementM_modifiedLocations ::
  "lodash \<Rightarrow> (jsval, jsval) lodash_coll \<Rightarrow> movementM \<Rightarrow> jsval \<Rightarrow> nodepathLocMap \<Rightarrow> locations result" where
  "MovementM_modifiedLocations L A m ast locMap =
     bind_result (Mutation_modifiedLocations L (del_targetNodePath (fstMutation m)) ast locMap)
       (\<lambda>fstLocs.
     bind_result (DeletionM_apply L (fstMutation m) ast) (\<lambda>astAfterFst.
     bind_result (InsertionM_modifiedLocations L (sndMutation m) astAfterFst
         (carry_record L (fstMutation m) ast locMap [])) (\<lambda>sndLocs.
     bind_result (js_assert (nonempty_locations fstLocs \<and> nonempty_locations sndLocs)) (\<lambda>_.
       Inr (case (fstLocs, sndLocs) of
          (Locations ls, Locations ls') \<Rightarrow> Locations (lunionWith A ls ls' (lequalVal L))
        | _ \<Rightarrow> Unknown)))))"

fun mutation_modifiedLocations ::
  "lodash \<Rightarrow> (jsval, jsval) lodash_coll \<Rightarrow> mutation \<Rightarrow> jsval \<Rightarrow> nodepathLocMap \<Rightarrow> locations result" where
  "mutation_modifiedLocations L A (Insertion m) ast locMap = InsertionM_modifiedLocations L m ast locMap"
| "mutation_modifiedLocations L A (Movement m) ast locMap = MovementM_modifiedLocations L A m ast locMap"
| "mutation_modifiedLocations L A m ast locMap =
     Mutation_modifiedLocations L (targetNodePath m) ast locMap"

section \<open>The locations of a sequence\<close>

type_synonym loc_state = "locations list \<times> nodepathLocMap"

definition modifiedLocations_visitor ::
  "lodash \<Rightarrow> (jsval, jsval) lodash_coll \<Rightarrow> loc_state ast_visitor" where
  "modifiedLocations_visitor L A ast justApplied nextMutation idx s =
     (case (nextMutation, s) of
        (None, _) \<Rightarrow> Inr (s, True)
      | (Some m, (locs, locMap)) \<Rightarrow>
          bind_result (mutation_modifiedLocations L A m ast locMap) (\<lambda>loc.
            case loc of
              Unknown \<Rightarrow> Inr ((locs @ [loc], locMap), False)
            | Locations ls \<Rightarrow>
                bind_result (modifiedNodePath L m ast) (\<lambda>nodePaths.
                  Inr ((locs @ [loc], fold (\<lambda>p. AList.update p ls) nodePaths locMap), True))))"

fun all_locations :: "locations list \<Rightarrow> jsval list" where
  "all_locations [] = []"
| "all_locations (Locations ls # rest) = ls @ all_locations rest"
| "all_locations (Unknown # rest) = all_locations rest"

definition modifiedLocations ::
  "lodash \<Rightarrow> (jsval, jsval) lodash_coll \<Rightarrow> mutationSequence \<Rightarrow> jsval \<Rightarrow> locations result" where
  "modifiedLocations L A ms originalAST =
     bind_result (mutateAST_visit L (modifiedLocations_visitor L A) ms originalAST ([], []))
       (\<lambda>(_, locs, _).
       Inr (if locs \<noteq> [] \<and> last locs = Unknown then Unknown
            else Locations (luniqWith A (all_locations locs) (lequalVal L))))"

section \<open>Reported locations are real\<close>

text \<open>\<open>located ast l\<close>: some value inside \<open>ast\<close> carries the location \<open>l\<close>. Without
  movements, every recorded location is one of some AST of the sequence.\<close>

definition located :: "jsval \<Rightarrow> jsval \<Rightarrow> bool" where
  "located ast l = (\<exists>p v. walk ast p = Some v \<and> js_prop v ''loc'' = Some l)"

definition recorded_in :: "(jsval \<Rightarrow> bool) \<Rightarrow> nodepathLocMap \<Rightarrow> bool" where
  "recorded_in P locMap = (\<forall>(p, ls) \<in> set locMap. \<forall>l \<in> set ls. P l)"

fun locations_in :: "(jsval \<Rightarrow> bool) \<Rightarrow> locations \<Rightarrow> bool" where
  "locations_in P Unknown = True"
| "locations_in P (Locations ls) = (\<forall>l \<in> set ls. P l)"

lemma loc_or_recorded_in:
  assumes "loc_or_recorded node locMap p = Inr r" and "recorded_in P locMap"
    and "\<And>v l. node = Some v \<Longrightarrow> js_prop v ''loc'' = Some l \<Longrightarrow> P l"
  shows "locations_in P r"
proof -
  from assms(1) obtain v where v: "node = Some v"
    and r: "r = (case js_prop v ''loc'' of Some l \<Rightarrow> Locations [l]
      | None \<Rightarrow> (case map_of locMap p of Some ls \<Rightarrow> Locations ls | None \<Rightarrow> Unknown))"
    by (fastforce simp: loc_or_recorded_def dest: js_field_Some split: option.splits)
  show ?thesis
  proof (cases "js_prop v ''loc''")
    case None
    show ?thesis
    proof (cases "map_of locMap p")
      case (Some ls)
      then have "(p, ls) \<in> set locMap" by (rule map_of_SomeD)
      with assms(2) None Some show ?thesis by (auto simp: r recorded_in_def)
    qed (simp add: r None)
  next
    case (Some l)
    with assms(3) [OF v] show ?thesis by (simp add: r)
  qed
qed

lemma AList_update_set: "set (AList.update k v al) \<subseteq> insert (k, v) (set al)"
  by (induction al) auto

lemma recorded_in_update:
  "recorded_in P locMap \<Longrightarrow> \<forall>l \<in> set ls. P l \<Longrightarrow> recorded_in P (fold (\<lambda>p. AList.update p ls) ps locMap)"
proof (induction ps arbitrary: locMap)
  case (Cons p ps)
  then have "recorded_in P (AList.update p ls locMap)"
    using AList_update_set [of p ls locMap] unfolding recorded_in_def by fastforce
  with Cons show ?case by simp
qed simp

text \<open>A movement is not looked at: its second half reads an AST between two mutations.\<close>

fun is_movement :: "mutation \<Rightarrow> bool" where
  "is_movement (Movement m) = True"
| "is_movement _ = False"

lemma find_parent_from_nonempty: "find_parent_from L ast p i = Some q \<Longrightarrow> p \<noteq> [] \<Longrightarrow> q \<noteq> []"
  by (drule find_parent_from_Some) auto

context lodash_lib
begin

lemma mutation_locations_in:
  assumes "mutation_modifiedLocations L A m ast locMap = Inr r" and "\<not> is_movement m"
    and "recorded_in P locMap" and "\<And>l. located ast l \<Longrightarrow> P l" and "targetNodePath m \<noteq> []"
  shows "locations_in P r"
proof -
  have get: "P l" if "lget L ast p = Some v" "p \<noteq> []" "js_prop v ''loc'' = Some l" for p v l
    using that assms(4) by (auto simp: get_path located_def)
  show ?thesis
  proof (cases m)
    case (Insertion i)
    with assms(5) have "targetPropertyPath i \<noteq> []" by (auto simp: InsertionM_targetNodePath_def)
    with Insertion assms get show ?thesis
      by (auto simp: InsertionM_modifiedLocations_def findASTParentNode_def getASTNodeFromPath_def
          split: option.splits intro: loc_or_recorded_in dest: find_parent_from_nonempty
          elim!: loc_or_recorded_in)
  next
    case (Movement v)
    with assms(2) show ?thesis by simp
  qed (use assms get in \<open>auto simp: Mutation_modifiedLocations_def getASTNodeFromPath_def
      elim!: loc_or_recorded_in\<close>)
qed

lemma locations_visitor_step:
  assumes "modifiedLocations_visitor L A a j next i (locs, locMap) = Inr ((locs', locMap'), go)"
    and "\<forall>r \<in> set locs. locations_in P r" and "recorded_in P locMap"
    and "\<And>l. located a l \<Longrightarrow> P l"
    and "\<And>m. next = Some m \<Longrightarrow> \<not> is_movement m \<and> targetNodePath m \<noteq> []"
  shows "(\<forall>r \<in> set locs'. locations_in P r) \<and> recorded_in P locMap'"
proof (cases "next")
  case None
  with assms(1-3) show ?thesis by (simp add: modifiedLocations_visitor_def)
next
  case (Some m)
  with assms(1) obtain r where r: "mutation_modifiedLocations L A m a locMap = Inr r"
    by (auto simp: modifiedLocations_visitor_def)
  with assms(3-5) Some have P: "locations_in P r" by (blast intro: mutation_locations_in)
  with assms(1-3) Some r show ?thesis
    by (cases r) (auto simp: modifiedLocations_visitor_def recorded_in_update)
qed

lemma mutation_at_0_set: "mutation_at_0 ms = Some m \<Longrightarrow> m \<in> set ms"
  by (cases ms) auto

lemma locations_loop:
  "mutateAST_loop L (modifiedLocations_visitor L A) ms i ast (locs, locMap)
     = Inr (ast', locs', locMap') \<Longrightarrow>
   reduce_asts (apply_mutation L) ms ast = Inr asts \<Longrightarrow>
   \<forall>a \<in> set asts. \<forall>l. located a l \<longrightarrow> P l \<Longrightarrow>
   \<forall>m \<in> set ms. \<not> is_movement m \<and> targetNodePath m \<noteq> [] \<Longrightarrow>
   \<forall>r \<in> set locs. locations_in P r \<Longrightarrow> recorded_in P locMap \<Longrightarrow>
   \<forall>r \<in> set locs'. locations_in P r"
proof (induction ms arbitrary: i ast asts locs locMap)
  case (Cons m ms)
  let ?v = "modifiedLocations_visitor L A"
  from Cons.prems(2) obtain ast1 as where ast1: "apply_mutation L m ast = Inr ast1"
    "reduce_asts (apply_mutation L) ms ast1 = Inr as" "asts = ast # as" by auto
  then have mem: "ast1 \<in> set asts"
    using reduce_asts_apply_all [OF ast1(2)] by (cases as) auto
  from Cons.prems(1) ast1(1) obtain l1 m1 go where
    vis: "?v ast1 (Some m) (mutation_at_0 ms) i (locs, locMap) = Inr ((l1, m1), go)"
    and rest: "(if go then mutateAST_loop L ?v ms (i + 1) ast1 (l1, m1) else Inr (ast1, l1, m1))
      = Inr (ast', locs', locMap')"
    by auto
  have step: "(\<forall>r \<in> set l1. locations_in P r) \<and> recorded_in P m1"
    using Cons.prems(3-6) mem
    by (intro locations_visitor_step [OF vis]) (auto dest: mutation_at_0_set)
  show ?case
  proof (cases go)
    case True
    with rest Cons.IH [of "i + 1" ast1 l1 m1 as] step ast1 Cons.prems(3,4) show ?thesis by simp
  qed (use rest step in simp)
qed simp

lemma modifiedLocations_real:
  assumes "lodash_arrays A" and "modifiedLocations L A ms ast = Inr (Locations ls)"
    and "reduce_asts (apply_mutation L) ms ast = Inr asts"
    and "\<forall>m \<in> set ms. \<not> is_movement m \<and> targetNodePath m \<noteq> []" and "l \<in> set ls"
  shows "\<exists>a \<in> set asts. located a l"
proof -
  let ?v = "modifiedLocations_visitor L A" and ?P = "\<lambda>l. \<exists>a \<in> set asts. located a l"
  from assms(3) have mem: "ast \<in> set asts"
    using reduce_asts_apply_all [OF assms(3)] by (cases asts) auto
  from assms(2) obtain l0 m0 go ast' locs locMap where
    vis: "?v ast None (mutation_at_0 ms) (-1) ([], []) = Inr ((l0, m0), go)"
    and rest: "(if go then mutateAST_loop L ?v ms 0 ast (l0, m0) else Inr (ast, l0, m0))
      = Inr (ast', locs, locMap)"
    and ls: "ls = luniqWith A (all_locations locs) (lequalVal L)"
    by (auto simp: modifiedLocations_def mutateAST_visit_def split: if_splits)
  have step: "(\<forall>r \<in> set l0. locations_in ?P r) \<and> recorded_in ?P m0"
    using assms(4) mem
    by (intro locations_visitor_step [OF vis]) (auto simp: recorded_in_def dest: mutation_at_0_set)
  have locs: "\<forall>r \<in> set locs. locations_in ?P r"
  proof (cases go)
    case True
    with rest step assms(3,4) show ?thesis
      by (intro locations_loop [of A ms 0 ast l0 m0 ast' locs locMap]) auto
  qed (use rest step in simp)
  have "x \<in> set (all_locations locs) \<Longrightarrow> \<forall>r \<in> set locs. locations_in ?P r \<Longrightarrow> ?P x" for x
    by (induction locs rule: all_locations.induct) auto
  moreover have "l \<in> set (all_locations locs)"
    using assms(5) lodash_arrays.uniqWith_subset [OF assms(1)] by (auto simp: ls)
  ultimately show ?thesis using locs by blast
qed

end

end
