(* ===== verification/MutationProperties.thy ===== *)
theory MutationProperties
  imports MutationJson ModifiedLocations MovementProperties
begin

text \<open>
  The properties of single mutations: what the comparison of programs decides, the JSON round
  trip, and the locations reported as modified.
\<close>

section \<open>Comparing programs\<close>

text \<open>Property C20. The customizer with which lodash compares two ASTs calls itself on stripped
  copies of the nodes; what it computes is equality up to comments, tokens and locations at
  every depth, with properties in any order.\<close>

theorem functional_equal_decides_same_program:
  assumes "lodash_lib L"
  shows "functional_equal L a b = same_program a b"
  using lodash_lib.functional_equal_iff [OF assms] .

theorem functional_equal_decides_same_program_witness:
  "functional_equal lodash_ref (sample_located 1 ''a'') (sample_call ''a'')
   = same_program (sample_located 1 ''a'') (sample_call ''a'')"
  by (rule functional_equal_decides_same_program [OF lodash_lib_ref])

text \<open>The stripped copies the program keeps, without locations or without tokens,
  are the same program as the original.\<close>

theorem stripped_copies_are_same_program:
  assumes "wf_val ast"
  shows "same_program ast (ASTNodeRemoveLocDeep ast) \<and>
    same_program ast (ASTNodeRemoveExtraAttributesDeep ast)"
  using same_program_remove_loc [OF assms] same_program_remove_extra [OF assms] by simp

section \<open>JSON\<close>

text \<open>An insertion with a finite index, a deletion and a replacement come back
  from JSON exactly as they were.\<close>

theorem edit_json_roundtrip:
  shows "objToMutation L (mutation_toJSON
      (Insertion \<lparr>targetPropertyPath = p, insertIndex = Fin i, newNode = n\<rparr>))
    = Inr (Insertion \<lparr>targetPropertyPath = p, insertIndex = Fin i, newNode = n\<rparr>) \<and>
   objToMutation L (mutation_toJSON (Deletion d)) = Inr (Deletion d) \<and>
   objToMutation L (mutation_toJSON (Replacement r)) = Inr (Replacement r)"
  by (simp add: objToMutation_def allMutationTypes_def)

text \<open>A movement that the constructor built comes back from JSON with the same
  paths, index, deletion and insertion; only its AST has lost the remaining locations.\<close>

theorem movement_json_roundtrip:
  assumes "lodash_lib L" and "new_MovementM L ast from to (Fin i) = Inr m"
    and "plain_path from" and "length from \<ge> 2" and "isASTNode (cwalk ast from)"
  shows "objToMutation L (mutation_toJSON (Movement m))
    = Inr (Movement (m\<lparr>mov_ast := ASTNodeRemoveLocDeep (mov_ast m)\<rparr>))"
  using lodash_lib.Movement_roundtrip [OF assms] .

text \<open>An object whose type is not one of the four mutation types is refused.\<close>

theorem unknown_mutation_type_refused:
  assumes "map_of kvs ''mutationType'' \<notin> Some ` JStr ` set allMutationTypes"
  shows "objToMutation L (JObj kvs) = Inl GenericError"
  using assms by (simp add: objToMutation_def)

section \<open>Modified locations\<close>

text \<open>Every location that \<open>modifiedLocations\<close> reports for a sequence of
  insertions, replacements and deletions is the location of a value in one of the ASTs the
  sequence goes through.\<close>

theorem modifiedLocations_are_real:
  assumes "lodash_lib L" and "lodash_arrays A"
    and "modifiedLocations L A ms ast = Inr (Locations ls)"
    and "reduce_asts (apply_mutation L) ms ast = Inr asts"
    and "\<forall>m \<in> set ms. \<not> is_movement m \<and> targetNodePath m \<noteq> []"
  shows "\<forall>l \<in> set ls. \<exists>a \<in> set asts. located a l"
  using lodash_lib.modifiedLocations_real [OF assms(1-5)] by blast

end
