(* ===== verification/CodeLocation.thy ===== *)
theory CodeLocation
  imports AstUtils
begin

text \<open>
  Source positions and ranges: the comparison \<open>cmpLineColumn\<close> and the predicates built on it
  (\<open>locationDisjoint_Above\<close>, \<open>locationDisjoint_Below\<close>, \<open>locationDisjoint\<close>,
  \<open>locationIntersect\<close> of \<open>lib/utils/index.ts\<close>, \<open>locInclude\<close> of \<open>lib/LocInclude.ts\<close>), and
  the copies the test-case executor has of them (\<open>tc/src/exec.ts\<close>). Positions are pairs of
  numbers of the language, so a column can be \<open>Infinity\<close>, as the specifier parser makes it.
\<close>

record lineColumn =
  line :: jsnum
  column :: jsnum

record codeRange =
  range_start :: lineColumn
  range_end :: lineColumn

definition cmpLineColumn :: "lineColumn \<Rightarrow> lineColumn \<Rightarrow> jsnum" where
  "cmpLineColumn a b =
     (if num_eq (line a) (line b) then column a - column b else line a - line b)"

definition locationDisjoint_Above :: "codeRange \<Rightarrow> codeRange \<Rightarrow> bool" where
  "locationDisjoint_Above loc abv =
     (cmpLineColumn (range_start loc) (range_start abv) < 0 \<and>
      cmpLineColumn (range_end loc) (range_start abv) < 0)"

definition locationDisjoint_Below :: "codeRange \<Rightarrow> codeRange \<Rightarrow> bool" where
  "locationDisjoint_Below loc blw =
     (cmpLineColumn (range_start loc) (range_end blw) > 0 \<and>
      cmpLineColumn (range_end loc) (range_end blw) > 0)"

definition locationDisjoint :: "codeRange \<Rightarrow> codeRange \<Rightarrow> bool" where
  "locationDisjoint a b = (locationDisjoint_Above a b \<or> locationDisjoint_Below a b)"

definition locationIntersect :: "codeRange \<Rightarrow> codeRange \<Rightarrow> bool" where
  "locationIntersect a b =
     ((cmpLineColumn (range_start a) (range_start b) \<ge> 0 \<and>
       cmpLineColumn (range_start a) (range_end b) \<le> 0) \<or>
      (cmpLineColumn (range_start b) (range_start a) \<ge> 0 \<and>
       cmpLineColumn (range_start b) (range_end a) \<le> 0))"

definition locInclude :: "codeRange \<Rightarrow> codeRange \<Rightarrow> bool" where
  "locInclude loc inLoc =
     (cmpLineColumn (range_start loc) (range_start inLoc) \<ge> 0 \<and>
      cmpLineColumn (range_end loc) (range_end inLoc) \<le> 0)"

section \<open>The test-case executor\<close>

definition LineColumnComparator :: "lineColumn \<Rightarrow> lineColumn \<Rightarrow> jsnum" where
  "LineColumnComparator firstEl secondEl =
     (if \<not> num_eq (line firstEl) (line secondEl) then line firstEl - line secondEl
      else column firstEl - column secondEl)"

definition tc_locationIntersect :: "codeRange \<Rightarrow> codeRange \<Rightarrow> bool" where
  "tc_locationIntersect a b =
     ((LineColumnComparator (range_start a) (range_start b) \<ge> 0 \<and>
       LineColumnComparator (range_start a) (range_end b) \<le> 0) \<or>
      (LineColumnComparator (range_start b) (range_start a) \<ge> 0 \<and>
       LineColumnComparator (range_start b) (range_end a) \<le> 0))"

section \<open>The order of positions\<close>

text \<open>
  A position of a source file has a finite line and a finite or infinite column.
  \<open>pos_le\<close> is the reading order: by line, then by column.
\<close>

definition is_position :: "lineColumn \<Rightarrow> bool" where
  "is_position p = ((case line p of Fin _ \<Rightarrow> True | _ \<Rightarrow> False) \<and> column p \<noteq> NaN)"

definition pos_less :: "lineColumn \<Rightarrow> lineColumn \<Rightarrow> bool" where
  "pos_less a b = (line a < line b \<or> (line a = line b \<and> column a < column b))"

definition pos_le :: "lineColumn \<Rightarrow> lineColumn \<Rightarrow> bool" where
  "pos_le a b = (line a < line b \<or> (line a = line b \<and> column a \<le> column b))"

text \<open>Two infinite columns on one line cannot be compared: their difference is NaN.\<close>

definition comparable :: "lineColumn \<Rightarrow> lineColumn \<Rightarrow> bool" where
  "comparable a b = (is_position a \<and> is_position b \<and>
     (line a = line b \<longrightarrow> (\<exists>c. column a = Fin c) \<or> (\<exists>c. column b = Fin c)))"

lemma comparable_sym: "comparable a b = comparable b a"
  by (auto simp: comparable_def)

lemma cmp_reads_order:
  assumes "comparable a b"
  shows "cmpLineColumn a b < 0 \<longleftrightarrow> pos_less a b"
    and "cmpLineColumn a b \<le> 0 \<longleftrightarrow> pos_le a b"
    and "0 < cmpLineColumn a b \<longleftrightarrow> pos_less b a"
    and "0 \<le> cmpLineColumn a b \<longleftrightarrow> pos_le b a"
  using assms
  by (cases "line a"; cases "line b"; cases "column a"; cases "column b";
      auto simp: comparable_def is_position_def cmpLineColumn_def num_eq_def pos_less_def pos_le_def
        less_eq_jsnum_def)+

lemma pos_le_linear: "is_position a \<Longrightarrow> is_position b \<Longrightarrow> \<not> pos_le a b \<longleftrightarrow> pos_less b a"
  by (cases "line a"; cases "line b"; cases "column a"; cases "column b";
      auto simp: is_position_def pos_less_def pos_le_def less_eq_jsnum_def)

lemma pos_le_trans: "pos_le a b \<Longrightarrow> pos_le b c \<Longrightarrow> pos_le a c"
  by (auto simp: pos_le_def dest: jsnum_less_trans jsnum_le_trans)

lemma pos_le_refl [simp]: "is_position a \<Longrightarrow> pos_le a a"
  by (cases "column a") (auto simp: is_position_def pos_le_def less_eq_jsnum_def)

lemma pos_less_le: "pos_less a b \<Longrightarrow> pos_le a b"
  by (auto simp: pos_le_def pos_less_def less_eq_jsnum_def dest: jsnum_less_not_NaN)

text \<open>A finite position; a range of finite positions in order, as the parser gives it to
  nodes.\<close>

definition finite_pos :: "lineColumn \<Rightarrow> bool" where
  "finite_pos p = (\<exists>l c. line p = Fin l \<and> column p = Fin c)"

definition node_range :: "codeRange \<Rightarrow> bool" where
  "node_range r = (finite_pos (range_start r) \<and> finite_pos (range_end r) \<and>
     pos_le (range_start r) (range_end r))"

text \<open>A range of interest: it starts at a finite position and may end at an infinite column.\<close>

definition interest_range :: "codeRange \<Rightarrow> bool" where
  "interest_range r = (finite_pos (range_start r) \<and> is_position (range_end r) \<and>
     pos_le (range_start r) (range_end r))"

lemma finite_comparable:
  "finite_pos a \<Longrightarrow> is_position b \<Longrightarrow> comparable a b"
  "finite_pos a \<Longrightarrow> is_position b \<Longrightarrow> comparable b a"
  "finite_pos a \<Longrightarrow> is_position a"
  by (auto simp: finite_pos_def comparable_def is_position_def)

lemma node_range_interest: "node_range r \<Longrightarrow> interest_range r"
  by (auto simp: node_range_def interest_range_def finite_comparable)

lemma range_cmp:
  assumes "node_range a" and "interest_range b"
  shows "comparable (range_start a) (range_start b)" "comparable (range_start a) (range_end b)"
    "comparable (range_end a) (range_start b)" "comparable (range_end a) (range_end b)"
    "comparable (range_start b) (range_start a)" "comparable (range_start b) (range_end a)"
    "comparable (range_end b) (range_start a)" "comparable (range_end b) (range_end a)"
  using assms by (auto simp: node_range_def interest_range_def intro: finite_comparable)

lemma intersect_iff_pos:
  assumes "node_range a" and "interest_range b"
  shows "locationIntersect a b \<longleftrightarrow>
    pos_le (range_start a) (range_end b) \<and> pos_le (range_start b) (range_end a)"
proof -
  note c = cmp_reads_order [OF range_cmp(1) [OF assms]] cmp_reads_order [OF range_cmp(2) [OF assms]]
    cmp_reads_order [OF range_cmp(5) [OF assms]] cmp_reads_order [OF range_cmp(6) [OF assms]]
  have "is_position (range_start a)" "is_position (range_start b)"
    using assms by (auto simp: node_range_def interest_range_def finite_comparable)
  then have "pos_le (range_start a) (range_start b) \<or> pos_le (range_start b) (range_start a)"
    using pos_le_linear pos_less_le by blast
  moreover have "pos_le (range_start a) (range_end a)" "pos_le (range_start b) (range_end b)"
    using assms by (auto simp: node_range_def interest_range_def)
  ultimately show ?thesis
    unfolding locationIntersect_def c by (blast intro: pos_le_trans)
qed

lemma disjoint_iff_pos:
  assumes "node_range a" and "interest_range b"
  shows "locationDisjoint a b \<longleftrightarrow>
    pos_less (range_end a) (range_start b) \<or> pos_less (range_end b) (range_start a)"
proof -
  note c = cmp_reads_order [OF range_cmp(1) [OF assms]] cmp_reads_order [OF range_cmp(2) [OF assms]]
    cmp_reads_order [OF range_cmp(3) [OF assms]] cmp_reads_order [OF range_cmp(4) [OF assms]]
  have p: "is_position (range_start a)" "is_position (range_start b)"
    "is_position (range_end a)" "is_position (range_end b)"
    using assms by (auto simp: node_range_def interest_range_def finite_comparable)
  have o: "pos_le (range_start a) (range_end a)" "pos_le (range_start b) (range_end b)"
    using assms by (auto simp: node_range_def interest_range_def)
  show ?thesis
    unfolding locationDisjoint_def locationDisjoint_Above_def locationDisjoint_Below_def c
    using o pos_le_linear [OF p(1) p(3)] pos_le_linear [OF p(1,2)] pos_le_linear [OF p(4,3)]
      pos_le_linear [OF p(2,3)] pos_le_linear [OF p(2,1)] pos_le_linear [OF p(3,4)]
      pos_le_linear [OF p(1,4)]
    by (meson pos_le_trans)
qed

lemma include_iff_pos:
  assumes "node_range a" and "interest_range b"
  shows "locInclude a b \<longleftrightarrow>
    pos_le (range_start b) (range_start a) \<and> pos_le (range_end a) (range_end b)"
  using cmp_reads_order [OF range_cmp(1) [OF assms]] cmp_reads_order [OF range_cmp(4) [OF assms]]
  by (simp add: locInclude_def)

text \<open>Two ranges meet exactly when they share a position.\<close>

lemma intersect_iff_shared:
  assumes "node_range a" and "interest_range b"
  shows "locationIntersect a b \<longleftrightarrow>
    (\<exists>p. is_position p \<and> pos_le (range_start a) p \<and> pos_le p (range_end a) \<and>
       pos_le (range_start b) p \<and> pos_le p (range_end b))"
proof
  assume "locationIntersect a b"
  with intersect_iff_pos [OF assms] have
    i: "pos_le (range_start a) (range_end b)" "pos_le (range_start b) (range_end a)" by auto
  have p: "is_position (range_start a)" "is_position (range_start b)"
    "pos_le (range_start a) (range_end a)" "pos_le (range_start b) (range_end b)"
    using assms by (auto simp: node_range_def interest_range_def finite_comparable)
  consider "pos_le (range_start a) (range_start b)" | "pos_le (range_start b) (range_start a)"
    using p(1,2) pos_le_linear pos_less_le by blast
  then show "\<exists>p. is_position p \<and> pos_le (range_start a) p \<and> pos_le p (range_end a) \<and>
       pos_le (range_start b) p \<and> pos_le p (range_end b)"
    by cases (use i p in \<open>auto intro: exI [of _ "range_start b"] exI [of _ "range_start a"]\<close>)
next
  assume "\<exists>p. is_position p \<and> pos_le (range_start a) p \<and> pos_le p (range_end a) \<and>
       pos_le (range_start b) p \<and> pos_le p (range_end b)"
  then show "locationIntersect a b"
    using intersect_iff_pos [OF assms] by (blast intro: pos_le_trans)
qed

text \<open>The copy of the test executor is the same test.\<close>

lemma tc_locationIntersect_eq: "tc_locationIntersect a b = locationIntersect a b"
  by (simp add: tc_locationIntersect_def locationIntersect_def LineColumnComparator_def
      cmpLineColumn_def)

end
