(* ===== verification/InterestedSpace.thy ===== *)
theory InterestedSpace
  imports CodeLocation
begin

text \<open>
  The spaces of interest a user can restrict the repair to
  (\<open>lib/InterestedSpace/InterestedSpace.ts\<close>): a source range, a node type, a contract and
  possibly functions of it, and conjunctions of these. A space answers two questions about a
  node: is it in the exact scope (may it be mutated), and is it interesting (may it contain
  something in the exact scope, so that the traversal descends into it).
\<close>

datatype interestedSpace =
    ConjunctInterestedSpace "interestedSpace list"
  | InterestedLocation codeRange
  | InterestedNodeType string
  | InterestedContract string "string list option"

text \<open>The constructor of \<open>InterestedContract\<close> refuses an empty list of function names.\<close>

definition new_InterestedContract :: "string \<Rightarrow> string list option \<Rightarrow> interestedSpace result" where
  "new_InterestedContract contract functionNames =
     bind_result (js_assert (functionNames \<noteq> Some [])) (\<lambda>_.
       Inr (InterestedContract contract functionNames))"

section \<open>Locations of nodes\<close>

text \<open>Reading a range off a node. A coordinate that is not a number compares like NaN.\<close>

fun to_num :: "jsval option \<Rightarrow> jsnum" where
  "to_num (Some (JNum n)) = n"
| "to_num _ = NaN"

definition read_position :: "jsval option \<Rightarrow> lineColumn result" where
  "read_position v =
     bind_result (js_field v ''line'') (\<lambda>l.
     bind_result (js_field v ''column'') (\<lambda>c. Inr \<lparr>line = to_num l, column = to_num c\<rparr>))"

definition read_range :: "jsval \<Rightarrow> codeRange result" where
  "read_range v =
     bind_result (js_field (Some v) ''start'') (\<lambda>s.
     bind_result (js_field (Some v) ''end'') (\<lambda>e.
     bind_result (read_position s) (\<lambda>s'.
     bind_result (read_position e) (\<lambda>e'. Inr \<lparr>range_start = s', range_end = e'\<rparr>))))"

text \<open>\<open>astNode.loc !== undefined && f(astNode.loc, location)\<close>\<close>

definition loc_satisfies :: "(codeRange \<Rightarrow> bool) \<Rightarrow> jsval \<Rightarrow> bool result" where
  "loc_satisfies f astNode =
     bind_result (js_field (Some astNode) ''loc'') (\<lambda>loc.
       case loc of
         None \<Rightarrow> Inr False
       | Some l \<Rightarrow> bind_result (read_range l) (\<lambda>r. Inr (f r)))"

section \<open>Contracts\<close>

text \<open>
  The visitor \<open>visitPath\<close> that both methods of \<open>InterestedContract\<close> run along the path: they
  differ only in the answer at the contract definition itself (\<open>atContract\<close>). Each decision
  is thrown out of the visit by an exception.
\<close>

definition contract_visitor ::
  "string \<Rightarrow> string list option \<Rightarrow> bool \<Rightarrow> jsval option \<Rightarrow> bool \<Rightarrow> bool \<times> bool result" where
  "contract_visitor contract functionNames atContract nd rst =
     (case js_field nd ''type'' of
        Inl e \<Rightarrow> (rst, Inl e)
      | Inr ty \<Rightarrow>
          let name_ok = (\<lambda>s. nd \<noteq> None \<and> js_prop (the nd) ''name'' = Some (JStr s)) in
          if ty = Some (JStr ''ContractDefinition'') then
            if \<not> name_ok contract then (False, Inl EarlyExitFromVIsitorException)
            else if functionNames = None then (True, Inl EarlyExitFromVIsitorException)
            else (atContract, Inr True)
          else if ty = Some (JStr ''FunctionDefinition'') then
            (case functionNames of
               None \<Rightarrow> (rst, Inl AssertionError)
             | Some fs \<Rightarrow> (list_ex name_ok fs, Inl EarlyExitFromVIsitorException))
          else (rst, Inr True))"

text \<open>\<open>try { objPathVisit(...) } catch (...) { }\<close>: every exception is swallowed, and the answer
  is the value of \<open>rst\<close> at that moment.\<close>

definition contract_scope ::
  "string \<Rightarrow> string list option \<Rightarrow> bool \<Rightarrow> path \<Rightarrow> jsval \<Rightarrow> bool" where
  "contract_scope contract functionNames atContract nodePath wholeFileAST =
     fst (objPathVisit (Some wholeFileAST) nodePath
       (contract_visitor contract functionNames atContract) True)"

section \<open>The two questions\<close>

fun isNodeInterested :: "interestedSpace \<Rightarrow> jsval \<Rightarrow> path \<Rightarrow> jsval \<Rightarrow> bool result" where
  "isNodeInterested (ConjunctInterestedSpace spaces) astNode nodePath ast =
     every_result (\<lambda>x. isNodeInterested x astNode nodePath ast) spaces"
| "isNodeInterested (InterestedLocation location) astNode nodePath ast =
     loc_satisfies (\<lambda>r. locationIntersect r location) astNode"
| "isNodeInterested (InterestedNodeType nodeType) astNode nodePath ast =
     Inr (isASTNode (Some astNode))"
| "isNodeInterested (InterestedContract contract functionNames) astNode nodePath ast =
     Inr (contract_scope contract functionNames True nodePath ast)"

fun isNodeInExactScope :: "interestedSpace \<Rightarrow> jsval \<Rightarrow> path \<Rightarrow> jsval \<Rightarrow> bool result" where
  "isNodeInExactScope (ConjunctInterestedSpace spaces) astNode nodePath ast =
     every_result (\<lambda>x. isNodeInExactScope x astNode nodePath ast) spaces"
| "isNodeInExactScope (InterestedLocation location) astNode nodePath ast =
     loc_satisfies (\<lambda>r. locInclude r location) astNode"
| "isNodeInExactScope (InterestedNodeType nodeType) astNode nodePath ast =
     bind_result (js_field (Some astNode) ''type'') (\<lambda>ty. Inr (ty = Some (JStr nodeType)))"
| "isNodeInExactScope (InterestedContract contract functionNames) astNode nodePath ast =
     Inr (contract_scope contract functionNames False nodePath ast)"

section \<open>What the contract visit answers\<close>

text \<open>
  The specification: the definitions a path passes through, in order, and the decision made
  on them: the first contract of another name refuses; the first contract accepts when no
  function is named; otherwise the first function decides by its name.
\<close>

datatype definition_on_path = ContractNamed "jsval option" | FunctionNamed "jsval option"

fun definitions_on_path :: "jsval \<Rightarrow> path \<Rightarrow> definition_on_path list" where
  "definitions_on_path v p =
     (if js_prop v ''type'' = Some (JStr ''ContractDefinition'') then [ContractNamed (js_prop v ''name'')]
      else if js_prop v ''type'' = Some (JStr ''FunctionDefinition'') then [FunctionNamed (js_prop v ''name'')]
      else []) @
     (case p of
        [] \<Rightarrow> []
      | k # ks \<Rightarrow> (case js_prop v k of None \<Rightarrow> [] | Some w \<Rightarrow> definitions_on_path w ks))"

declare definitions_on_path.simps [simp del]

fun contract_decision ::
  "string \<Rightarrow> string list option \<Rightarrow> bool \<Rightarrow> bool \<Rightarrow> definition_on_path list \<Rightarrow> bool" where
  "contract_decision contract fs atContract rst [] = rst"
| "contract_decision contract fs atContract rst (ContractNamed n # ds) =
     (if n \<noteq> Some (JStr contract) then False
      else if fs = None then True
      else contract_decision contract fs atContract atContract ds)"
| "contract_decision contract fs atContract rst (FunctionNamed n # ds) =
     (case fs of None \<Rightarrow> rst | Some names \<Rightarrow> n \<in> (\<lambda>s. Some (JStr s)) ` set names)"

text \<open>One step of the visit.\<close>

lemma contract_visitor_on:
  assumes "v \<noteq> JNull"
  shows "contract_visitor c fs atC (Some v) rst =
    (if js_prop v ''type'' = Some (JStr ''ContractDefinition'') then
       (if js_prop v ''name'' \<noteq> Some (JStr c) then (False, Inl EarlyExitFromVIsitorException)
        else if fs = None then (True, Inl EarlyExitFromVIsitorException) else (atC, Inr True))
     else if js_prop v ''type'' = Some (JStr ''FunctionDefinition'') then
       (case fs of None \<Rightarrow> (rst, Inl AssertionError)
        | Some names \<Rightarrow> (js_prop v ''name'' \<in> (\<lambda>s. Some (JStr s)) ` set names,
            Inl EarlyExitFromVIsitorException))
     else (rst, Inr True))"
proof -
  have "js_field (Some v) ''type'' = Inr (js_prop v ''type'')" using assms by (cases v) auto
  then show ?thesis
    by (auto simp: contract_visitor_def Let_def list_ex_iff split: option.splits)
qed

lemma contract_visitor_undefined:
  "contract_visitor c fs atC None rst = (rst, Inl TypeError)"
  "contract_visitor c fs atC (Some JNull) rst = (rst, Inl TypeError)"
  by (simp_all add: contract_visitor_def)

lemma contract_visit_decides:
  "fst (objPathVisit (Some v) p (contract_visitor c fs atC) rst)
   = contract_decision c fs atC rst (definitions_on_path v p)"
proof (induction p arbitrary: v rst)
  case Nil
  show ?case
  proof (cases "v = JNull")
    case True
    then show ?thesis
      by (simp add: objPathVisit.simps [of _ "[]"] contract_visitor_undefined
          definitions_on_path.simps [of _ "[]"])
  next
    case False
    show ?thesis
      unfolding objPathVisit.simps [of _ "[]"] definitions_on_path.simps [of _ "[]"]
        contract_visitor_on [OF False]
      by (simp split: option.split)
  qed
next
  case (Cons k ks)
  have stop: "fst (objPathVisit None q (contract_visitor c fs atC) r) = r" for q r
    unfolding objPathVisit.simps [of None] contract_visitor_undefined by simp
  show ?case
  proof (cases "v = JNull")
    case True
    then show ?thesis
      by (simp add: objPathVisit.simps [of _ "k # ks"] contract_visitor_undefined
          definitions_on_path.simps [of _ "k # ks"])
  next
    case False
    then have f: "js_field (Some v) k = Inr (js_prop v k)" by (cases v) auto
    let ?rest = "case js_prop v k of None \<Rightarrow> [] | Some w \<Rightarrow> definitions_on_path w ks"
    have rest: "fst (objPathVisit (js_prop v k) ks (contract_visitor c fs atC) r)
        = contract_decision c fs atC r ?rest" for r
      by (cases "js_prop v k") (simp_all add: stop Cons.IH)
    show ?thesis
    proof (cases fs)
      case None
      show ?thesis
        unfolding objPathVisit.simps [of _ "k # ks"] definitions_on_path.simps [of _ "k # ks"]
          contract_visitor_on [OF False] None
        by (simp add: f rest [unfolded None])
    next
      case (Some names)
      show ?thesis
        unfolding objPathVisit.simps [of _ "k # ks"] definitions_on_path.simps [of _ "k # ks"]
          contract_visitor_on [OF False] Some
        by (simp add: f rest [unfolded Some])
    qed
  qed
qed

lemma contract_scope_decision:
  "contract_scope c fs atC p ast = contract_decision c fs atC True (definitions_on_path ast p)"
  by (simp add: contract_scope_def contract_visit_decides)

lemma contract_decision_mono:
  "contract_decision c fs False rst ds \<Longrightarrow> (rst \<longrightarrow> rst') \<Longrightarrow> contract_decision c fs True rst' ds"
proof (induction ds arbitrary: rst rst')
  case (Cons d ds)
  then show ?case by (cases d) (auto split: if_splits option.splits)
qed simp

lemma definitions_on_path_append:
  "\<exists>ds. definitions_on_path v (p @ q) = definitions_on_path v p @ ds"
proof (induction p arbitrary: v)
  case Nil
  show ?case by (simp add: definitions_on_path.simps [of v "[]"] definitions_on_path.simps [of v q])
next
  case (Cons k ks)
  then show ?case
    by (cases "js_prop v k")
      (auto simp: definitions_on_path.simps [of v "k # ks"] definitions_on_path.simps [of v "k # ks @ q"])
qed

lemma contract_decision_prefix:
  "contract_decision c fs True True (ds @ es) \<Longrightarrow> contract_decision c fs True True ds"
proof (induction ds)
  case (Cons d ds)
  then show ?case by (cases d) (auto split: if_splits option.splits)
qed simp

text \<open>What holds a node in the exact scope is interesting, for every contract space.\<close>

lemma contract_exact_interested:
  "contract_scope c fs False p ast \<Longrightarrow> contract_scope c fs True p ast"
  by (auto simp: contract_scope_decision intro: contract_decision_mono)

lemma contract_interested_prefix:
  "contract_scope c fs True (p @ q) ast \<Longrightarrow> contract_scope c fs True p ast"
  using definitions_on_path_append [of ast p q] contract_decision_prefix
  by (auto simp: contract_scope_decision)

section \<open>The exact scope is interesting\<close>

text \<open>Nodes as the parser makes them: an optional location is a proper range; the ranges of
  interest in a space are proper.\<close>

definition proper_loc :: "jsval \<Rightarrow> bool" where
  "proper_loc node = (case js_prop node ''loc'' of
     None \<Rightarrow> True | Some l \<Rightarrow> (case read_range l of Inl _ \<Rightarrow> False | Inr r \<Rightarrow> node_range r))"

fun proper_space :: "interestedSpace \<Rightarrow> bool" where
  "proper_space (ConjunctInterestedSpace spaces) = list_all proper_space spaces"
| "proper_space (InterestedLocation r) = interest_range r"
| "proper_space _ = True"

lemma include_intersect:
  "node_range a \<Longrightarrow> interest_range b \<Longrightarrow> locInclude a b \<Longrightarrow> locationIntersect a b"
  by (auto simp: include_iff_pos intersect_iff_pos)
    (auto simp: node_range_def interest_range_def intro: pos_le_trans)

lemma exact_scope_interested:
  "isNodeInExactScope s node p ast = Inr True \<Longrightarrow> isASTNode (Some node) \<Longrightarrow> proper_loc node \<Longrightarrow>
   proper_space s \<Longrightarrow> isNodeInterested s node p ast = Inr True"
proof (induction s)
  case (ConjunctInterestedSpace spaces)
  then show ?case by (auto simp: every_result_True list_all_iff)
next
  case (InterestedLocation r)
  from InterestedLocation.prems(2) obtain kvs where node: "node = JObj kvs" by (cases node) auto
  with InterestedLocation show ?case
    by (auto simp: loc_satisfies_def proper_loc_def include_intersect split: option.splits sum.splits)
qed (auto simp: contract_exact_interested)

end
