(* ===== verification/SpecifierParser.thy ===== *)
theory SpecifierParser
  imports InterestedSpace
begin

text \<open>
  The parser of the specifiers of interest
  (\<open>lib/InterestedSpaceSpecifierParser.ts\<close>): specifiers separated by semicolons, each a
  contract (\<open>C\<close>, \<open>C.*\<close>, \<open>C.f\<close>), a node type (\<open>TYPE:T\<close>, \<open>TYPE:C.f-T\<close>) or a source range
  (\<open>LOC:l,c-l,c\<close>, the columns optional).
\<close>

section \<open>String functions of the language\<close>

fun js_split :: "char \<Rightarrow> string \<Rightarrow> string list" where
  "js_split c [] = [[]]"
| "js_split c (x # xs) =
     (if x = c then [] # js_split c xs
      else (x # hd (js_split c xs)) # tl (js_split c xs))"

definition js_trim :: "string \<Rightarrow> string" where
  "js_trim s = rev (dropWhile is_space (rev (dropWhile is_space s)))"

definition js_startsWith :: "string \<Rightarrow> string \<Rightarrow> bool" where
  "js_startsWith s p = (take (length p) s = p)"

section \<open>The parser\<close>

definition begin_nodeTypeSpecifier :: string where
  "begin_nodeTypeSpecifier = ''TYPE:''"

definition begin_locationalSpecifier :: string where
  "begin_locationalSpecifier = ''LOC:''"

definition processContractSpecifier :: "string \<Rightarrow> interestedSpace result" where
  "processContractSpecifier specifier =
     (let arr = js_split (CHR ''.'') (js_trim specifier) in
      if length arr = 1 \<or> arr ! 1 = ''*'' then new_InterestedContract (arr ! 0) None
      else
        let functionName = (if arr ! 1 \<noteq> ''(fallback)'' then arr ! 1 else []) in
        new_InterestedContract (arr ! 0) (Some [functionName]))"

definition processNodeTypeSpecifier :: "string \<Rightarrow> interestedSpace result" where
  "processNodeTypeSpecifier specifier =
     (let parts = js_split (CHR ''-'')
        (drop (length begin_nodeTypeSpecifier) (js_trim specifier)) in
      bind_result (js_assert (length parts \<ge> 1 \<and> length parts \<le> 2)) (\<lambda>_.
        let interestedNodeType = InterestedNodeType (parts ! (length parts - 1)) in
        if length parts = 2 then
          bind_result (processContractSpecifier (parts ! 0)) (\<lambda>interestedContract.
            Inr (ConjunctInterestedSpace [interestedContract, interestedNodeType]))
        else Inr interestedNodeType))"

text \<open>\<open>const [line, col] = s.split(',')\<close>: without a comma, \<open>col\<close> is undefined and the column is
  the given default.\<close>

definition parse_line_column :: "string \<Rightarrow> jsnum \<Rightarrow> lineColumn" where
  "parse_line_column s default_col =
     (let parts = js_split (CHR '','') s in
      \<lparr>line = js_parseInt (parts ! 0),
       column = (if length parts \<ge> 2 then js_parseInt (parts ! 1) else default_col)\<rparr>)"

text \<open>Without a dash the second half is undefined, and splitting it throws.\<close>

definition processLocationalSpecifier :: "string \<Rightarrow> interestedSpace result" where
  "processLocationalSpecifier specifier =
     (let parts = map js_trim (js_split (CHR ''-'')
        (drop (length begin_locationalSpecifier) specifier)) in
      if length parts < 2 then Inl TypeError
      else Inr (InterestedLocation
        \<lparr>range_start = parse_line_column (parts ! 0) (Fin 0),
         range_end = parse_line_column (parts ! 1) PosInf\<rparr>))"

definition process_specifier :: "string \<Rightarrow> interestedSpace result" where
  "process_specifier specifier =
     (if js_startsWith specifier begin_nodeTypeSpecifier then processNodeTypeSpecifier specifier
      else if js_startsWith specifier begin_locationalSpecifier
      then processLocationalSpecifier specifier
      else processContractSpecifier specifier)"

text \<open>The loop over the specifiers skips empty ones.\<close>

fun process_specifiers :: "string list \<Rightarrow> interestedSpace list result" where
  "process_specifiers [] = Inr []"
| "process_specifiers (s # rest) =
     (if s = [] then process_specifiers rest
      else bind_result (process_specifier s) (\<lambda>space.
        bind_result (process_specifiers rest) (\<lambda>spaces. Inr (space # spaces))))"

definition InterestedSpaceSpecifierParser :: "string option \<Rightarrow> interestedSpace list option result" where
  "InterestedSpaceSpecifierParser specifier =
     (case specifier of
        None \<Rightarrow> Inr None
      | Some s \<Rightarrow> bind_result (process_specifiers (map js_trim (js_split (CHR '';'') s)))
          (\<lambda>spaces. Inr (Some spaces)))"

section \<open>Splitting\<close>

lemma js_split_not_Nil [simp]: "js_split c s \<noteq> []"
  by (cases s) auto

lemma js_split_none: "c \<notin> set s \<Longrightarrow> js_split c s = [s]"
  by (induction s) auto

lemma js_split_sep: "js_split c (s @ c # t) = js_split c s @ js_split c t"
proof (induction s)
  case (Cons x s)
  obtain w ws where "js_split c s = w # ws" by (cases "js_split c s") auto
  with Cons show ?case by simp
qed simp

lemma js_split_cons: "c \<notin> set s \<Longrightarrow> js_split c (s @ c # t) = s # js_split c t"
  by (simp add: js_split_sep js_split_none)

lemma process_specifiers_append:
  "process_specifiers (xs @ ys) =
     bind_result (process_specifiers xs) (\<lambda>a. bind_result (process_specifiers ys) (\<lambda>b. Inr (a @ b)))"
proof (induction xs)
  case Nil
  then show ?case by (cases "process_specifiers ys") auto
next
  case (Cons s xs)
  show ?case
  proof (cases "process_specifier s")
    case (Inr space)
    with Cons show ?thesis
      by (cases "process_specifiers xs"; cases "process_specifiers ys") auto
  qed (use Cons in auto)
qed

text \<open>A string without white space at its ends is its own trimming.\<close>

definition no_space :: "string \<Rightarrow> bool" where
  "no_space s = list_all (\<lambda>c. \<not> is_space c) s"

lemma js_trim_no_space: "no_space s \<Longrightarrow> js_trim s = s"
proof -
  have id: "dropWhile is_space t = t" if "no_space t" for t
    using that by (cases t) (auto simp: no_space_def)
  assume "no_space s"
  moreover then have "no_space (rev s)" by (simp add: no_space_def)
  ultimately show ?thesis by (simp add: js_trim_def id)
qed

lemma no_space_append [simp]: "no_space (s @ t) = (no_space s \<and> no_space t)"
  "no_space (c # t) = (\<not> is_space c \<and> no_space t)" "no_space []"
  by (auto simp: no_space_def)

lemma show_int_nat_chars:
  assumes "0 \<le> z" and "c \<in> set (show_int z)"
  shows "\<exists>d<10. c = digit_char d"
  using assms show_nat_digits [of c "nat z"] by (simp add: show_int_def)

lemma show_int_no_space_nat: "0 \<le> z \<Longrightarrow> no_space (show_int z)"
  by (auto simp: no_space_def list_all_iff dest!: show_int_nat_chars simp: digit_char_not_special)

lemma show_int_not_special:
  assumes "0 \<le> z" and "(of_char c :: nat) < 48 \<or> 57 < (of_char c :: nat)"
  shows "c \<notin> set (show_int z)"
  using assms show_int_nat_chars digit_char_neqI by blast

end
