(* ===== verification/InterestProperties.thy ===== *)
theory InterestProperties
  imports SpecifierParser Sample
begin

text \<open>
  The properties of source ranges, of the spaces of interest and of their specifiers.
\<close>

section \<open>Source ranges\<close>

definition sample_range :: "int \<Rightarrow> codeRange" where
  "sample_range n = \<lparr>range_start = \<lparr>line = Fin n, column = Fin 4\<rparr>,
     range_end = \<lparr>line = Fin n, column = Fin 8\<rparr>\<rparr>"

definition sample_interest :: codeRange where
  "sample_interest = \<lparr>range_start = \<lparr>line = Fin 1, column = Fin 0\<rparr>,
     range_end = \<lparr>line = Fin 2, column = PosInf\<rparr>\<rparr>"

lemma sample_ranges: "node_range (sample_range n)" "interest_range sample_interest"
  by (simp_all add: node_range_def interest_range_def finite_pos_def is_position_def pos_le_def
      sample_range_def sample_interest_def)

text \<open>Property C28. The range of a node meets a range of interest exactly when some position
  lies in both; in particular the two one-sided tests of \<open>locationIntersect\<close> miss no
  case.\<close>

theorem locationIntersect_shares_position:
  assumes "node_range a" and "interest_range b"
  shows "locationIntersect a b \<longleftrightarrow>
    (\<exists>p. is_position p \<and> pos_le (range_start a) p \<and> pos_le p (range_end a) \<and>
       pos_le (range_start b) p \<and> pos_le p (range_end b))"
  by (rule intersect_iff_shared [OF assms])

theorem locationIntersect_shares_position_witness:
  "locationIntersect (sample_range 2) sample_interest \<longleftrightarrow>
    (\<exists>p. is_position p \<and> pos_le (range_start (sample_range 2)) p \<and>
       pos_le p (range_end (sample_range 2)) \<and>
       pos_le (range_start sample_interest) p \<and> pos_le p (range_end sample_interest))"
  by (rule locationIntersect_shares_position [OF sample_ranges])

text \<open>\<open>locationDisjoint\<close> is the negation of \<open>locationIntersect\<close>.\<close>

theorem locationDisjoint_not_intersect:
  assumes "node_range a" and "interest_range b"
  shows "locationDisjoint a b = (\<not> locationIntersect a b)"
proof -
  have p: "is_position (range_start a)" "is_position (range_start b)"
    "is_position (range_end a)" "is_position (range_end b)"
    using assms by (auto simp: node_range_def interest_range_def finite_comparable)
  show ?thesis
    unfolding disjoint_iff_pos [OF assms] intersect_iff_pos [OF assms]
    using pos_le_linear [OF p(1,4)] pos_le_linear [OF p(2,3)] by blast
qed

section \<open>Spaces of interest\<close>

text \<open>Property C27. The exact scope lies inside the interesting part: a node with a proper
  location (or none) that a space of interest has in its exact scope is interesting to it,
  so the traversal that prunes uninteresting nodes never prunes a node that may be
  mutated.\<close>

theorem exact_scope_is_interesting:
  assumes "isNodeInExactScope s node p ast = Inr True" and "isASTNode (Some node)"
    and "proper_loc node" and "proper_space s"
  shows "isNodeInterested s node p ast = Inr True"
  using exact_scope_interested [OF assms] .

definition sample_space :: interestedSpace where
  "sample_space = ConjunctInterestedSpace [InterestedContract ''C'' (Some [''f'']),
     InterestedNodeType ''ExpressionStatement'', InterestedLocation sample_interest]"

theorem exact_scope_is_interesting_witness:
  "isNodeInterested sample_space (sample_located 2 ''b'') (sample_statements @ [''1'']) sample_ast
   = Inr True"
proof (rule exact_scope_is_interesting)
  show "isNodeInExactScope sample_space (sample_located 2 ''b'') (sample_statements @ [''1''])
    sample_ast = Inr True" by code_simp
  show "isASTNode (Some (sample_located 2 ''b''))" by code_simp
  have "read_range (sample_loc 2) = Inr (sample_range 2)" by code_simp
  moreover have "js_prop (sample_located 2 ''b'') ''loc'' = Some (sample_loc 2)" by code_simp
  ultimately show "proper_loc (sample_located 2 ''b'')"
    using sample_ranges(1) by (simp add: proper_loc_def)
  show "proper_space sample_space" using sample_ranges(2) by (simp add: sample_space_def)
qed

text \<open>Property C31. What a contract space decides about a path, in its exact scope and about
  interest, is the decision of the specification on the definitions the path passes
  through: a contract of another name refuses, the named contract accepts when no function
  is named, and otherwise the first function on the path accepts exactly when its name is
  one of those given. The exceptions with which the visitor leaves the path never escape.\<close>

theorem contract_space_decides:
  "isNodeInterested (InterestedContract c fs) node p ast
     = Inr (contract_decision c fs True True (definitions_on_path ast p)) \<and>
   isNodeInExactScope (InterestedContract c fs) node p ast
     = Inr (contract_decision c fs False True (definitions_on_path ast p))"
  by (simp add: contract_scope_decision)

text \<open>Interest in a contract or function is inherited upwards: when a path is
  interesting, each of its prefixes is, so the traversal reaches it.\<close>

theorem contract_interest_inherited:
  assumes "isNodeInterested (InterestedContract c fs) node (p @ q) ast = Inr True"
  shows "isNodeInterested (InterestedContract c fs) node' p ast = Inr True"
  using assms contract_interested_prefix by simp

section \<open>Specifiers\<close>

text \<open>Specifiers compose: a semicolon between two specifier lists parses to the
  spaces of the first followed by the spaces of the second, and fails as the first one that
  fails.\<close>

theorem specifiers_compose:
  "InterestedSpaceSpecifierParser (Some (s @ '';'' @ t)) =
     bind_result (InterestedSpaceSpecifierParser (Some s)) (\<lambda>a.
     bind_result (InterestedSpaceSpecifierParser (Some t)) (\<lambda>b.
       Inr (Some (the a @ the b))))"
  by (cases "process_specifiers (map js_trim (js_split (CHR '';'') s))";
      cases "process_specifiers (map js_trim (js_split (CHR '';'') t))")
    (simp_all add: InterestedSpaceSpecifierParser_def js_split_sep process_specifiers_append)

definition print_position :: "int \<Rightarrow> int \<Rightarrow> string" where
  "print_position l c = show_int l @ '','' @ show_int c"

lemma parse_print_position:
  assumes "0 \<le> l" and "0 \<le> c"
  shows "parse_line_column (print_position l c) d = \<lparr>line = Fin l, column = Fin c\<rparr>"
  using js_split_cons [of "CHR '',''" "show_int l" "show_int c"] assms
  by (simp add: parse_line_column_def print_position_def show_int_not_special js_split_none)

lemma print_position_plain:
  assumes "0 \<le> l" and "0 \<le> c"
  shows "no_space (print_position l c)" "CHR ''-'' \<notin> set (print_position l c)"
    "CHR '';'' \<notin> set (print_position l c)"
  using assms
  by (simp_all add: print_position_def show_int_no_space_nat show_int_not_special is_space_def)

text \<open>Property C30. A range printed as \<open>LOC:l,c-l,c\<close> parses back to exactly that range, for
  all non-negative lines and columns.\<close>

theorem location_specifier_roundtrip:
  assumes "0 \<le> l1" and "0 \<le> c1" and "0 \<le> l2" and "0 \<le> c2"
  shows "InterestedSpaceSpecifierParser
      (Some (''LOC:'' @ print_position l1 c1 @ ''-'' @ print_position l2 c2))
    = Inr (Some [InterestedLocation \<lparr>range_start = \<lparr>line = Fin l1, column = Fin c1\<rparr>,
        range_end = \<lparr>line = Fin l2, column = Fin c2\<rparr>\<rparr>])"
proof -
  let ?a = "print_position l1 c1" and ?b = "print_position l2 c2"
  let ?s = "''LOC:'' @ ?a @ ''-'' @ ?b"
  note a = print_position_plain [OF assms(1,2)] and b = print_position_plain [OF assms(3,4)]
  have s: "no_space ?s" using a(1) b(1) by (simp add: is_space_def)
  have "CHR '';'' \<notin> set ?s" using a(3) b(3) by simp
  from js_split_none [OF this] have split: "map js_trim (js_split (CHR '';'') ?s) = [?s]"
    by (simp only: list.map js_trim_no_space [OF s])
  have half: "js_split (CHR ''-'') (?a @ CHR ''-'' # ?b) = [?a, ?b]"
    using a(2) b(2) by (simp add: js_split_cons js_split_none)
  have "process_specifier ?s = processLocationalSpecifier ?s"
    by (simp add: process_specifier_def js_startsWith_def begin_nodeTypeSpecifier_def
        begin_locationalSpecifier_def)
  also have "\<dots> = Inr (InterestedLocation \<lparr>range_start = \<lparr>line = Fin l1, column = Fin c1\<rparr>,
        range_end = \<lparr>line = Fin l2, column = Fin c2\<rparr>\<rparr>)"
    using half a(1) b(1) assms
    by (simp add: processLocationalSpecifier_def begin_locationalSpecifier_def js_trim_no_space
        parse_print_position)
  finally have "process_specifiers [?s] = Inr [InterestedLocation
      \<lparr>range_start = \<lparr>line = Fin l1, column = Fin c1\<rparr>, range_end = \<lparr>line = Fin l2, column = Fin c2\<rparr>\<rparr>]"
    by simp
  then show ?thesis
    by (simp only: InterestedSpaceSpecifierParser_def split option.case bind_result.simps)
qed

theorem location_specifier_roundtrip_witness:
  "InterestedSpaceSpecifierParser (Some ''LOC:3,0-17,25'')
    = Inr (Some [InterestedLocation \<lparr>range_start = \<lparr>line = Fin 3, column = Fin 0\<rparr>,
        range_end = \<lparr>line = Fin 17, column = Fin 25\<rparr>\<rparr>])"
proof -
  have "''LOC:'' @ print_position 3 0 @ ''-'' @ print_position 17 25 = ''LOC:3,0-17,25''"
    by code_simp
  with location_specifier_roundtrip [of 3 0 17 25] show ?thesis by simp
qed

text \<open>A contract and function name joined by a dot parse to the space of that
  function, when the names have no white space and none of the separators, the first one does
  not look like another kind of specifier, and the second is not one of the reserved
  ones; the reserved function name for all functions gives the whole contract, the one for the
  fallback function the empty function name.\<close>

theorem contract_specifier_roundtrip:
  assumes "no_space c" and "no_space f" and "CHR ''.'' \<notin> set c \<union> set f"
    and "CHR '';'' \<notin> set c \<union> set f"
    and "\<not> js_startsWith (c @ ''.'' @ f) ''TYPE:''" and "\<not> js_startsWith (c @ ''.'' @ f) ''LOC:''"
  shows "InterestedSpaceSpecifierParser (Some (c @ ''.'' @ f)) = Inr (Some [InterestedContract c
    (if f = ''*'' then None else if f = ''(fallback)'' then Some [[]] else Some [f])])"
proof -
  let ?s = "c @ ''.'' @ f"
  have s: "no_space ?s" using assms(1,2) by (simp add: is_space_def)
  have "CHR '';'' \<notin> set ?s" using assms(4) by auto
  from js_split_none [OF this] have split: "map js_trim (js_split (CHR '';'') ?s) = [?s]"
    by (simp only: list.map js_trim_no_space [OF s])
  have arr: "js_split (CHR ''.'') ?s = [c, f]"
    using assms(3) js_split_cons [of "CHR ''.''" c f] by (simp add: js_split_none)
  have "process_specifier ?s = processContractSpecifier ?s"
    using assms(5,6)
    by (simp only: process_specifier_def begin_nodeTypeSpecifier_def
        begin_locationalSpecifier_def if_False)
  also have "\<dots> = Inr (InterestedContract c
      (if f = ''*'' then None else if f = ''(fallback)'' then Some [[]] else Some [f]))"
    unfolding processContractSpecifier_def js_trim_no_space [OF s] arr
    by (simp add: new_InterestedContract_def)
  finally have "process_specifiers [?s] = Inr [InterestedContract c
      (if f = ''*'' then None else if f = ''(fallback)'' then Some [[]] else Some [f])]"
    by simp
  then show ?thesis
    by (simp only: InterestedSpaceSpecifierParser_def split option.case bind_result.simps)
qed

end
