(* ===== verification/FaultSpaces.thy ===== *)
theory FaultSpaces
  imports InterestedSpace
begin

text \<open>
  Fault spaces: the paths of the nodes that may be mutated. The traversal
  \<open>visitWithPath\<close> and \<open>generateFaultSpace\<close> (\<open>lib/utils/index.ts\<close>), the pairing of fault
  spaces with their nodes (\<open>lib/FaultSpace.ts\<close>), and the filter \<open>deletableFaultSpace\<close> with
  \<open>astNodeContainsNonEmptyBlock\<close>. A fault space has the one field \<open>nodePath\<close>, so it is a path
  here.
\<close>

section \<open>The traversal\<close>

text \<open>
  \<open>visitWithPath\<close> goes through arrays by index and through nodes by property, calling the
  visitor for the type of a node before its properties (an answer of false prunes) and its
  \<open>:exit\<close> function after them. Both work on captured variables and may throw. Values that are
  neither arrays nor nodes are left alone.
\<close>

type_synonym 's enter_fn = "jsval \<Rightarrow> path \<Rightarrow> 's \<Rightarrow> ('s \<times> bool) result"
type_synonym 's exit_fn = "jsval \<Rightarrow> path \<Rightarrow> 's \<Rightarrow> 's result"

fun visitWithPath :: "'s enter_fn \<Rightarrow> 's exit_fn \<Rightarrow> jsval \<Rightarrow> path \<Rightarrow> 's \<Rightarrow> 's result"
  and visit_elems :: "'s enter_fn \<Rightarrow> 's exit_fn \<Rightarrow> nat \<Rightarrow> jsval list \<Rightarrow> path \<Rightarrow> 's \<Rightarrow> 's result"
  and visit_props :: "'s enter_fn \<Rightarrow> 's exit_fn \<Rightarrow> (string \<times> jsval) list \<Rightarrow> path \<Rightarrow> 's \<Rightarrow> 's result" where
  "visitWithPath enter leave (JArr xs) path s = visit_elems enter leave 0 xs path s"
| "visitWithPath enter leave (JObj kvs) path s =
     (if \<not> isASTNode (Some (JObj kvs)) then Inr s
      else bind_result (enter (JObj kvs) path s) (\<lambda>(s', cont).
        if \<not> cont then Inr s'
        else bind_result (visit_props enter leave kvs path s') (leave (JObj kvs) path)))"
| "visitWithPath enter leave v path s = Inr s"
| "visit_elems enter leave i [] path s = Inr s"
| "visit_elems enter leave i (x # xs) path s =
     bind_result (visitWithPath enter leave x (path @ [idx_key i]) s)
       (visit_elems enter leave (Suc i) xs path)"
| "visit_props enter leave [] path s = Inr s"
| "visit_props enter leave ((k, v) # kvs) path s =
     bind_result (visitWithPath enter leave v (path @ [k]) s) (visit_props enter leave kvs path)"

section \<open>Generating the fault space\<close>

record fault_state =
  faultSpace :: "path list"
  fnDepth :: int

definition methodName_externalCalls :: "string list" where
  "methodName_externalCalls = [''send'', ''transfer'', ''call'', ''delegatecall'', ''callcode'']"

text \<open>\<open>interestedSpace === undefined || interestedSpace.some(...)\<close>\<close>

definition some_space ::
  "interestedSpace list option \<Rightarrow> (interestedSpace \<Rightarrow> bool result) \<Rightarrow> bool result" where
  "some_space spaces f = (case spaces of None \<Rightarrow> Inr True | Some xs \<Rightarrow> some_result f xs)"

text \<open>The parts of the parent node that \<open>isEtherFlowRelated\<close> looks at; a missing property
  throws when a property of it is read.\<close>

definition isEtherFlowRelated :: "jsval option \<Rightarrow> bool result" where
  "isEtherFlowRelated parentNode =
     bind_result (js_field parentNode ''type'') (\<lambda>ty.
     if ty \<noteq> Some (JStr ''FunctionCall'') then Inr False
     else bind_result (js_field parentNode ''expression'') (\<lambda>e.
       bind_result (js_field e ''type'') (\<lambda>ety.
       if ety \<noteq> Some (JStr ''MemberAccess'') then Inr False
       else bind_result (js_field e ''memberName'') (\<lambda>n.
         Inr (list_ex (\<lambda>m. n = Some (JStr m)) methodName_externalCalls)))))"

definition generalVisitorFn ::
  "lodash \<Rightarrow> jsval \<Rightarrow> interestedSpace list option \<Rightarrow> fault_state enter_fn" where
  "generalVisitorFn L ast spaces node path s =
     bind_result
       (if fnDepth s \<noteq> 0 then
          isEtherFlowRelated (case findASTParentNode L ast path of
             None \<Rightarrow> None | Some p \<Rightarrow> getASTNodeFromPath L ast p)
        else Inr False) (\<lambda>etherFlow.
     if etherFlow then Inr (s, False)
     else if has_type node ''EmitStatement'' then Inr (s, False)
     else bind_result (some_space spaces (\<lambda>x. isNodeInExactScope x node path ast)) (\<lambda>inExactScope.
       if fnDepth s \<noteq> 0 \<and> inExactScope
       then Inr (s\<lparr>faultSpace := faultSpace s @ [path]\<rparr>, True)
       else bind_result (some_space spaces (\<lambda>x. isNodeInterested x node path ast))
         (\<lambda>interested. Inr (s, interested))))"

text \<open>The Proxy: the predefined visitors for contracts and functions, the general one for
  every other type; only functions have an exit function with an effect.\<close>

definition faultSpace_enter ::
  "lodash \<Rightarrow> jsval \<Rightarrow> interestedSpace list option \<Rightarrow> fault_state enter_fn" where
  "faultSpace_enter L ast spaces node path s =
     (if has_type node ''ContractDefinition'' then
        bind_result (some_space spaces (\<lambda>x. isNodeInterested x node path ast))
          (\<lambda>interested. Inr (s, interested))
      else if has_type node ''FunctionDefinition'' then
        bind_result (some_space spaces (\<lambda>x. isNodeInterested x node path ast))
          (\<lambda>interested. if interested then Inr (s\<lparr>fnDepth := fnDepth s + 1\<rparr>, True) else Inr (s, False))
      else generalVisitorFn L ast spaces node path s)"

definition faultSpace_leave :: "fault_state exit_fn" where
  "faultSpace_leave node path s =
     (if has_type node ''FunctionDefinition'' then Inr (s\<lparr>fnDepth := fnDepth s - 1\<rparr>) else Inr s)"

definition generateFaultSpace ::
  "lodash \<Rightarrow> jsval \<Rightarrow> interestedSpace list option \<Rightarrow> path list result" where
  "generateFaultSpace L ast spaces =
     bind_result (visitWithPath (faultSpace_enter L ast spaces) faultSpace_leave ast []
         \<lparr>faultSpace = [], fnDepth = 0\<rparr>)
       (\<lambda>s. Inr (faultSpace s))"

section \<open>Fault spaces and their nodes\<close>

definition getFaultSpaceNodePath :: "path \<Rightarrow> path" where
  "getFaultSpaceNodePath fs = fs"

definition getFaultSpaceNodePair :: "lodash \<Rightarrow> jsval \<Rightarrow> path list \<Rightarrow> (path \<times> jsval) list result" where
  "getFaultSpaceNodePair L ast spaces =
     map_result (\<lambda>x. case getASTNodeFromPath L ast x of
        None \<Rightarrow> Inl AssertionError | Some node \<Rightarrow> Inr (x, node)) spaces"

definition disallowKeys :: "string list" where
  "disallowKeys = [''range'', ''loc'', ''comments'', ''arguments'', ''parameters'',
     ''parameterTypes'', ''returnTypes'', ''modifiers'', ''names'', ''variables'', ''components'',
     ''members'', ''baseContracts'', ''symbolAliases'', ''operations'', ''cases'',
     ''returnArguments'']"

definition AssertionIdentifierNames :: "string list" where
  "AssertionIdentifierNames = [''assert'', ''require'', ''revert'']"

section \<open>Non-empty blocks\<close>

text \<open>
  \<open>astNodeContainsNonEmptyBlock\<close> descends into \<open>node[key]\<close> when
  \<open>Object.hasOwnProperty(node[key])\<close>: when the value, converted to a string, names an own
  property of the global function \<open>Object\<close>. The conversion of an object is
  \<open>[object Object]\<close>, that of an array joins its elements with commas.
\<close>

definition object_own_names :: "string list" where
  "object_own_names = [''length'', ''name'', ''prototype'', ''assign'', ''getOwnPropertyDescriptor'',
     ''getOwnPropertyDescriptors'', ''getOwnPropertyNames'', ''getOwnPropertySymbols'', ''is'',
     ''preventExtensions'', ''seal'', ''create'', ''defineProperties'', ''defineProperty'', ''freeze'',
     ''getPrototypeOf'', ''setPrototypeOf'', ''isExtensible'', ''isFrozen'', ''isSealed'', ''keys'',
     ''entries'', ''values'', ''fromEntries'']"

definition object_hasOwnProperty :: "jsval \<Rightarrow> bool" where
  "object_hasOwnProperty v = (js_String v \<in> set object_own_names)"

lemma size_prop: "(k, v) \<in> set kvs \<Longrightarrow> size v < size (JObj kvs)"
  by (induction kvs) auto

lemma size_elem: "v \<in> set xs \<Longrightarrow> size v < size (JArr xs)"
  by (induction xs) auto

lemma some_result_cong [fundef_cong]:
  "xs = ys \<Longrightarrow> (\<And>x. x \<in> set ys \<Longrightarrow> f x = g x) \<Longrightarrow> some_result f xs = some_result g ys"
proof (induction xs arbitrary: ys)
  case (Cons x xs)
  then show ?case by (cases "g x") auto
qed auto

text \<open>The single characters of a string are never own names of \<open>Object\<close>, so a string is left at
  once; numbers, booleans and functions have no enumerable properties. A block whose
  \<open>statements\<close> are missing throws.\<close>

function astNodeContainsNonEmptyBlock :: "jsval \<Rightarrow> bool result" where
  "astNodeContainsNonEmptyBlock (JObj kvs) =
     (if map_of kvs ''type'' = Some (JStr ''Block'') then
        (case map_of kvs ''statements'' of
           None \<Rightarrow> Inl TypeError
         | Some JNull \<Rightarrow> Inl TypeError
         | Some w \<Rightarrow>
             if js_prop w ''length'' \<noteq> Some (JNum (Fin 0)) then Inr True
             else astNodeContainsNonEmptyBlock w)
      else some_result (\<lambda>(k, v).
        if object_hasOwnProperty v then astNodeContainsNonEmptyBlock v else Inr False) kvs)"
| "astNodeContainsNonEmptyBlock (JArr xs) =
     some_result (\<lambda>v.
        if object_hasOwnProperty v then astNodeContainsNonEmptyBlock v else Inr False) xs"
| "astNodeContainsNonEmptyBlock JNull = Inl TypeError"
| "astNodeContainsNonEmptyBlock (JStr s) = Inr False"
| "astNodeContainsNonEmptyBlock (JNum n) = Inr False"
| "astNodeContainsNonEmptyBlock (JBool b) = Inr False"
| "astNodeContainsNonEmptyBlock (JGen g) = Inr False"
  by pat_completeness auto

termination
  by (relation "measure size") (auto dest!: map_of_SomeD dest: size_prop size_elem)

text \<open>The descent never finds a block: an object is never descended into.\<close>

lemma object_not_own [simp]: "\<not> object_hasOwnProperty (JObj kvs)"
  by (simp add: object_hasOwnProperty_def object_own_names_def)

lemma descent_finds_nothing:
  "object_hasOwnProperty v \<Longrightarrow> astNodeContainsNonEmptyBlock v \<noteq> Inr True"
proof (induction v)
  case (JArr xs)
  show ?case
  proof
    assume "astNodeContainsNonEmptyBlock (JArr xs) = Inr True"
    then obtain v where "v \<in> set xs"
      "(if object_hasOwnProperty v then astNodeContainsNonEmptyBlock v else Inr False) = Inr True"
      by (auto dest!: some_result_True)
    with JArr.IH [of v] show False by (auto split: if_splits)
  qed
qed auto

section \<open>Deletable fault spaces\<close>

definition is_deletable :: "lodash \<Rightarrow> jsval \<Rightarrow> string list option \<Rightarrow> path \<Rightarrow> bool result" where
  "is_deletable L ast onlyDeleteNodeType nodePath =
     (case lget L ast (butlast nodePath) of
        None \<Rightarrow> Inl AssertionError
      | Some nodeParent \<Rightarrow>
          (case lget L nodeParent (if nodePath = [] then [] else [last nodePath]) of
             None \<Rightarrow> Inl AssertionError
           | Some JNull \<Rightarrow> Inl AssertionError
           | Some node \<Rightarrow>
               if (case onlyDeleteNodeType of None \<Rightarrow> False
                   | Some types \<Rightarrow> \<not> list_ex (has_type node) types)
               then Inr False
               else
                 bind_result
                   (if has_type node ''FunctionCall'' then
                      bind_result (js_field (js_prop node ''expression'') ''type'') (\<lambda>ty.
                        Inr (ty = Some (JStr ''Identifier'') \<and>
                          list_ex (\<lambda>n. js_prop (the (js_prop node ''expression'')) ''name''
                            = Some (JStr n)) AssertionIdentifierNames))
                    else Inr False) (\<lambda>isAssertion.
                 if isAssertion then Inr False
                 else if \<not> is_array nodeParent then Inr False
                 else if \<not> list_all (\<lambda>x. x \<notin> set disallowKeys) nodePath then Inr False
                 else bind_result (astNodeContainsNonEmptyBlock node) (\<lambda>b. Inr (\<not> b)))))"

fun filter_result :: "('a \<Rightarrow> bool result) \<Rightarrow> 'a list \<Rightarrow> 'a list result" where
  "filter_result f [] = Inr []"
| "filter_result f (x # xs) =
     bind_result (f x) (\<lambda>b. bind_result (filter_result f xs) (\<lambda>ys.
       Inr (if b then x # ys else ys)))"

definition deletableFaultSpace ::
  "lodash \<Rightarrow> jsval \<Rightarrow> path list \<Rightarrow> string list option \<Rightarrow> path list result" where
  "deletableFaultSpace L ast faultSpaces onlyDeleteNodeType =
     filter_result (is_deletable L ast onlyDeleteNodeType) faultSpaces"

lemma filter_result_set:
  "filter_result f xs = Inr ys \<Longrightarrow> x \<in> set ys \<longleftrightarrow> x \<in> set xs \<and> f x = Inr True"
  by (induction xs arbitrary: ys) (auto split: if_splits)

end
