(* ===== verification/RandomSource.thy ===== *)
theory RandomSource
  imports Lodash "HOL-Library.Multiset"
begin

text \<open>
  What the random generators share: calls that may not return, the random source
  \<open>chance\<close> (third party, a parameter with the laws its documentation promises), the array
  functions of lodash on names, and the contract of a random generator
  (\<open>lib/Mutations/RandomMutationGenerator.ts\<close>): an iterator that uses up a finite stock, so
  that every call returns and spreading it into an array ends.
\<close>

section \<open>Outcomes\<close>

text \<open>A call returns a value, throws, or (when its loop is cut off by the fuel) has not
  finished.\<close>

datatype 'a outcome = Returned 'a | Thrown js_error | Unfinished

fun bind_outcome :: "'a outcome \<Rightarrow> ('a \<Rightarrow> 'b outcome) \<Rightarrow> 'b outcome" where
  "bind_outcome (Returned x) f = f x"
| "bind_outcome (Thrown e) f = Thrown e"
| "bind_outcome Unfinished f = Unfinished"

fun outcome_of :: "'a result \<Rightarrow> 'a outcome" where
  "outcome_of (Inl e) = Thrown e"
| "outcome_of (Inr x) = Returned x"

lemma bind_outcome_Returned [simp]:
  "(bind_outcome p f = Returned y) = (\<exists>x. p = Returned x \<and> f x = Returned y)"
  by (cases p) auto

lemma bind_outcome_Unfinished [simp]:
  "(bind_outcome p f = Unfinished) = (p = Unfinished \<or> (\<exists>x. p = Returned x \<and> f x = Unfinished))"
  by (cases p) auto

lemma outcome_of_simps [simp]:
  "(outcome_of r = Returned x) = (r = Inr x)" "outcome_of r \<noteq> Unfinished"
  "(outcome_of r = Thrown e) = (r = Inl e)"
  by (cases r; auto)+

text \<open>Calls over an array: in order, the first exception stops; \<open>some_outcome\<close> stops at the
  first answer true.\<close>

fun map_outcome :: "('a \<Rightarrow> 'b outcome) \<Rightarrow> 'a list \<Rightarrow> 'b list outcome" where
  "map_outcome f [] = Returned []"
| "map_outcome f (x # xs) =
     bind_outcome (f x) (\<lambda>y. bind_outcome (map_outcome f xs) (\<lambda>ys. Returned (y # ys)))"

fun some_outcome :: "('a \<Rightarrow> bool outcome) \<Rightarrow> 'a list \<Rightarrow> bool outcome" where
  "some_outcome f [] = Returned False"
| "some_outcome f (x # xs) = bind_outcome (f x) (\<lambda>b. if b then Returned True else some_outcome f xs)"

lemma map_outcome_Returned:
  "map_outcome f xs = Returned ys \<longleftrightarrow> list_all2 (\<lambda>x y. f x = Returned y) xs ys"
  by (induction xs arbitrary: ys) (auto simp: list_all2_Cons1)

lemma map_outcome_map:
  "(\<And>x. x \<in> set xs \<Longrightarrow> f x = Returned (g x)) \<Longrightarrow> map_outcome f xs = Returned (map g xs)"
  by (induction xs) auto

lemma map_outcome_Unfinished:
  "map_outcome f xs = Unfinished \<Longrightarrow> \<exists>x \<in> set xs. f x = Unfinished"
  by (induction xs) auto

lemma some_outcome_True: "some_outcome f xs = Returned True \<Longrightarrow> \<exists>x \<in> set xs. f x = Returned True"
  by (induction xs) (auto split: if_splits)

lemma some_outcome_Unfinished:
  "some_outcome f xs = Unfinished \<Longrightarrow> \<exists>x \<in> set xs. f x = Unfinished"
  by (induction xs) (auto split: if_splits)

section \<open>The random source\<close>

text \<open>\<open>type Seed = number | string\<close>\<close>

datatype seed = SeedNumber int | SeedString string

text \<open>
  A \<open>chance\<close> object is a state that every draw advances. \<open>pickone\<close> and \<open>weighted\<close> are
  modelled by the index of the chosen element; \<open>shuffle\<close> is that of a new object with the
  given seed, which is the only use the program makes of it.
\<close>

record 'r chance =
  new_chance :: "seed \<Rightarrow> 'r"
  chance_seed :: "'r \<Rightarrow> seed"
  pickone :: "nat \<Rightarrow> 'r \<Rightarrow> nat \<times> 'r"
  weighted :: "nat list \<Rightarrow> 'r \<Rightarrow> nat \<times> 'r"
  rnd_integer :: "'r \<Rightarrow> int \<times> 'r"
  integer_between :: "int \<Rightarrow> int \<Rightarrow> 'r \<Rightarrow> int \<times> 'r"
  shuffle :: "seed \<Rightarrow> jsval list \<Rightarrow> jsval list"

locale chance_lib =
  fixes C :: "'r chance"
  assumes pickone_range: "0 < n \<Longrightarrow> fst (pickone C n r) < n"
    and weighted_range: "ws \<noteq> [] \<Longrightarrow> list_all (\<lambda>w. 0 < w) ws \<Longrightarrow> fst (weighted C ws r) < length ws"
    and between_range: "a \<le> b \<Longrightarrow> a \<le> fst (integer_between C a b r) \<and> fst (integer_between C a b r) \<le> b"
    and shuffle_mset: "mset (shuffle C s xs) = mset xs"
begin

lemma weighted_ones: "xs \<noteq> [] \<Longrightarrow> fst (weighted C (map (\<lambda>_. 1) xs) r) < length xs"
  using weighted_range [of "map (\<lambda>_. 1) xs" r] by (simp add: list_all_iff)

lemma shuffle_set [simp]: "set (shuffle C s xs) = set xs"
  by (metis shuffle_mset set_mset_mset)

lemma shuffle_length [simp]: "length (shuffle C s xs) = length xs"
  by (metis shuffle_mset size_mset)

end

text \<open>A reference source: a counter; a shuffle reverses.\<close>

definition chance_ref :: "nat chance" where
  "chance_ref = \<lparr>new_chance = (\<lambda>s. case s of SeedNumber z \<Rightarrow> nat z | SeedString t \<Rightarrow> length t),
     chance_seed = (\<lambda>r. SeedNumber (int r)),
     pickone = (\<lambda>n r. (r mod n, Suc r)),
     weighted = (\<lambda>ws r. (r mod length ws, Suc r)),
     rnd_integer = (\<lambda>r. (int r, Suc r)),
     integer_between = (\<lambda>a b r. (a + int r mod (b - a + 1), Suc r)),
     shuffle = (\<lambda>s xs. rev xs)\<rparr>"

interpretation chance_reference: chance_lib chance_ref
proof
  fix a b :: int and r
  assume "a \<le> b"
  then have "0 \<le> int r mod (b - a + 1)" "int r mod (b - a + 1) < b - a + 1"
    using pos_mod_bound [of "b - a + 1" "int r"] by simp_all
  moreover have "fst (integer_between chance_ref a b r) = a + int r mod (b - a + 1)"
    by (simp add: chance_ref_def)
  ultimately show "a \<le> fst (integer_between chance_ref a b r) \<and> fst (integer_between chance_ref a b r) \<le> b"
    by linarith
qed (auto simp: chance_ref_def)

lemma chance_lib_ref: "chance_lib chance_ref"
  by (rule chance_reference.chance_lib_axioms)

section \<open>lodash on lists of names\<close>

text \<open>\<open>pull\<close> removes all occurrences of a value in place; \<open>without\<close> does the same in a new
  array; \<open>uniq\<close> and \<open>intersection\<close> keep one of equal values.\<close>

record lodash_names =
  lpull :: "string list \<Rightarrow> string \<Rightarrow> string list"
  lwithout :: "string list \<Rightarrow> string \<Rightarrow> string list"
  luniq :: "string list \<Rightarrow> string list"
  lintersection :: "string list \<Rightarrow> string list \<Rightarrow> string list"

locale lodash_name_lib =
  fixes N :: lodash_names
  assumes pull: "lpull N xs x = filter (\<lambda>y. y \<noteq> x) xs"
    and without: "lwithout N xs x = filter (\<lambda>y. y \<noteq> x) xs"
    and uniq: "set (luniq N xs) = set xs"
    and intersection: "set (lintersection N xs ys) = set xs \<inter> set ys"
begin

lemma pull_shorter: "x \<in> set xs \<Longrightarrow> length (lpull N xs x) < length xs"
  by (simp add: pull length_filter_less)

end

definition lodash_names_ref :: lodash_names where
  "lodash_names_ref = \<lparr>lpull = (\<lambda>xs x. filter (\<lambda>y. y \<noteq> x) xs),
     lwithout = (\<lambda>xs x. filter (\<lambda>y. y \<noteq> x) xs), luniq = remdups,
     lintersection = (\<lambda>xs ys. remdups (filter (\<lambda>x. x \<in> set ys) xs))\<rparr>"

interpretation lodash_names_reference: lodash_name_lib lodash_names_ref
  by unfold_locales (auto simp: lodash_names_ref_def)

lemma lodash_name_lib_ref: "lodash_name_lib lodash_names_ref"
  by (rule lodash_names_reference.lodash_name_lib_axioms)

section \<open>Random generators\<close>

text \<open>\<open>[...gen]\<close>: the values an iterator yields until it is done.\<close>

fun drain ::
  "('g \<Rightarrow> 'r \<Rightarrow> ('m option \<times> 'g \<times> 'r) outcome) \<Rightarrow> nat \<Rightarrow> 'g \<Rightarrow> 'r \<Rightarrow> ('m list \<times> 'g \<times> 'r) outcome" where
  "drain step 0 g r = Unfinished"
| "drain step (Suc n) g r = bind_outcome (step g r) (\<lambda>(x, g', r').
     case x of
       None \<Rightarrow> Returned ([], g', r')
     | Some m \<Rightarrow> bind_outcome (drain step n g' r') (\<lambda>(ms, g'', r''). Returned (m # ms, g'', r'')))"

text \<open>
  The contract: \<open>remaining\<close> bounds what a generator may still yield. Every call of a valid
  generator returns or throws, and every mutation it yields uses the stock up.
\<close>

locale random_generator =
  fixes step :: "'g \<Rightarrow> 'r \<Rightarrow> ('m option \<times> 'g \<times> 'r) outcome"
    and remaining :: "'g \<Rightarrow> nat"
    and valid :: "'g \<Rightarrow> bool"
  assumes returns: "valid g \<Longrightarrow> step g r \<noteq> Unfinished"
    and yields: "valid g \<Longrightarrow> step g r = Returned (Some m, g', r') \<Longrightarrow>
      valid g' \<and> remaining g' < remaining g"
    and exhausted: "valid g \<Longrightarrow> step g r = Returned (None, g', r') \<Longrightarrow>
      valid g' \<and> remaining g' \<le> remaining g"
begin

lemma drain_returns: "valid g \<Longrightarrow> remaining g < n \<Longrightarrow> drain step n g r \<noteq> Unfinished"
proof (induction n arbitrary: g r)
  case (Suc n)
  show ?case
  proof (cases "step g r")
    case (Returned v)
    obtain x g' r' where v: "v = (x, g', r')" by (cases v)
    show ?thesis
    proof (cases x)
      case (Some m)
      with Returned v yields [OF Suc.prems(1)] Suc.prems(2) have "valid g'" "remaining g' < n" by fastforce+
      with Suc.IH [of g' r'] Returned v Some show ?thesis by auto
    qed (use Returned v in auto)
  qed (use returns [OF Suc.prems(1)] in auto)
qed simp

lemma drain_bounded:
  "valid g \<Longrightarrow> drain step n g r = Returned (ms, g', r') \<Longrightarrow>
   valid g' \<and> length ms + remaining g' \<le> remaining g"
proof (induction n arbitrary: g r ms)
  case (Suc n)
  then obtain x g1 r1 where x: "step g r = Returned (x, g1, r1)" by auto
  show ?case
  proof (cases x)
    case None
    with x Suc.prems exhausted [OF Suc.prems(1)] show ?thesis by auto
  next
    case (Some m)
    with x Suc.prems obtain ms' where "drain step n g1 r1 = Returned (ms', g', r')" "ms = m # ms'"
      by auto
    with Suc.IH [of g1 r1 ms'] yields [OF Suc.prems(1)] x Some show ?thesis by fastforce
  qed
qed simp

end

end
