(* ===== verification/NodeSpace.thy ===== *)
theory NodeSpace
  imports FaultSpaces RandomSource
begin

text \<open>
  The space of new nodes (\<open>lib/ASTNodeSpace.ts\<close>): templates whose open places are generator
  functions, built from the nodes of the AST at hand, and their enumeration. The helpers
  \<open>cartesianProduct\<close>, \<open>combination\<close>, \<open>arrayToGenerator\<close>, \<open>generatorFilter\<close>,
  \<open>recPathOfFunctions\<close>, \<open>recPathOfPrimitives\<close> and \<open>deepOmit\<close> are those of
  \<open>lib/utils/index.ts\<close>. Generators of the language are the lists of what they yield.
\<close>

section \<open>Products and generators\<close>

fun cartesianProduct :: "'a list list \<Rightarrow> 'a list list" where
  "cartesianProduct [] = [[]]"
| "cartesianProduct (s # sets) =
     concat (map (\<lambda>x. map (\<lambda>g. x # g) (cartesianProduct sets)) s)"

text \<open>The same, without the tuples that repeat an element.\<close>

fun combination :: "'a list list \<Rightarrow> 'a list list" where
  "combination [] = [[]]"
| "combination (s # sets) =
     concat (map (\<lambda>x. map (\<lambda>g. x # g) (filter (\<lambda>g. x \<notin> set g) (combination sets))) s)"

lemma cartesianProduct_set:
  "ws \<in> set (cartesianProduct ss) \<longleftrightarrow> list_all2 (\<lambda>w s. w \<in> set s) ws ss"
proof (induction ss arbitrary: ws)
  case (Cons s ss)
  then show ?case by (cases ws) auto
qed simp

lemma combination_set:
  "ws \<in> set (combination ss) \<longleftrightarrow> list_all2 (\<lambda>w s. w \<in> set s) ws ss \<and> distinct ws"
proof (induction ss arbitrary: ws)
  case (Cons s ss)
  then show ?case by (cases ws) auto
qed auto

text \<open>\<open>arrayToGenerator(xs)\<close> called with a seed yields the shuffled elements, without one
  the elements in order.\<close>

definition arrayToGenerator :: "'r chance \<Rightarrow> jsval list \<Rightarrow> seed option \<Rightarrow> jsval list" where
  "arrayToGenerator C iter random = (case random of None \<Rightarrow> iter | Some s \<Rightarrow> shuffle C s iter)"

definition generatorFilter ::
  "(seed option \<Rightarrow> jsval list) \<Rightarrow> (jsval \<Rightarrow> bool) \<Rightarrow> seed option \<Rightarrow> jsval list" where
  "generatorFilter genFunc filterFn random = filter filterFn (genFunc random)"

text \<open>Calling a value that should be a generator function.\<close>

fun call_generator :: "'r chance \<Rightarrow> jsval option \<Rightarrow> seed option \<Rightarrow> jsval list outcome" where
  "call_generator C (Some (JGen xs)) random = Returned (arrayToGenerator C xs random)"
| "call_generator C _ random = Thrown TypeError"

fun is_function :: "jsval \<Rightarrow> bool" where
  "is_function (JGen xs) = True"
| "is_function _ = False"

section \<open>The open places of a template\<close>

fun recPathOfFunctions :: "jsval \<Rightarrow> path \<Rightarrow> path list"
  and function_paths_elems :: "nat \<Rightarrow> jsval list \<Rightarrow> path \<Rightarrow> path list"
  and function_paths_props :: "(string \<times> jsval) list \<Rightarrow> path \<Rightarrow> path list" where
  "recPathOfFunctions (JGen xs) initPath = [[]]"
| "recPathOfFunctions (JArr xs) initPath = function_paths_elems 0 xs initPath"
| "recPathOfFunctions (JObj kvs) initPath = function_paths_props kvs initPath"
| "recPathOfFunctions _ initPath = []"
| "function_paths_elems i [] initPath = []"
| "function_paths_elems i (x # xs) initPath =
     (if is_function x then [initPath @ [idx_key i]]
      else recPathOfFunctions x (initPath @ [idx_key i])) @ function_paths_elems (Suc i) xs initPath"
| "function_paths_props [] initPath = []"
| "function_paths_props ((k, v) # kvs) initPath =
     (if is_function v then [initPath @ [k]] else recPathOfFunctions v (initPath @ [k]))
     @ function_paths_props kvs initPath"

fun recPathOfPrimitives :: "jsval \<Rightarrow> path \<Rightarrow> path list"
  and primitive_paths_elems :: "nat \<Rightarrow> jsval list \<Rightarrow> path \<Rightarrow> path list"
  and primitive_paths_props :: "(string \<times> jsval) list \<Rightarrow> path \<Rightarrow> path list" where
  "recPathOfPrimitives (JArr xs) initPath = primitive_paths_elems 0 xs initPath"
| "recPathOfPrimitives (JObj kvs) initPath = primitive_paths_props kvs initPath"
| "recPathOfPrimitives (JStr s) initPath = map (\<lambda>i. initPath @ [idx_key i]) [0..<length s]"
| "recPathOfPrimitives _ initPath = []"
| "primitive_paths_elems i [] initPath = []"
| "primitive_paths_elems i (x # xs) initPath =
     (if is_function x then [] else if is_container x
      then recPathOfPrimitives x (initPath @ [idx_key i]) else [initPath @ [idx_key i]])
     @ primitive_paths_elems (Suc i) xs initPath"
| "primitive_paths_props [] initPath = []"
| "primitive_paths_props ((k, v) # kvs) initPath =
     (if is_function v then [] else if is_container v
      then recPathOfPrimitives v (initPath @ [k]) else [initPath @ [k]])
     @ primitive_paths_props kvs initPath"

text \<open>
  \<open>deepOmit\<close> copies a value without some keys, with lodash's \<open>transform\<close>. Null counts as an
  object there and is handed to \<open>transform\<close>, whose result on null, \<open>nullCopy\<close> here, the
  documentation does not give.
\<close>

fun deepOmit :: "jsval \<Rightarrow> jsval \<Rightarrow> string list \<Rightarrow> jsval" where
  "deepOmit nullCopy (JObj kvs) keys =
     JObj (filter (\<lambda>(k, _). k \<notin> set keys) (map (\<lambda>(k, v). (k, deepOmit nullCopy v keys)) kvs))"
| "deepOmit nullCopy (JArr xs) keys = JArr (map (\<lambda>x. deepOmit nullCopy x keys) xs)"
| "deepOmit nullCopy JNull keys = nullCopy"
| "deepOmit nullCopy v keys = v"

definition recRemoveLocInfo :: "jsval \<Rightarrow> jsval \<Rightarrow> jsval" where
  "recRemoveLocInfo nullCopy node = deepOmit nullCopy node [''loc'', ''range'']"

lemma recRemoveLocInfo_null [simp]:
  "recRemoveLocInfo JNull v = ASTNodeRemoveLocDeep v"
proof (induction v rule: ASTNodeRemoveLocDeep.induct)
  case (1 kvs)
  then have "map (\<lambda>(k, v). (k, deepOmit JNull v [''loc'', ''range''])) kvs
      = map (\<lambda>(k, v). (k, ASTNodeRemoveLocDeep v)) kvs"
    unfolding recRemoveLocInfo_def by (intro map_cong) auto
  then show ?case by (simp only: recRemoveLocInfo_def deepOmit.simps ASTNodeRemoveLocDeep.simps
        list.set insert_commute)
qed (auto simp: recRemoveLocInfo_def)

section \<open>The nodes of an AST by type\<close>

definition astNodeTypeStrings :: "string list" where
  "astNodeTypeStrings = [
    ''SourceUnit'', ''PragmaDirective'', ''PragmaName'', ''PragmaValue'', ''Version'',
    ''VersionOperator'', ''VersionConstraint'', ''ImportDeclaration'', ''ImportDirective'',
    ''ContractDefinition'', ''InheritanceSpecifier'', ''StateVariableDeclaration'',
    ''UsingForDeclaration'', ''StructDefinition'', ''ModifierDefinition'', ''ModifierInvocation'',
    ''FunctionDefinition'', ''ModifierList'', ''EventDefinition'', ''EnumValue'',
    ''EnumDefinition'', ''ParameterList'', ''Parameter'', ''EventParameterList'',
    ''EventParameter'', ''FunctionTypeParameterList'', ''FunctionTypeParameter'',
    ''VariableDeclaration'', ''ArrayTypeName'', ''UserDefinedTypeName'', ''Mapping'',
    ''FunctionTypeName'', ''StorageLocation'', ''StateMutability'', ''Block'', ''LineComment'',
    ''BlockComment'', ''ExpressionStatement'', ''IfStatement'', ''WhileStatement'',
    ''ForStatement'', ''InlineAssemblyStatement'', ''DoWhileStatement'', ''ContinueStatement'',
    ''BreakStatement'', ''ReturnStatement'', ''ThrowStatement'', ''VariableDeclarationStatement'',
    ''IdentifierList'', ''ElementaryTypeName'', ''NewExpression'', ''ExpressionList'',
    ''NameValueList'', ''NameValue'', ''FunctionCall'', ''FunctionCallArguments'',
    ''AssemblyBlock'', ''AssemblyItem'', ''AssemblyCall'', ''AssemblyLocalDefinition'',
    ''AssemblyAssignment'', ''AssemblyIdentifierOrList'', ''AssemblyIdentifierList'',
    ''AssemblyStackAssignment'', ''LabelDefinition'', ''AssemblySwitch'', ''AssemblyCase'',
    ''AssemblyFunctionDefinition'', ''AssemblyFunctionReturns'', ''AssemblyFor'', ''AssemblyIf'',
    ''AssemblyLiteral'', ''SubAssembly'', ''TupleExpression'', ''ElementaryTypeNameExpression'',
    ''StringLiteral'', ''BooleanLiteral'', ''NumberLiteral'', ''Identifier'', ''IndexAccess'',
    ''MemberAccess'', ''UnaryOperation'', ''BinaryOperation'', ''Conditional'']"

text \<open>\<open>binOps\<close>, and the assertions of the template of calls.\<close>

definition binOps :: "string list" where
  "binOps = [''+'', ''-'', ''*'', ''/'', ''&&'', ''||'', ''&'', ''|'', ''<'', ''>'', ''<='', ''>='',
     ''=='', ''!='', ''='', ''+='', ''-='', ''*='', ''/='']"

record newNodeGenerationContext =
  ctx_scopeInfo :: "scope_info option"
  ctx_forLocation :: "jsval option"

text \<open>
  \<open>ASTNodeMapSet\<close> maps every known type to a set of fresh copies of nodes with their scopes;
  the objects are all different, so the set is the list in the order of insertion. The class
  has two subclasses; \<open>seeded\<close> says which one an object belongs to.
\<close>

type_synonym node_sets = "(string \<times> (jsval \<times> scope_info) list) list"

record ast_node_space =
  ASTNodeMapSet :: node_sets
  seeded :: bool

definition empty_node_sets :: node_sets where
  "empty_node_sets = map (\<lambda>t. (t, [])) astNodeTypeStrings"

text \<open>A node of an unknown type fails the assertion of the visitor.\<close>

definition buildASTNodeSet_visitor :: "jsval \<Rightarrow> jsval \<Rightarrow> node_sets enter_fn" where
  "buildASTNodeSet_visitor nullCopy ast node nodePath sets =
     (case js_prop node ''type'' of
        Some (JStr t) \<Rightarrow> (case map_of sets t of
            None \<Rightarrow> Inl AssertionError
          | Some set_t \<Rightarrow> bind_result (getNodePathScopeInfo ast nodePath) (\<lambda>sc.
              Inr (AList.update t (set_t @ [(recRemoveLocInfo nullCopy node, sc)]) sets, True)))
      | _ \<Rightarrow> Inl AssertionError)"

definition new_RandomASTNodeSpace :: "jsval \<Rightarrow> jsval \<Rightarrow> ast_node_space result" where
  "new_RandomASTNodeSpace nullCopy ast =
     bind_result (visitWithPath (buildASTNodeSet_visitor nullCopy ast) (\<lambda>_ _ s. Inr s) ast []
         empty_node_sets)
       (\<lambda>sets. Inr \<lparr>ASTNodeMapSet = sets, seeded = False\<rparr>)"

fun seed_node_sets :: "jsval \<Rightarrow> jsval list \<Rightarrow> node_sets \<Rightarrow> node_sets result" where
  "seed_node_sets nullCopy [] sets = Inr sets"
| "seed_node_sets nullCopy (astNode # nodes) sets =
     bind_result (buildASTNodeSet_visitor nullCopy (JObj []) astNode [] sets)
       (\<lambda>(sets', _). seed_node_sets nullCopy nodes sets')"

definition getSeededASTNodeSpace :: "jsval \<Rightarrow> jsval list \<Rightarrow> ast_node_space result" where
  "getSeededASTNodeSpace nullCopy ASTNodes =
     bind_result (seed_node_sets nullCopy ASTNodes empty_node_sets)
       (\<lambda>sets. Inr \<lparr>ASTNodeMapSet = sets, seeded = True\<rparr>)"

text \<open>The recorded nodes of a type, in the contract and function of the scope asked for.\<close>

definition in_scope :: "scope_info \<Rightarrow> scope_info \<Rightarrow> bool" where
  "in_scope scopeInfo x \<longleftrightarrow> contractName x = contractName scopeInfo \<and>
     (functionName scopeInfo = None \<or> functionName scopeInfo = functionName x)"

definition getPredefinedASTNodeSet ::
  "node_sets \<Rightarrow> string \<Rightarrow> scope_info option \<Rightarrow> jsval list result" where
  "getPredefinedASTNodeSet sets nodeTypeString scopeInfo =
     (case map_of sets nodeTypeString of
        None \<Rightarrow> Inl TypeError
      | Some nodes \<Rightarrow> Inr (map fst (case scopeInfo of
            None \<Rightarrow> nodes | Some sc \<Rightarrow> filter (\<lambda>x. in_scope sc (snd x)) nodes)))"

text \<open>Statements to reuse: no assignment, and no call of an event of the contract.\<close>

definition is_event_call :: "node_sets \<Rightarrow> scope_info option \<Rightarrow> jsval option \<Rightarrow> bool result" where
  "is_event_call sets scopeInfo expr =
     (case scopeInfo of
        None \<Rightarrow> Inr False
      | Some sc \<Rightarrow>
          if contractName sc = None then Inr False
          else bind_result (js_field expr ''type'') (\<lambda>ty.
            if ty \<noteq> Some (JStr ''FunctionCall'') then Inr False
            else bind_result (js_field expr ''expression'') (\<lambda>fn.
              bind_result (js_field fn ''type'') (\<lambda>fty.
              if fty \<noteq> Some (JStr ''Identifier'') then Inr False
              else bind_result (getPredefinedASTNodeSet sets ''EventDefinition''
                  (Some \<lparr>contractName = contractName sc, functionName = None\<rparr>)) (\<lambda>events.
                Inr (list_ex (\<lambda>ev. js_prop ev ''name'' = js_prop (the fn) ''name'') events))))))"

definition reusable_statement :: "node_sets \<Rightarrow> scope_info option \<Rightarrow> jsval \<Rightarrow> bool result" where
  "reusable_statement sets scopeInfo x =
     bind_result (js_field (Some x) ''expression'') (\<lambda>expr.
     bind_result (js_field expr ''type'') (\<lambda>ty.
     bind_result (if ty = Some (JStr ''BinaryOperation'')
         then bind_result (js_field expr ''operator'') (\<lambda>op. Inr (op = Some (JStr ''='')))
         else Inr False) (\<lambda>isAssignmentStatement.
     bind_result (is_event_call sets scopeInfo expr) (\<lambda>isEventEmittingStatement.
       Inr (\<not> (isAssignmentStatement \<or> isEventEmittingStatement))))))"

definition getReusableNodeSet ::
  "node_sets \<Rightarrow> string \<Rightarrow> scope_info option \<Rightarrow> jsval list result" where
  "getReusableNodeSet sets nodeTypeString scopeInfo =
     bind_result (getPredefinedASTNodeSet sets nodeTypeString scopeInfo) (\<lambda>nodes.
       if nodes = [] then Inr []
       else if nodeTypeString = ''ExpressionStatement''
       then filter_result (reusable_statement sets scopeInfo) nodes
       else Inr nodes)"

section \<open>The templates\<close>

text \<open>
  \<open>ctx !== undefined ? ctx.scopeInfo : undefined\<close>, and \<open>Array.from(nodes, ele => ele[k])\<close>: the
  parser sets the properties that are read here on every node of the type; an absent one
  would be an undefined element, which is left out.
\<close>

definition ctx_scope :: "newNodeGenerationContext option \<Rightarrow> scope_info option" where
  "ctx_scope ctx = (case ctx of None \<Rightarrow> None | Some c \<Rightarrow> ctx_scopeInfo c)"

definition props_of :: "string \<Rightarrow> jsval list \<Rightarrow> jsval list" where
  "props_of k nodes = List.map_filter (\<lambda>ele. js_prop ele k) nodes"

definition gen_strings :: "string list \<Rightarrow> jsval" where
  "gen_strings ss = JGen (map JStr ss)"

definition FunctionCall_space ::
  "node_sets \<Rightarrow> newNodeGenerationContext option \<Rightarrow> jsval result" where
  "FunctionCall_space sets ctx =
     bind_result (getReusableNodeSet sets ''ExpressionStatement'' (ctx_scope ctx)) (\<lambda>ss.
       Inr (JGen [JObj [
         (''type'', JStr ''FunctionCall''),
         (''expression'', JObj [(''type'', JStr ''Identifier''),
            (''name'', gen_strings [''require'', ''assert''])]),
         (''arguments'', JArr [JGen (props_of ''expression'' ss)]),
         (''names'', JArr [])]]))"

definition BooleanLiteral_space :: "newNodeGenerationContext option \<Rightarrow> jsval" where
  "BooleanLiteral_space ctx =
     JObj [(''type'', JStr ''BooleanLiteral''), (''value'', JGen [JBool True, JBool False])]"

definition NumberLiteral_space ::
  "node_sets \<Rightarrow> newNodeGenerationContext option \<Rightarrow> jsval result" where
  "NumberLiteral_space sets ctx =
     bind_result (getReusableNodeSet sets ''NumberLiteral'' (ctx_scope ctx)) (\<lambda>ns.
       Inr (JObj [(''type'', JStr ''NumberLiteral''),
         (''number'', JGen ([JStr ''0'', JStr ''1''] @ props_of ''number'' ns)),
         (''subdenomination'', JGen [JNull])]))"

text \<open>\<open>Identifier\<close> answers with an array of nodes (undefined without a context),
  \<open>UnaryOperation\<close> and \<open>Conditional\<close> with undefined.\<close>

definition Identifier_nodes ::
  "node_sets \<Rightarrow> newNodeGenerationContext option \<Rightarrow> jsval list option result" where
  "Identifier_nodes sets ctx =
     (case ctx of
        None \<Rightarrow> Inr None
      | Some c \<Rightarrow> bind_result (getReusableNodeSet sets ''Identifier'' (ctx_scope ctx))
          (\<lambda>ids. Inr (Some ids)))"

definition UnaryOperation_space :: "jsval option" where
  "UnaryOperation_space = None"

definition Conditional_space :: "jsval option" where
  "Conditional_space = None"

definition BinaryOperation_space ::
  "node_sets \<Rightarrow> newNodeGenerationContext option \<Rightarrow> jsval result" where
  "BinaryOperation_space sets ctx =
     bind_result (getReusableNodeSet sets ''BinaryOperation'' (ctx_scope ctx)) (\<lambda>bs.
       Inr (JObj [(''type'', JStr ''BinaryOperation''),
         (''left'', JGen (props_of ''left'' bs)),
         (''right'', JGen (props_of ''right'' bs)),
         (''operator'', gen_strings binOps)]))"

text \<open>
  \<open>BoolBinaryOperation\<close>, which no other method calls: operations with a boolean value, by the
  operands of their operators. Its generators of operands are filtered, so they are functions of
  the seed here and not the lists of \<open>JGen\<close>; the answer is a generator over the three spaces.
  The filter keeps the operands of the forbidden types.
\<close>

record operation_space =
  os_left :: "seed option \<Rightarrow> jsval list"
  os_operator :: "seed option \<Rightarrow> jsval list"
  os_right :: "seed option \<Rightarrow> jsval list"

definition binaryOperationExpressionGeneratorFilter ::
  "(seed option \<Rightarrow> jsval list) \<Rightarrow> string list \<Rightarrow> seed option \<Rightarrow> jsval list" where
  "binaryOperationExpressionGeneratorFilter generator forbiddenTypes =
     generatorFilter generator (\<lambda>x. list_ex (has_type x) forbiddenTypes)"

definition BoolBinaryOperation ::
  "'r chance \<Rightarrow> node_sets \<Rightarrow> newNodeGenerationContext option \<Rightarrow> operation_space list result" where
  "BoolBinaryOperation C sets ctx =
     bind_result (getReusableNodeSet sets ''BinaryOperation'' (ctx_scope ctx)) (\<lambda>bs.
     let left = arrayToGenerator C (props_of ''left'' bs);
         right = arrayToGenerator C (props_of ''right'' bs);
         ops = (\<lambda>boolValuedBinOps. arrayToGenerator C (map JStr boolValuedBinOps));
         filtered = (\<lambda>boolValuedBinOps forbiddenTypes.
           \<lparr>os_left = binaryOperationExpressionGeneratorFilter left forbiddenTypes,
            os_operator = ops boolValuedBinOps,
            os_right = binaryOperationExpressionGeneratorFilter right forbiddenTypes\<rparr>) in
       Inr [filtered [''&&'', ''||''] [''NumberLiteral'', ''HexLiteral''],
         filtered [''<'', ''>'', ''<='', ''>=''] [''BooleanLiteral''],
         \<lparr>os_left = left, os_operator = ops [''=='', ''!=''], os_right = right\<rparr>])"

lemma forbidden_operands_kept:
  "set (binaryOperationExpressionGeneratorFilter generator forbiddenTypes random) =
   {x \<in> set (generator random). \<exists>t \<in> set forbiddenTypes. has_type x t}"
  by (auto simp: binaryOperationExpressionGeneratorFilter_def generatorFilter_def list_ex_iff)

definition AssignmentOperation_space ::
  "node_sets \<Rightarrow> newNodeGenerationContext option \<Rightarrow> jsval option result" where
  "AssignmentOperation_space sets ctx =
     bind_result (Identifier_nodes sets ctx) (\<lambda>identifiers. case identifiers of
         None \<Rightarrow> Inr None
       | Some ids \<Rightarrow> bind_result (BinaryOperation_space sets ctx) (\<lambda>binOpSpace.
           Inr (Some (JGen [set_child (set_child binOpSpace ''left'' (JGen ids))
             ''operator'' (gen_strings [''=''])]))))"

definition NumberArithmeticAssignmentOperation_space ::
  "node_sets \<Rightarrow> newNodeGenerationContext option \<Rightarrow> jsval option result" where
  "NumberArithmeticAssignmentOperation_space sets ctx =
     bind_result (Identifier_nodes sets ctx) (\<lambda>identifiers. case identifiers of
         None \<Rightarrow> Inr None
       | Some ids \<Rightarrow> bind_result (BinaryOperation_space sets ctx) (\<lambda>binOpSpace.
           bind_result (NumberLiteral_space sets ctx) (\<lambda>num.
           Inr (Some (set_child (set_child (set_child binOpSpace ''left'' (JGen ids))
             ''operator'' (gen_strings [''+='', ''-='', ''*='', ''/='']))
             ''right'' (JGen (ids @ [num])))))))"

definition BinaryOperationStatement_space ::
  "node_sets \<Rightarrow> newNodeGenerationContext option \<Rightarrow> jsval option result" where
  "BinaryOperationStatement_space sets ctx = AssignmentOperation_space sets ctx"

text \<open>Without a context, which only \<open>isNodeTypeSupported\<close> asks for, the first element of the
  generator is undefined; it is left out here.\<close>

definition ExpressionStatement_space ::
  "node_sets \<Rightarrow> newNodeGenerationContext option \<Rightarrow> jsval result" where
  "ExpressionStatement_space sets ctx =
     bind_result (BinaryOperationStatement_space sets ctx) (\<lambda>binOp.
     bind_result (FunctionCall_space sets ctx) (\<lambda>call.
     bind_result (getReusableNodeSet sets ''ExpressionStatement'' (ctx_scope ctx)) (\<lambda>ss.
       Inr (JObj [(''type'', JStr ''ExpressionStatement''),
         (''expression'', JGen ((case binOp of None \<Rightarrow> [] | Some b \<Rightarrow> [b]) @ [call]
            @ props_of ''expression'' ss))]))))"

section \<open>Supported types\<close>

text \<open>
  \<open>this[nodeType]\<close>: the method with the name of the node type, or none. On a seeded space
  the Proxy answers for every AST node type with a function that returns the array of the
  seeds of that type.
\<close>

definition ASTNodeSpace_method ::
  "node_sets \<Rightarrow> string \<Rightarrow> newNodeGenerationContext option \<Rightarrow> jsval option result option" where
  "ASTNodeSpace_method sets nodeType ctx =
     (if nodeType = ''ExpressionStatement''
        then Some (bind_result (ExpressionStatement_space sets ctx) (\<lambda>v. Inr (Some v)))
      else if nodeType = ''FunctionCall''
        then Some (bind_result (FunctionCall_space sets ctx) (\<lambda>v. Inr (Some v)))
      else if nodeType = ''BooleanLiteral'' then Some (Inr (Some (BooleanLiteral_space ctx)))
      else if nodeType = ''NumberLiteral''
        then Some (bind_result (NumberLiteral_space sets ctx) (\<lambda>v. Inr (Some v)))
      else if nodeType = ''Identifier''
        then Some (bind_result (Identifier_nodes sets ctx) (\<lambda>ids. Inr (map_option JArr ids)))
      else if nodeType = ''UnaryOperation'' then Some (Inr UnaryOperation_space)
      else if nodeType = ''BinaryOperation''
        then Some (bind_result (BinaryOperation_space sets ctx) (\<lambda>v. Inr (Some v)))
      else if nodeType = ''Conditional'' then Some (Inr Conditional_space)
      else None)"

definition getSeededASTNodeBase :: "node_sets \<Rightarrow> string \<Rightarrow> jsval option result option" where
  "getSeededASTNodeBase sets nodeType =
     (if nodeType \<in> set astNodeTypeStrings
      then Some (bind_result (getPredefinedASTNodeSet sets nodeType None)
             (\<lambda>nodes. Inr (Some (JArr nodes))))
      else None)"

definition node_space ::
  "ast_node_space \<Rightarrow> string \<Rightarrow> newNodeGenerationContext option \<Rightarrow> jsval option result option" where
  "node_space S nodeType ctx =
     (if seeded S then getSeededASTNodeBase (ASTNodeMapSet S) nodeType
      else ASTNodeSpace_method (ASTNodeMapSet S) nodeType ctx)"

definition isNodeTypeSupported :: "ast_node_space \<Rightarrow> string \<Rightarrow> bool result" where
  "isNodeTypeSupported S type =
     (case node_space S type None of
        None \<Rightarrow> Inr False
      | Some space \<Rightarrow> bind_result space (\<lambda>v. Inr (v \<noteq> None)))"

definition supportedNodeTypes :: "ast_node_space \<Rightarrow> string list result" where
  "supportedNodeTypes S = filter_result (isNodeTypeSupported S) astNodeTypeStrings"

section \<open>Enumerating a template\<close>

text \<open>
  The nesting of generators in a template; it bounds the recursion of \<open>processSpace\<close> and is
  the fuel the model gives it.
\<close>

fun gen_depth :: "jsval \<Rightarrow> nat" where
  "gen_depth (JGen xs) = Suc (foldr max (map gen_depth xs) 0)"
| "gen_depth (JArr xs) = foldr max (map gen_depth xs) 0"
| "gen_depth (JObj kvs) = foldr max (map (\<lambda>(k, v). gen_depth v) kvs) 0"
| "gen_depth v = 0"

text \<open>The generators at the open places, called (\<open>lodash_at\<close> reads the value at each path), and
  the template with its open places filled.\<close>

definition space_gens ::
  "lodash \<Rightarrow> 'r chance \<Rightarrow> jsval \<Rightarrow> path list \<Rightarrow> seed option \<Rightarrow> jsval list list outcome" where
  "space_gens L C space gen_paths seed =
     (if gen_paths = [[]] then map_outcome (\<lambda>v. call_generator C (Some v) seed) [space]
      else map_outcome (\<lambda>p. call_generator C (lget L space p) seed) gen_paths)"

definition newGenObj :: "lodash \<Rightarrow> jsval \<Rightarrow> path list \<Rightarrow> jsval list \<Rightarrow> jsval" where
  "newGenObj L space gen_paths genRst =
     (if gen_paths = [[]] then hd genRst
      else foldl (\<lambda>obj (p, v). lset L obj p v) space (zip gen_paths genRst))"

fun processSpace ::
  "lodash \<Rightarrow> 'r chance \<Rightarrow> nat \<Rightarrow> jsval \<Rightarrow> seed option \<Rightarrow> jsval list outcome" where
  "processSpace L C 0 space seed = Unfinished"
| "processSpace L C (Suc fuel) space seed =
     (let gen_paths = recPathOfFunctions space [] in
      if gen_paths \<noteq> [] then
        bind_outcome (space_gens L C space gen_paths seed) (\<lambda>gens.
          bind_outcome (map_outcome
              (\<lambda>genRst. processSpace L C fuel (newGenObj L space gen_paths genRst) None)
              (cartesianProduct gens))
            (\<lambda>yss. Returned (concat yss)))
      else Returned [space])"

definition getASTNodeGenerator ::
  "lodash \<Rightarrow> 'r chance \<Rightarrow> ast_node_space \<Rightarrow> string \<Rightarrow> newNodeGenerationContext option \<Rightarrow>
   seed option \<Rightarrow> jsval list outcome" where
  "getASTNodeGenerator L C S nodeType ctx seed =
     (case node_space S nodeType ctx of
        None \<Rightarrow> Thrown TypeError
      | Some space \<Rightarrow> bind_outcome (outcome_of space) (\<lambda>nodeSpace. case nodeSpace of
            None \<Rightarrow> Thrown GenericError
          | Some v \<Rightarrow> processSpace L C (Suc (gen_depth v)) v seed))"

text \<open>Whether a node is in the space: the same descent, comparing on the way; a generator that
  is still open matches everything.\<close>

definition space_customizer :: customizer where
  "space_customizer objVal othVal key = (if is_function objVal then Some True else None)"

fun node_in_space ::
  "lodash \<Rightarrow> 'r chance \<Rightarrow> nat \<Rightarrow> jsval \<Rightarrow> jsval \<Rightarrow> bool outcome" where
  "node_in_space L C 0 space target = Unfinished"
| "node_in_space L C (Suc fuel) space target =
     (if \<not> lequalWith L space target space_customizer then Returned False
      else let gen_paths = recPathOfFunctions space [] in
        bind_outcome (outcome_of (js_assert (gen_paths \<noteq> []))) (\<lambda>_.
        bind_outcome (space_gens L C space gen_paths None) (\<lambda>gens.
          some_outcome
            (\<lambda>genRst. node_in_space L C fuel (newGenObj L space gen_paths genRst) target)
            (cartesianProduct gens))))"

definition isNodeInSpace ::
  "lodash \<Rightarrow> 'r chance \<Rightarrow> ast_node_space \<Rightarrow> jsval \<Rightarrow> newNodeGenerationContext \<Rightarrow> bool outcome" where
  "isNodeInSpace L C S node ctx =
     bind_outcome (outcome_of (js_assert (isASTNode (Some node)))) (\<lambda>_.
       case js_prop node ''type'' of
         Some (JStr type) \<Rightarrow> (case node_space S type (Some ctx) of
             None \<Rightarrow> Thrown TypeError
           | Some space \<Rightarrow> bind_outcome (outcome_of space) (\<lambda>nodeSpace. case nodeSpace of
                 None \<Rightarrow> Returned False
               | Some v \<Rightarrow> node_in_space L C (Suc (gen_depth v)) v node))
       | _ \<Rightarrow> Thrown TypeError)"

end
