(* ===== verification/SpaceEnumeration.thy ===== *)
theory SpaceEnumeration
  imports NodeSpace
begin

text \<open>
  The meaning of a template: \<open>instances\<close> lists the values it stands for, by recursion on its
  structure. The lemmas show that the level-by-level expansion of \<open>processSpace\<close>, which finds
  the open places by their paths and fills them with \<open>lodash.set\<close>, ends and enumerates exactly
  these instances.
\<close>

section \<open>Instances\<close>

fun instances :: "jsval \<Rightarrow> jsval list" where
  "instances (JGen xs) = concat (map instances xs)"
| "instances (JArr xs) = map JArr (cartesianProduct (map instances xs))"
| "instances (JObj kvs) = map (\<lambda>ws. JObj (zip (map fst kvs) ws))
     (cartesianProduct (map (\<lambda>(k, v). instances v) kvs))"
| "instances v = [v]"

text \<open>One level: every outermost generator replaced by one of its elements.\<close>

fun expansions :: "jsval \<Rightarrow> jsval list" where
  "expansions (JGen xs) = xs"
| "expansions (JArr xs) = map JArr (cartesianProduct (map expansions xs))"
| "expansions (JObj kvs) = map (\<lambda>ws. JObj (zip (map fst kvs) ws))
     (cartesianProduct (map (\<lambda>(k, v). expansions v) kvs))"
| "expansions v = [v]"

text \<open>Templates whose objects have distinct property names.\<close>

fun wf_space :: "jsval \<Rightarrow> bool" where
  "wf_space (JGen xs) = list_all wf_space xs"
| "wf_space (JArr xs) = list_all wf_space xs"
| "wf_space (JObj kvs) = (distinct (map fst kvs) \<and> list_all (\<lambda>(_, v). wf_space v) kvs)"
| "wf_space v = True"

lemma list_all2_in_map:
  "list_all2 (\<lambda>w s. w \<in> set s) ws (map f xs) = list_all2 (\<lambda>w x. w \<in> set (f x)) ws xs"
  by (simp add: list.rel_map)

lemma zip_fst_eq: "length ws = length kvs \<Longrightarrow> map fst (zip (map fst kvs) ws) = map fst kvs"
  by simp

lemma foldr_max_le: "foldr max (ns :: nat list) 0 \<le> m \<longleftrightarrow> (\<forall>n \<in> set ns. n \<le> m)"
  by (induction ns) auto

subsection \<open>Expansion keeps the instances\<close>

lemma instances_elems_iff:
  "w \<in> set (instances (JArr xs)) \<longleftrightarrow> (\<exists>ws. w = JArr ws \<and> list_all2 (\<lambda>w x. w \<in> set (instances x)) ws xs)"
  by (auto simp: cartesianProduct_set list.rel_map)

lemma instances_props_iff:
  "w \<in> set (instances (JObj kvs)) \<longleftrightarrow> (\<exists>ws. w = JObj (zip (map fst kvs) ws) \<and>
     list_all2 (\<lambda>w kv. w \<in> set (instances (snd kv))) ws kvs)"
  by (auto simp: cartesianProduct_set list.rel_map case_prod_unfold)

lemma expansions_props_iff:
  "w \<in> set (expansions (JObj kvs)) \<longleftrightarrow> (\<exists>ws. w = JObj (zip (map fst kvs) ws) \<and>
     list_all2 (\<lambda>w kv. w \<in> set (expansions (snd kv))) ws kvs)"
  by (auto simp: cartesianProduct_set list.rel_map case_prod_unfold)

lemma mset_concat_map: "mset (concat (map f xs)) = (\<Sum>x\<in>#mset xs. mset (f x))"
  by (induction xs) auto

lemma mset_product_Cons:
  "mset (cartesianProduct (s # ss)) = (\<Sum>x\<in>#mset s. image_mset ((#) x) (mset (cartesianProduct ss)))"
  by (simp add: mset_concat_map)

lemma image_mset_sum: "image_mset f (\<Sum>x\<in>#M. g x) = (\<Sum>x\<in>#M. image_mset f (g x))"
  by (induction M) auto

lemma sum_over_sum: "(\<Sum>w\<in>#(\<Sum>u\<in>#M. g u). h w) = (\<Sum>u\<in>#M. \<Sum>w\<in>#g u. h w)"
  by (induction M) auto

lemma mset_product_cong:
  "list_all2 (\<lambda>s t. mset s = mset t) ss ts \<Longrightarrow> mset (cartesianProduct ss) = mset (cartesianProduct ts)"
  by (induction ss ts rule: list_all2_induct) (simp_all only: mset_product_Cons cartesianProduct.simps(1))

text \<open>A product of lists that are themselves unions is the union of the products.\<close>

lemma product_of_unions:
  assumes "\<And>x. x \<in> set xs \<Longrightarrow> mset (f x) = (\<Sum>u\<in>#mset (e x). mset (g u))"
  shows "mset (cartesianProduct (map f xs))
    = (\<Sum>us\<in>#mset (cartesianProduct (map e xs)). mset (cartesianProduct (map g us)))"
  using assms
proof (induction xs)
  case (Cons x xs)
  let ?R = "mset (cartesianProduct (map e xs))"
  have IH: "mset (cartesianProduct (map f xs)) = (\<Sum>us\<in>#?R. mset (cartesianProduct (map g us)))"
    using Cons by simp
  have fx: "mset (f x) = (\<Sum>u\<in>#mset (e x). mset (g u))" using Cons.prems by simp
  have "mset (cartesianProduct (map f (x # xs)))
      = (\<Sum>u\<in>#mset (e x). \<Sum>w\<in>#mset (g u). \<Sum>us\<in>#?R. image_mset ((#) w) (mset (cartesianProduct (map g us))))"
    by (simp only: list.map mset_product_Cons fx sum_over_sum IH) (simp only: image_mset_sum)
  also have "\<dots> = (\<Sum>u\<in>#mset (e x). \<Sum>us\<in>#?R. mset (cartesianProduct (map g (u # us))))"
    by (subst sum_mset.swap) (simp only: list.map mset_product_Cons)
  also have "\<dots> = (\<Sum>us\<in>#mset (cartesianProduct (map e (x # xs))). mset (cartesianProduct (map g us)))"
    by (simp only: list.map(2) [of e] mset_product_Cons sum_over_sum) (simp add: image_mset.compositionality comp_def)
  finally show ?case .
qed simp

lemma instances_expansions:
  "mset (instances v) = (\<Sum>u\<in>#mset (expansions v). mset (instances u))"
proof (induction v)
  case (JArr xs)
  from product_of_unions [of xs instances instances expansions, OF JArr] show ?case
    by (simp add: image_mset_sum image_mset.compositionality comp_def)
next
  case (JObj kvs)
  have *: "mset (instances (snd kv)) = (\<Sum>u\<in>#mset (expansions (snd kv)). mset (instances u))"
    if "kv \<in> set kvs" for kv
    using JObj [OF that, of "snd kv"] by (simp add: snds.simps)
  have len: "length us = length kvs" if "us \<in># mset (cartesianProduct (map (\<lambda>kv. expansions (snd kv)) kvs))" for us
    using that by (auto simp: cartesianProduct_set dest: list_all2_lengthD)
  have "mset (instances (JObj kvs)) = image_mset (\<lambda>ws. JObj (zip (map fst kvs) ws))
      (mset (cartesianProduct (map (\<lambda>kv. instances (snd kv)) kvs)))"
    by (simp add: case_prod_unfold)
  also have "\<dots> = (\<Sum>us\<in>#mset (cartesianProduct (map (\<lambda>kv. expansions (snd kv)) kvs)).
      image_mset (\<lambda>ws. JObj (zip (map fst kvs) ws)) (mset (cartesianProduct (map instances us))))"
    by (simp only: product_of_unions [of kvs "\<lambda>kv. instances (snd kv)" instances "\<lambda>kv. expansions (snd kv)", OF *] image_mset_sum)
  also have "\<dots> = (\<Sum>us\<in>#mset (cartesianProduct (map (\<lambda>kv. expansions (snd kv)) kvs)).
      mset (instances (JObj (zip (map fst kvs) us))))"
  proof (intro arg_cong [where f = sum_mset] image_mset_cong)
    fix us assume "us \<in># mset (cartesianProduct (map (\<lambda>kv. expansions (snd kv)) kvs))"
    from len [OF this] show "image_mset (\<lambda>ws. JObj (zip (map fst kvs) ws)) (mset (cartesianProduct (map instances us)))
        = mset (instances (JObj (zip (map fst kvs) us)))"
      by (simp add: case_prod_unfold map_snd_zip_take comp_def flip: map_map [of instances snd, unfolded comp_def])
  qed
  also have "\<dots> = (\<Sum>u\<in>#mset (expansions (JObj kvs)). mset (instances u))"
    by (simp add: case_prod_unfold image_mset.compositionality comp_def)
  finally show ?case .
qed (simp_all add: mset_concat_map)

subsection \<open>Expansion lowers the nesting\<close>

lemma gen_depth_elem_le:
  "x \<in> set xs \<Longrightarrow> gen_depth x \<le> gen_depth (JArr xs)"
  "(k, v) \<in> set kvs \<Longrightarrow> gen_depth v \<le> gen_depth (JObj kvs)"
  "x \<in> set xs \<Longrightarrow> gen_depth x < gen_depth (JGen xs)"
  by (auto intro!: foldr_max_ge le_imp_less_Suc)

lemma gen_depth_le_iff:
  "gen_depth (JArr xs) \<le> n \<longleftrightarrow> (\<forall>x \<in> set xs. gen_depth x \<le> n)"
  "gen_depth (JObj kvs) \<le> n \<longleftrightarrow> (\<forall>(k, v) \<in> set kvs. gen_depth v \<le> n)"
  by (auto simp: foldr_max_le)

lemma list_all2_in_left: "list_all2 P us xs \<Longrightarrow> y \<in> set us \<Longrightarrow> \<exists>x \<in> set xs. P y x"
  by (induction us xs rule: list_all2_induct) auto

lemma list_all2_in_zip:
  "list_all2 P ws kvs \<Longrightarrow> (k, w) \<in> set (zip (map fst kvs) ws) \<Longrightarrow> \<exists>v. (k, v) \<in> set kvs \<and> P w (k, v)"
  by (induction ws kvs rule: list_all2_induct) auto

lemma expansions_depth: "u \<in> set (expansions v) \<Longrightarrow> gen_depth u \<le> gen_depth v - 1"
proof (induction v arbitrary: u)
  case (JArr xs)
  then obtain us where u: "u = JArr us" "list_all2 (\<lambda>u x. u \<in> set (expansions x)) us xs"
    by (auto simp: cartesianProduct_set list.rel_map)
  have "gen_depth y \<le> gen_depth (JArr xs) - 1" if "y \<in> set us" for y
  proof -
    from list_all2_in_left [OF u(2) that] obtain x where "x \<in> set xs" "y \<in> set (expansions x)"
      by blast
    with JArr.IH [of x y] gen_depth_elem_le(1) [of x xs] show ?thesis by linarith
  qed
  with u(1) show ?case by (simp only: gen_depth_le_iff Ball_def) blast
next
  case (JObj kvs)
  then obtain us where u: "u = JObj (zip (map fst kvs) us)"
      "list_all2 (\<lambda>u kv. u \<in> set (expansions (snd kv))) us kvs"
    by (auto simp: expansions_props_iff simp del: expansions.simps)
  have "gen_depth y \<le> gen_depth (JObj kvs) - 1" if "(k, y) \<in> set (zip (map fst kvs) us)" for k y
  proof -
    from list_all2_in_zip [OF u(2) that] obtain v where "(k, v) \<in> set kvs" "y \<in> set (expansions v)"
      by auto
    with JObj.IH [of "(k, v)" v y] gen_depth_elem_le(2) [of k v kvs] show ?thesis
      by (fastforce simp: snds.simps)
  qed
  with u(1) show ?case by (simp only: gen_depth_le_iff Ball_def case_prod_unfold) (metis prod.collapse)
next
  case (JGen xs)
  with gen_depth_elem_le(3) [of u xs] show ?case by simp
qed auto

lemma expansions_wf: "wf_space v \<Longrightarrow> u \<in> set (expansions v) \<Longrightarrow> wf_space u"
proof (induction v arbitrary: u)
  case (JArr xs)
  then obtain us where "u = JArr us" "list_all2 (\<lambda>u x. u \<in> set (expansions x)) us xs"
    by (auto simp: cartesianProduct_set list.rel_map)
  with JArr show ?case
    by (auto simp: list_all_iff list_all2_conv_all_nth in_set_conv_nth) (metis nth_mem)
next
  case (JObj kvs)
  then obtain us where u: "u = JObj (zip (map fst kvs) us)"
      "list_all2 (\<lambda>u kv. u \<in> set (expansions (snd kv))) us kvs"
    by (auto simp: expansions_props_iff simp del: expansions.simps)
  have "wf_space y" if "(k, y) \<in> set (zip (map fst kvs) us)" for k y
    using list_all2_in_zip [OF u(2) that] JObj.IH [of "(k, v)" v y for v] JObj.prems(1)
    by (fastforce simp: list_all_iff snds.simps)
  with u JObj.prems(1) show ?case by (auto simp: list_all_iff list_all2_lengthD)
qed (auto simp: list_all_iff)

section \<open>Filling by paths\<close>

abbreviation fun_paths :: "jsval \<Rightarrow> path list" where
  "fun_paths v \<equiv> recPathOfFunctions v []"

text \<open>What the generators at the open places yield, and the filled template.\<close>

fun gen_elems :: "jsval option \<Rightarrow> jsval list" where
  "gen_elems (Some (JGen xs)) = xs"
| "gen_elems _ = []"

definition gens_of :: "jsval \<Rightarrow> jsval list list" where
  "gens_of v = map (\<lambda>p. gen_elems (cwalk v p)) (fun_paths v)"

definition fill :: "jsval \<Rightarrow> path list \<Rightarrow> jsval list \<Rightarrow> jsval" where
  "fill v ps ws = foldl (\<lambda>obj (p, w). put obj p w) v (zip ps ws)"

lemma fun_paths_function [simp]: "is_function v \<Longrightarrow> fun_paths v = [[]]"
  by (cases v) auto

lemma fun_paths_init:
  "\<not> is_function v \<Longrightarrow> recPathOfFunctions v p = map ((@) p) (fun_paths v)"
  "function_paths_elems i xs p = map ((@) p) (function_paths_elems i xs [])"
  "function_paths_props kvs p = map ((@) p) (function_paths_props kvs [])"
proof -
  have a: "\<not> is_function v \<longrightarrow> recPathOfFunctions v (p @ q) = map ((@) p) (recPathOfFunctions v q)"
    "function_paths_elems i xs (p @ q) = map ((@) p) (function_paths_elems i xs q)"
    "function_paths_props kvs (p @ q) = map ((@) p) (function_paths_props kvs q)"
    for v i xs kvs q
    by (induction v q and i xs q and kvs q
        rule: recPathOfFunctions_function_paths_elems_function_paths_props.induct) auto
  show "\<not> is_function v \<Longrightarrow> recPathOfFunctions v p = map ((@) p) (fun_paths v)"
    "function_paths_elems i xs p = map ((@) p) (function_paths_elems i xs [])"
    "function_paths_props kvs p = map ((@) p) (function_paths_props kvs [])"
    using a(1) [of v "[]"] a(2) [of i xs "[]"] a(3) [of kvs "[]"] by simp_all
qed

lemma function_paths_elems_Cons [simp]:
  "function_paths_elems i (x # xs) []
   = map ((#) (idx_key i)) (fun_paths x) @ function_paths_elems (Suc i) xs []"
  using fun_paths_init(1) [of x "[idx_key i]"] by (cases "is_function x") auto

lemma function_paths_props_Cons [simp]:
  "function_paths_props ((k, v) # kvs) []
   = map ((#) k) (fun_paths v) @ function_paths_props kvs []"
  using fun_paths_init(1) [of v "[k]"] by (cases "is_function v") auto

declare function_paths_elems.simps(2) [simp del] function_paths_props.simps(2) [simp del]

text \<open>Filling below a child, and the two blocks of a container.\<close>

lemma update_same: "map_of kvs k = Some v \<Longrightarrow> AList.update k v kvs = kvs"
  by (induction kvs) auto

lemma update_update: "AList.update k w (AList.update k v kvs) = AList.update k w kvs"
  by (induction kvs) auto

lemma update_mid: "k \<notin> fst ` set as \<Longrightarrow> AList.update k w (as @ (k, v) # bs) = as @ (k, w) # bs"
  by (induction as) auto

lemma set_child_same: "child v k = Some c \<Longrightarrow> set_child v k c = v"
  by (cases v) (auto simp: update_same split: option.splits if_splits)

lemma set_child_twice: "set_child (set_child v k a) k b = set_child v k b"
  by (cases v) (auto simp: update_update split: option.splits)

lemma fill_child:
  "child v k = Some c \<Longrightarrow> fill v (map ((#) k) ps) ws = set_child v k (fill c ps ws)"
proof (induction ps arbitrary: v c ws)
  case (Cons p ps)
  show ?case
  proof (cases ws)
    case (Cons w ws')
    have "child (set_child v k (put c p w)) k = Some (put c p w)"
      using Cons.prems by (simp add: child_set_child)
    from Cons.IH [OF this, of ws'] Cons Cons.prems show ?thesis
      by (simp add: fill_def set_child_twice)
  qed (use Cons.prems in \<open>simp add: fill_def set_child_same\<close>)
qed (simp add: fill_def set_child_same)

lemma fill_append:
  "length ws = length ps \<Longrightarrow> fill v (ps @ qs) (ws @ us) = fill (fill v ps ws) qs us"
  by (simp add: fill_def)

lemma child_mid [simp]: "child (JArr (ys @ x # xs)) (idx_key (length ys)) = Some x"
  by simp

lemma set_child_mid [simp]:
  "set_child (JArr (ys @ x # xs)) (idx_key (length ys)) w = JArr (ys @ w # xs)"
  by simp

text \<open>All ways to fill, in the order of the product.\<close>

definition fillings :: "jsval \<Rightarrow> jsval list" where
  "fillings v = map (fill v (fun_paths v)) (cartesianProduct (gens_of v))"

lemma gens_of_length [simp]: "length (gens_of v) = length (fun_paths v)"
  by (simp add: gens_of_def)

lemma cartesianProduct_length: "ws \<in> set (cartesianProduct ss) \<Longrightarrow> length ws = length ss"
  by (auto simp: cartesianProduct_set dest: list_all2_lengthD)

lemma concat_map_concat:
  "concat (map f (concat xss)) = concat (map (\<lambda>xs. concat (map f xs)) xss)"
  "((@) (x # xs)) = (\<lambda>ys. x # xs @ ys)"
  by (induction xss) auto

lemma cartesianProduct_append:
  "cartesianProduct (ss @ ts)
   = concat (map (\<lambda>ws. map ((@) ws) (cartesianProduct ts)) (cartesianProduct ss))"
proof (induction ss)
  case Nil
  show ?case by (simp add: map_idI)
next
  case (Cons s ss)
  have "map ((#) x) (cartesianProduct (ss @ ts))
      = concat (map (\<lambda>ws. map (\<lambda>us. x # ws @ us) (cartesianProduct ts)) (cartesianProduct ss))" for x
    by (simp add: Cons.IH map_concat comp_def)
  then show ?case by (simp add: concat_map_concat comp_def)
qed

lemma fill_block:
  assumes c: "child v k = Some x"
  shows "map (fill v (map ((#) k) (fun_paths x) @ ps)) (cartesianProduct (gens_of x @ gs))
    = concat (map (\<lambda>z. map (fill (set_child v k z) ps) (cartesianProduct gs)) (fillings x))"
proof -
  have block: "map (fill v (map ((#) k) (fun_paths x) @ ps)) (map ((@) ws) (cartesianProduct gs))
      = map (fill (set_child v k (fill x (fun_paths x) ws)) ps) (cartesianProduct gs)"
    if "ws \<in> set (cartesianProduct (gens_of x))" for ws
    using cartesianProduct_length [OF that] by (simp add: fill_append fill_child [OF c])
  have "map (\<lambda>ws. map (fill v (map ((#) k) (fun_paths x) @ ps)) (map ((@) ws) (cartesianProduct gs)))
        (cartesianProduct (gens_of x))
      = map (\<lambda>ws. map (fill (set_child v k (fill x (fun_paths x) ws)) ps) (cartesianProduct gs))
        (cartesianProduct (gens_of x))"
    by (rule map_cong [OF refl block])
  then show ?thesis
    by (simp only: cartesianProduct_append map_concat fillings_def map_map comp_def)
qed

lemma elems_gens:
  "map (\<lambda>p. gen_elems (cwalk (JArr (ys @ xs)) p)) (function_paths_elems (length ys) xs [])
   = concat (map gens_of xs)"
proof (induction xs arbitrary: ys)
  case (Cons x xs)
  from Cons.IH [of "ys @ [x]"] show ?case by (simp add: gens_of_def del: child.simps)
qed simp

lemma elems_fillings:
  "map (fill (JArr (ys @ xs)) (function_paths_elems (length ys) xs []))
     (cartesianProduct (concat (map gens_of xs)))
   = map (\<lambda>zs. JArr (ys @ zs)) (cartesianProduct (map fillings xs))"
proof (induction xs arbitrary: ys)
  case (Cons x xs)
  have "map (fill (JArr (ys @ x # xs)) (function_paths_elems (length ys) (x # xs) []))
      (cartesianProduct (concat (map gens_of (x # xs))))
    = concat (map (\<lambda>z. map (fill (JArr ((ys @ [z]) @ xs)) (function_paths_elems (length (ys @ [z])) xs []))
        (cartesianProduct (concat (map gens_of xs)))) (fillings x))"
    using fill_block [OF child_mid, of ys x xs "function_paths_elems (Suc (length ys)) xs []"
        "concat (map gens_of xs)"] by (simp del: child.simps set_child.simps)
  also have "\<dots> = map (\<lambda>zs. JArr (ys @ zs)) (cartesianProduct (map fillings (x # xs)))"
    by (simp only: Cons.IH) (simp add: map_concat comp_def)
  finally show ?case .
qed (simp add: fill_def)

lemma map_of_mid [simp]: "k \<notin> fst ` set as \<Longrightarrow> map_of (as @ (k, v) # bs) k = Some v"
  by (induction as) auto

lemma props_gens:
  "distinct (map fst (as @ kvs)) \<Longrightarrow>
   map (\<lambda>p. gen_elems (cwalk (JObj (as @ kvs)) p)) (function_paths_props kvs [])
   = concat (map (\<lambda>kv. gens_of (snd kv)) kvs)"
proof (induction kvs arbitrary: as)
  case (Cons kv kvs)
  obtain k v where kv: "kv = (k, v)" by (cases kv)
  have "map_of (as @ (k, v) # kvs) k = Some v"
    using Cons.prems kv by (intro map_of_mid) auto
  with Cons.IH [of "as @ [kv]"] Cons.prems kv show ?case by (simp add: gens_of_def)
qed simp

lemma props_fillings:
  "distinct (map fst (as @ kvs)) \<Longrightarrow>
   map (fill (JObj (as @ kvs)) (function_paths_props kvs []))
     (cartesianProduct (concat (map (\<lambda>kv. gens_of (snd kv)) kvs)))
   = map (\<lambda>zs. JObj (as @ zip (map fst kvs) zs)) (cartesianProduct (map (\<lambda>kv. fillings (snd kv)) kvs))"
proof (induction kvs arbitrary: as)
  case (Cons kv kvs)
  obtain k v where kv: "kv = (k, v)" by (cases kv)
  have k: "k \<notin> fst ` set as" and d: "distinct (map fst ((as @ [(k, z)]) @ kvs))" for z
    using Cons.prems kv by auto
  have c: "child (JObj (as @ (k, v) # kvs)) k = Some v"
    using k by (simp del: map_of_append)
  have "map (fill (JObj (as @ kv # kvs)) (function_paths_props (kv # kvs) []))
      (cartesianProduct (concat (map (\<lambda>kv. gens_of (snd kv)) (kv # kvs))))
    = concat (map (\<lambda>z. map (fill (JObj ((as @ [(k, z)]) @ kvs)) (function_paths_props kvs []))
        (cartesianProduct (concat (map (\<lambda>kv. gens_of (snd kv)) kvs)))) (fillings v))"
    using fill_block [OF c, of "function_paths_props kvs []" "concat (map (\<lambda>kv. gens_of (snd kv)) kvs)"]
      k kv by (simp add: update_mid)
  also have "\<dots> = map (\<lambda>zs. JObj (as @ zip (map fst (kv # kvs)) zs))
      (cartesianProduct (map (\<lambda>kv. fillings (snd kv)) (kv # kvs)))"
    by (simp only: Cons.IH [OF d]) (simp add: map_concat comp_def kv)
  finally show ?case .
qed (simp add: fill_def)

text \<open>Filling all open places is expanding one level.\<close>

lemma fillings_expansions: "wf_space v \<Longrightarrow> fillings v = expansions v"
proof (induction v)
  case (JArr xs)
  then have "map fillings xs = map expansions xs" by (auto simp: list_all_iff)
  with elems_fillings [of "[]" xs] elems_gens [of "[]" xs] show ?case
    by (simp add: fillings_def gens_of_def [of "JArr xs"] del: map_eq_conv)
next
  case (JObj kvs)
  then have "map (\<lambda>kv. fillings (snd kv)) kvs = map (\<lambda>kv. expansions (snd kv)) kvs"
    by (fastforce simp: list_all_iff snds.simps)
  with props_fillings [of "[]" kvs] props_gens [of "[]" kvs] JObj.prems show ?case
    by (simp add: fillings_def gens_of_def [of "JObj kvs"] case_prod_unfold del: map_eq_conv)
next
  case (JGen xs)
  show ?case by (simp add: fillings_def gens_of_def fill_def comp_def)
qed (simp_all add: fillings_def gens_of_def fill_def)

section \<open>The open places\<close>

lemma function_paths_elems_mem:
  "p \<in> set (function_paths_elems i xs []) \<longleftrightarrow>
   (\<exists>j<length xs. \<exists>q \<in> set (fun_paths (xs ! j)). p = idx_key (i + j) # q)"
proof (induction xs arbitrary: i)
  case (Cons x xs)
  show ?case
    unfolding function_paths_elems_Cons set_append Un_iff Cons.IH
    by (auto simp: less_Suc_eq_0_disj image_iff)
qed simp

lemma function_paths_props_mem:
  "p \<in> set (function_paths_props kvs []) \<longleftrightarrow>
   (\<exists>(k, v) \<in> set kvs. \<exists>q \<in> set (fun_paths v). p = k # q)"
  by (induction kvs) (auto simp: image_iff)

lemma fun_paths_lead_to_functions:
  "wf_space v \<Longrightarrow> p \<in> set (fun_paths v) \<Longrightarrow> \<exists>xs. cwalk v p = Some (JGen xs)"
proof (induction v arbitrary: p)
  case (JArr xs)
  then obtain j q where j: "j < length xs" "q \<in> set (fun_paths (xs ! j))" "p = idx_key j # q"
    by (auto simp: function_paths_elems_mem)
  with JArr.IH [of "xs ! j" q] JArr.prems show ?case by (auto simp: list_all_iff)
next
  case (JObj kvs)
  then obtain k v q where kv: "(k, v) \<in> set kvs" "q \<in> set (fun_paths v)" "p = k # q"
    by (auto simp: function_paths_props_mem)
  with JObj.IH [of "(k, v)" v q] JObj.prems show ?case
    by (auto simp: list_all_iff snds.simps)
qed auto

lemma fun_paths_nonempty: "\<not> is_function v \<Longrightarrow> p \<in> set (fun_paths v) \<Longrightarrow> p \<noteq> []"
  by (cases v) (auto simp: function_paths_elems_mem function_paths_props_mem)

text \<open>No open place is inside another one.\<close>

abbreviation apart :: "path \<Rightarrow> path \<Rightarrow> bool" where
  "apart p q \<equiv> \<not> prefix p q \<and> \<not> prefix q p"

lemma apart_elems:
  "(\<And>x. x \<in> set xs \<Longrightarrow> sorted_wrt apart (fun_paths x)) \<Longrightarrow>
   sorted_wrt apart (function_paths_elems i xs [])"
  by (induction xs arbitrary: i)
    (auto simp: sorted_wrt_append sorted_wrt_map function_paths_elems_mem)

lemma apart_props:
  "(\<And>k v. (k, v) \<in> set kvs \<Longrightarrow> sorted_wrt apart (fun_paths v)) \<Longrightarrow> distinct (map fst kvs) \<Longrightarrow>
   sorted_wrt apart (function_paths_props kvs [])"
proof (induction kvs)
  case (Cons kv kvs)
  obtain k v where "kv = (k, v)" by (cases kv)
  with Cons show ?case
    by (force simp: sorted_wrt_append sorted_wrt_map function_paths_props_mem)
qed simp

lemma fun_paths_apart: "wf_space v \<Longrightarrow> sorted_wrt apart (fun_paths v)"
proof (induction v)
  case (JArr xs)
  then show ?case by (simp add: apart_elems list_all_iff)
next
  case (JObj kvs)
  have "sorted_wrt apart (fun_paths v)" if "(k, v) \<in> set kvs" for k v
    using JObj.IH [of "(k, v)" v] JObj.prems that by (auto simp: list_all_iff snds.simps)
  with JObj.prems show ?case by (simp add: apart_props)
qed auto

lemma function_paths_Nil_iff:
  "function_paths_elems i xs [] = [] \<longleftrightarrow> (\<forall>x \<in> set xs. fun_paths x = [])"
  "function_paths_props kvs [] = [] \<longleftrightarrow> (\<forall>kv \<in> set kvs. fun_paths (snd kv) = [])"
proof -
  show "function_paths_elems i xs [] = [] \<longleftrightarrow> (\<forall>x \<in> set xs. fun_paths x = [])"
    by (induction xs arbitrary: i) auto
  show "function_paths_props kvs [] = [] \<longleftrightarrow> (\<forall>kv \<in> set kvs. fun_paths (snd kv) = [])"
    by (induction kvs) auto
qed

lemma no_fun_paths_iff: "fun_paths v = [] \<longleftrightarrow> gen_depth v = 0"
proof (induction v)
  case (JArr xs)
  with gen_depth_le_iff(1) [of xs 0] show ?case by (simp add: function_paths_Nil_iff)
next
  case (JObj kvs)
  then have "\<forall>kv \<in> set kvs. fun_paths (snd kv) = [] \<longleftrightarrow> gen_depth (snd kv) = 0"
    by (auto simp: snds.simps)
  with gen_depth_le_iff(2) [of kvs 0] show ?case by (auto simp: function_paths_Nil_iff)
qed auto

text \<open>A closed template stands for itself.\<close>

lemma cartesianProduct_singletons: "cartesianProduct (map (\<lambda>x. [f x]) xs) = [map f xs]"
  by (induction xs) auto

lemma instances_closed: "gen_depth v = 0 \<Longrightarrow> instances v = [v]"
proof (induction v)
  case (JArr xs)
  then have "map instances xs = map (\<lambda>x. [x]) xs"
    using gen_depth_le_iff(1) [of xs 0] by (auto simp del: gen_depth.simps)
  then have "instances (JArr xs) = map JArr (cartesianProduct (map (\<lambda>x. [x]) xs))"
    by (simp only: instances.simps)
  then show ?case using cartesianProduct_singletons [of "\<lambda>x. x" xs] by simp
next
  case (JObj kvs)
  then have "map (\<lambda>(k, v). instances v) kvs = map (\<lambda>kv. [snd kv]) kvs"
    using gen_depth_le_iff(2) [of kvs 0] by (fastforce simp del: gen_depth.simps simp: snds.simps)
  then have "instances (JObj kvs)
      = map (\<lambda>ws. JObj (zip (map fst kvs) ws)) (cartesianProduct (map (\<lambda>kv. [snd kv]) kvs))"
    by (simp only: instances.simps)
  then show ?case
    using cartesianProduct_singletons [of snd kvs] by (simp add: zip_map_fst_snd)
qed auto

section \<open>\<open>processSpace\<close>\<close>

locale space_libs = lodash_lib L + chance_lib C for L :: lodash and C :: "'r chance"
begin

lemma foldl_lset_fill:
  assumes "sorted_wrt apart ps" and "\<And>p. p \<in> set ps \<Longrightarrow> p \<noteq> [] \<and> cwalk v p \<noteq> None"
  shows "foldl (\<lambda>obj (p, w). lset L obj p w) v (zip ps ws) = fill v ps ws"
  using assms
proof (induction ps arbitrary: v ws)
  case (Cons p ps)
  show ?case
  proof (cases ws)
    case (Cons w ws')
    have "q \<noteq> [] \<and> cwalk (put v p w) q \<noteq> None" if "q \<in> set ps" for q
      using Cons.prems that by (auto simp: cwalk_put_other)
    with Cons.IH [of "put v p w" ws'] Cons.prems Cons show ?thesis
      by (simp add: fill_def set_path)
  qed (simp add: fill_def)
qed (simp add: fill_def)

lemma newGenObj_fill:
  assumes "wf_space v" and "length ws = length (fun_paths v)"
  shows "newGenObj L v (fun_paths v) ws = fill v (fun_paths v) ws"
proof (cases "is_function v")
  case True
  with assms obtain w where "ws = [w]" by (cases ws) auto
  with True show ?thesis by (simp add: newGenObj_def fill_def)
next
  case False
  with fun_paths_nonempty [OF False] have "fun_paths v \<noteq> [[]]"
    by (metis list.set_intros(1))
  with False assms(1) show ?thesis
    by (simp add: newGenObj_def)
      (intro foldl_lset_fill fun_paths_apart conjI;
        fastforce dest: fun_paths_lead_to_functions fun_paths_nonempty)
qed

text \<open>The generators that are called yield the elements, shuffled or not.\<close>

lemma arrayToGenerator_mset [simp]: "mset (arrayToGenerator C xs seed) = mset xs"
  by (simp add: arrayToGenerator_def shuffle_mset split: option.split)

lemma space_gens_of:
  assumes "wf_space v" and "fun_paths v \<noteq> []"
  obtains gens where "space_gens L C v (fun_paths v) seed = Returned gens"
    and "mset (cartesianProduct gens) = mset (cartesianProduct (gens_of v))"
proof -
  let ?g = "\<lambda>p. arrayToGenerator C (gen_elems (cwalk v p)) seed"
  have "space_gens L C v (fun_paths v) seed = Returned (map ?g (fun_paths v))"
  proof (cases "is_function v")
    case True
    then show ?thesis by (cases v) (auto simp: space_gens_def)
  next
    case False
    with fun_paths_nonempty [OF False] have ne: "fun_paths v \<noteq> [[]]"
      by (metis list.set_intros(1))
    have "call_generator C (lget L v p) seed = Returned (?g p)" if "p \<in> set (fun_paths v)" for p
      using fun_paths_lead_to_functions [OF assms(1) that] fun_paths_nonempty [OF False that]
      by (auto simp: get_path cwalk_walk)
    with ne show ?thesis by (simp add: space_gens_def map_outcome_map)
  qed
  moreover have "mset (cartesianProduct (map ?g (fun_paths v))) = mset (cartesianProduct (gens_of v))"
    by (intro mset_product_cong) (simp add: gens_of_def list.rel_map list.rel_refl)
  ultimately show thesis by (rule that)
qed

lemma expansion_step:
  assumes "wf_space v" and "fun_paths v \<noteq> []"
  obtains gens where "space_gens L C v (fun_paths v) seed = Returned gens"
    and "image_mset (newGenObj L v (fun_paths v)) (mset (cartesianProduct gens)) = mset (expansions v)"
proof -
  obtain gens where g: "space_gens L C v (fun_paths v) seed = Returned gens"
    "mset (cartesianProduct gens) = mset (cartesianProduct (gens_of v))"
    using space_gens_of [OF assms] by blast
  have "newGenObj L v (fun_paths v) ws = fill v (fun_paths v) ws"
    if "ws \<in># mset (cartesianProduct (gens_of v))" for ws
    using cartesianProduct_length [of ws "gens_of v"] that assms(1) by (intro newGenObj_fill) auto
  then have "image_mset (newGenObj L v (fun_paths v)) (mset (cartesianProduct gens)) = mset (fillings v)"
    unfolding g(2) fillings_def mset_map by (rule image_mset_cong)
  with assms(1) g(1) show thesis by (intro that) (auto simp: fillings_expansions)
qed

text \<open>The enumeration ends, and yields every instance as often as the template stands for it.\<close>

theorem processSpace_enumerates:
  "wf_space v \<Longrightarrow> gen_depth v < n \<Longrightarrow>
   \<exists>ys. processSpace L C n v seed = Returned ys \<and> mset ys = mset (instances v)"
proof (induction n arbitrary: v seed)
  case (Suc n)
  show ?case
  proof (cases "fun_paths v = []")
    case True
    then show ?thesis by (simp add: no_fun_paths_iff instances_closed)
  next
    case False
    let ?new = "newGenObj L v (fun_paths v)"
    obtain gens where g: "space_gens L C v (fun_paths v) seed = Returned gens"
      "image_mset ?new (mset (cartesianProduct gens)) = mset (expansions v)"
      by (rule expansion_step [OF Suc.prems(1) False])
    let ?p = "\<lambda>ws. processSpace L C n (?new ws) None"
    have "\<exists>ys. ?p ws = Returned ys \<and> mset ys = mset (instances (?new ws))"
      if "ws \<in> set (cartesianProduct gens)" for ws
    proof -
      from g(2) that have u: "?new ws \<in> set (expansions v)"
        by (metis image_eqI set_image_mset set_mset_mset)
      from expansions_depth [OF u] Suc.prems(2) False have "gen_depth (?new ws) < n"
        by (auto simp: no_fun_paths_iff)
      with expansions_wf [OF Suc.prems(1) u] show ?thesis by (rule Suc.IH)
    qed
    then obtain f where f: "\<And>ws. ws \<in> set (cartesianProduct gens) \<Longrightarrow> ?p ws = Returned (f ws) \<and>
        mset (f ws) = mset (instances (?new ws))"
      by metis
    then have "map_outcome ?p (cartesianProduct gens) = Returned (map f (cartesianProduct gens))"
      by (intro map_outcome_map) blast
    then have "processSpace L C (Suc n) v seed = Returned (concat (map f (cartesianProduct gens)))"
      using False g(1) by (simp add: Let_def)
    moreover have "mset (concat (map f (cartesianProduct gens)))
        = (\<Sum>ws\<in>#mset (cartesianProduct gens). mset (instances (?new ws)))"
      unfolding mset_concat_map using f by (intro arg_cong [where f = sum_mset] image_mset_cong) simp
    moreover have "\<dots> = (\<Sum>u\<in>#image_mset ?new (mset (cartesianProduct gens)). mset (instances u))"
      by (simp only: image_mset.compositionality comp_def)
    moreover have "\<dots> = mset (instances v)"
      by (simp only: g(2) instances_expansions [of v])
    ultimately show ?thesis by simp
  qed
qed simp

end

interpretation space_libs_reference: space_libs lodash_ref chance_ref
  by unfold_locales

lemma space_libsI: "lodash_lib L \<Longrightarrow> chance_lib C \<Longrightarrow> space_libs L C"
  by (simp add: space_libs_def)

end
