(* ===== verification/SpaceTypes.thy ===== *)
theory SpaceTypes
  imports SpaceEnumeration
begin

text \<open>
  What the node spaces built by the program contain: the recorded nodes are complete (no
  generator inside), the templates are well formed, so that every enumeration ends, and what
  it yields for a node type is a complete node of that type.
\<close>

section \<open>Complete values\<close>

text \<open>
  Templates made of the values of an AST: the names of the properties of an object are distinct,
  none of them starts like an index without being one, and numbers are finite, as in every JSON
  text of the parser's output. A complete value is such a template with nothing left open.
\<close>

fun wf_template :: "jsval \<Rightarrow> bool" where
  "wf_template (JGen xs) = list_all wf_template xs"
| "wf_template (JArr xs) = list_all wf_template xs"
| "wf_template (JObj kvs) = (distinct (map fst kvs) \<and>
     list_all (\<lambda>(k, v). canonical_key k \<and> wf_template v) kvs)"
| "wf_template (JNum n) = (case n of Fin _ \<Rightarrow> True | _ \<Rightarrow> False)"
| "wf_template v = True"

lemma canonical_names [simp]:
  "canonical_key ''type''" "canonical_key ''expression''" "canonical_key ''name''"
  "canonical_key ''arguments''" "canonical_key ''names''" "canonical_key ''value''"
  "canonical_key ''number''" "canonical_key ''subdenomination''" "canonical_key ''left''"
  "canonical_key ''right''" "canonical_key ''operator''" "canonical_key ''statements''"
  by code_simp+

lemma wf_template_space: "wf_template v \<Longrightarrow> wf_space v"
  by (induction v rule: wf_template.induct) (auto simp: list_all_iff)

definition complete :: "jsval \<Rightarrow> bool" where
  "complete v \<longleftrightarrow> wf_template v \<and> gen_depth v = 0"

lemma complete_simps [simp]:
  "complete JNull" "complete (JStr s)" "complete (JBool b)" "complete (JNum (Fin z))" "\<not> complete (JGen xs)"
  "complete (JNum n) \<longleftrightarrow> (case n of Fin _ \<Rightarrow> True | _ \<Rightarrow> False)"
  "complete (JArr xs) \<longleftrightarrow> (\<forall>x \<in> set xs. complete x)"
  "complete (JObj kvs) \<longleftrightarrow> distinct (map fst kvs) \<and> (\<forall>(k, v) \<in> set kvs. canonical_key k \<and> complete v)"
  using gen_depth_le_iff(1) [of xs 0] gen_depth_le_iff(2) [of kvs 0]
  by (auto simp: complete_def list_all_iff simp del: gen_depth.simps(2,3))

lemma complete_wf: "complete v \<Longrightarrow> wf_template v"
  by (simp add: complete_def)

lemma complete_prop: "complete v \<Longrightarrow> js_prop v k = Some w \<Longrightarrow> complete w"
  by (cases v) (auto split: if_splits option.splits dest!: map_of_SomeD)

lemma complete_deepOmit: "complete n \<Longrightarrow> complete v \<Longrightarrow> complete (deepOmit n v keys)"
proof (induction v)
  case (JObj kvs)
  have "distinct (map fst (filter (\<lambda>(k, _). k \<notin> set keys) (map (\<lambda>(k, v). (k, deepOmit n v keys)) kvs)))"
    using JObj.prems by (simp add: distinct_map_filter comp_def case_prod_unfold)
  with JObj show ?case by (fastforce simp: snds.simps)
qed auto

text \<open>What a template stands for is complete.\<close>

lemma instances_complete: "wf_template v \<Longrightarrow> u \<in> set (instances v) \<Longrightarrow> complete u"
proof (induction v arbitrary: u)
  case (JArr xs)
  then obtain us where u: "u = JArr us" "list_all2 (\<lambda>u x. u \<in> set (instances x)) us xs"
    unfolding instances_elems_iff by blast
  have "complete y" if "y \<in> set us" for y
    using list_all2_in_left [OF u(2) that] JArr by (auto simp: list_all_iff)
  with u show ?case by simp
next
  case (JObj kvs)
  then obtain us where u: "u = JObj (zip (map fst kvs) us)"
      "list_all2 (\<lambda>u kv. u \<in> set (instances (snd kv))) us kvs"
    unfolding instances_props_iff by blast
  have "complete y" if "(k, y) \<in> set (zip (map fst kvs) us)" for k y
    using list_all2_in_zip [OF u(2) that] JObj.IH JObj.prems(1)
    by (fastforce simp: list_all_iff snds.simps)
  moreover have "canonical_key k" if "(k, y) \<in> set (zip (map fst kvs) us)" for k y
    using JObj.prems(1) set_zip_leftD [OF that] by (auto simp: list_all_iff)
  ultimately show ?case using u JObj.prems(1) by (auto simp: list_all2_lengthD)
qed (auto simp: list_all_iff)

section \<open>The recorded nodes\<close>

definition complete_sets :: "node_sets \<Rightarrow> bool" where
  "complete_sets sets \<longleftrightarrow> (\<forall>(t, nodes) \<in> set sets. \<forall>(n, sc) \<in> set nodes. complete n)"

lemma complete_empty_node_sets: "complete_sets empty_node_sets"
  by (auto simp: complete_sets_def empty_node_sets_def)

lemma in_set_update: "(k, v) \<in> set (AList.update k' w kvs) \<Longrightarrow> (k, v) \<in> set kvs \<or> (k = k' \<and> v = w)"
  by (induction kvs) (auto split: if_splits)

text \<open>An invariant of the visitor's state, for values with a property that is passed on to
  elements and properties, is kept by the traversal.\<close>

lemma visit_elems_invariant:
  "(\<And>x p s s'. x \<in> set xs \<Longrightarrow> P s \<Longrightarrow> visitWithPath enter leave x p s = Inr s' \<Longrightarrow> P s') \<Longrightarrow>
   P s \<Longrightarrow> visit_elems enter leave i xs p s = Inr s' \<Longrightarrow> P s'"
proof (induction xs arbitrary: i s)
  case (Cons x xs)
  from Cons.prems(3) obtain s1 where "visitWithPath enter leave x (p @ [idx_key i]) s = Inr s1"
    "visit_elems enter leave (Suc i) xs p s1 = Inr s'" by auto
  with Cons.IH [of s1 "Suc i"] Cons.prems(1,2) show ?case by (meson list.set_intros)
qed auto

lemma visit_props_invariant:
  "(\<And>k v p s s'. (k, v) \<in> set kvs \<Longrightarrow> P s \<Longrightarrow> visitWithPath enter leave v p s = Inr s' \<Longrightarrow> P s') \<Longrightarrow>
   P s \<Longrightarrow> visit_props enter leave kvs p s = Inr s' \<Longrightarrow> P s'"
proof (induction kvs arbitrary: s)
  case (Cons kv kvs)
  obtain k v where kv: "kv = (k, v)" by (cases kv)
  with Cons.prems(3) obtain s1 where "visitWithPath enter leave v (p @ [k]) s = Inr s1"
    "visit_props enter leave kvs p s1 = Inr s'" by auto
  with Cons.IH [of s1] Cons.prems(1,2) kv show ?case by (meson list.set_intros)
qed auto

lemma visit_invariant:
  assumes elems: "\<And>xs x. Q (JArr xs) \<Longrightarrow> x \<in> set xs \<Longrightarrow> Q x"
    and props: "\<And>kvs k v. Q (JObj kvs) \<Longrightarrow> (k, v) \<in> set kvs \<Longrightarrow> Q v"
    and enter: "\<And>v p s s' c. Q v \<Longrightarrow> P s \<Longrightarrow> enter v p s = Inr (s', c) \<Longrightarrow> P s'"
    and leave: "\<And>v p s s'. Q v \<Longrightarrow> P s \<Longrightarrow> leave v p s = Inr s' \<Longrightarrow> P s'"
  shows "Q v \<Longrightarrow> P s \<Longrightarrow> visitWithPath enter leave v p s = Inr s' \<Longrightarrow> P s'"
proof (induction v arbitrary: p s s')
  case (JArr xs)
  have v: "visit_elems enter leave 0 xs p s = Inr s'" using JArr.prems(3) by simp
  show ?case
  proof (rule visit_elems_invariant [where P = P, OF _ JArr.prems(2) v])
    fix x p s s'
    assume "x \<in> set xs" "P s" "visitWithPath enter leave x p s = Inr s'"
    with JArr.IH elems [OF JArr.prems(1)] show "P s'" by blast
  qed
next
  case (JObj kvs)
  show ?case
  proof (cases "isASTNode (Some (JObj kvs))")
    case True
    with JObj.prems(3) obtain s1 c where 1: "enter (JObj kvs) p s = Inr (s1, c)"
      and r: "(if \<not> c then Inr s1 else bind_result (visit_props enter leave kvs p s1)
        (leave (JObj kvs) p)) = Inr s'"
      by auto
    from enter [OF JObj.prems(1,2) 1] have P: "P s1" .
    show ?thesis
    proof (cases c)
      case True
      with r obtain s2 where s2: "visit_props enter leave kvs p s1 = Inr s2"
        "leave (JObj kvs) p s2 = Inr s'" by auto
      have "P s2"
      proof (rule visit_props_invariant [where P = P, OF _ P s2(1)])
        fix k v p s s'
        assume kv: "(k, v) \<in> set kvs" "P s" "visitWithPath enter leave v p s = Inr s'"
        with props [OF JObj.prems(1)] have "Q v" by blast
        with kv JObj.IH [of "(k, v)" v s p s'] show "P s'" by (simp add: snds.simps)
      qed
      with leave [OF JObj.prems(1)] s2(2) show ?thesis by blast
    qed (use r P in simp)
  qed (use JObj.prems in simp)
qed auto

lemma buildASTNodeSet_complete:
  assumes "complete nullCopy" "complete node" "complete_sets sets"
    and "buildASTNodeSet_visitor nullCopy ast node path sets = Inr (sets', c)"
  shows "complete_sets sets'"
  using assms
  by (fastforce simp: buildASTNodeSet_visitor_def complete_sets_def recRemoveLocInfo_def complete_deepOmit
      split: option.splits jsval.splits dest!: in_set_update map_of_SomeD)

lemma RandomASTNodeSpace_complete:
  assumes "complete nullCopy" "complete ast" "new_RandomASTNodeSpace nullCopy ast = Inr S"
  shows "complete_sets (ASTNodeMapSet S)" "\<not> seeded S"
proof -
  from assms(3) obtain sets where
    v: "visitWithPath (buildASTNodeSet_visitor nullCopy ast) (\<lambda>_ _ s. Inr s) ast [] empty_node_sets = Inr sets"
    and S: "S = \<lparr>ASTNodeMapSet = sets, seeded = False\<rparr>"
    by (auto simp: new_RandomASTNodeSpace_def)
  have "complete_sets sets"
    by (rule visit_invariant [where Q = complete and P = complete_sets, OF _ _ _ _ assms(2)
          complete_empty_node_sets v])
      (auto intro: buildASTNodeSet_complete [OF assms(1)])
  with S show "complete_sets (ASTNodeMapSet S)" "\<not> seeded S" by auto
qed

lemma SeededASTNodeSpace_complete:
  assumes "complete nullCopy" "\<forall>n \<in> set nodes. complete n" "getSeededASTNodeSpace nullCopy nodes = Inr S"
  shows "complete_sets (ASTNodeMapSet S)" "seeded S"
proof -
  have "complete_sets sets \<Longrightarrow> \<forall>n \<in> set nodes. complete n \<Longrightarrow>
      seed_node_sets nullCopy nodes sets = Inr sets' \<Longrightarrow> complete_sets sets'" for sets sets'
    by (induction nodes arbitrary: sets) (auto dest: buildASTNodeSet_complete [OF assms(1)])
  with assms complete_empty_node_sets show "complete_sets (ASTNodeMapSet S)" "seeded S"
    by (auto simp: getSeededASTNodeSpace_def)
qed

section \<open>Templates\<close>

lemma predefined_complete:
  "complete_sets sets \<Longrightarrow> getPredefinedASTNodeSet sets t sc = Inr ns \<Longrightarrow> n \<in> set ns \<Longrightarrow> complete n"
  by (fastforce simp: getPredefinedASTNodeSet_def complete_sets_def dest!: map_of_SomeD
      split: option.splits)

lemma reusable_complete:
  assumes "complete_sets sets" "getReusableNodeSet sets t sc = Inr ns" "n \<in> set ns"
  shows "complete n"
proof -
  obtain ms where ms: "getPredefinedASTNodeSet sets t sc = Inr ms"
    and ns: "(if ms = [] then Inr [] else if t = ''ExpressionStatement''
      then filter_result (reusable_statement sets sc) ms else Inr ms) = Inr ns"
    using assms(2) by (auto simp: getReusableNodeSet_def)
  from ns assms(3) have "n \<in> set ms" by (auto simp: filter_result_set split: if_splits)
  with predefined_complete [OF assms(1) ms] show ?thesis .
qed

lemma props_of_complete:
  "\<forall>n \<in> set ns. complete n \<Longrightarrow> v \<in> set (props_of k ns) \<Longrightarrow> complete v"
  by (auto simp: props_of_def List.map_filter_def intro: complete_prop)

lemma wf_gen_strings [simp]: "wf_template (gen_strings ss)"
  by (auto simp: gen_strings_def list_all_iff)

lemma wf_props_of: "\<forall>n \<in> set ns. complete n \<Longrightarrow> list_all wf_template (props_of k ns)"
  by (auto simp: list_all_iff dest: props_of_complete complete_wf)

lemma wf_nodes: "\<forall>n \<in> set ns. complete n \<Longrightarrow> list_all wf_template ns"
  by (auto simp: list_all_iff dest: complete_wf)

lemma FunctionCall_template:
  assumes "complete_sets sets" "FunctionCall_space sets ctx = Inr v"
  shows "wf_template v" "u \<in> set (instances v) \<Longrightarrow> isASTNode (Some u) \<and> has_type u ''FunctionCall''"
  using assms reusable_complete [OF assms(1)]
  by (auto simp: FunctionCall_space_def wf_props_of has_type_def)

lemma NumberLiteral_template:
  assumes "complete_sets sets" "NumberLiteral_space sets ctx = Inr v"
  shows "wf_template v" "u \<in> set (instances v) \<Longrightarrow> isASTNode (Some u) \<and> has_type u ''NumberLiteral''"
  using assms reusable_complete [OF assms(1)]
  by (auto simp: NumberLiteral_space_def wf_props_of has_type_def)

lemma BinaryOperation_template:
  assumes "complete_sets sets" "BinaryOperation_space sets ctx = Inr v"
  shows "wf_template v" "u \<in> set (instances v) \<Longrightarrow> isASTNode (Some u) \<and> has_type u ''BinaryOperation''"
  using assms reusable_complete [OF assms(1)]
  by (auto simp: BinaryOperation_space_def wf_props_of has_type_def)

lemma Identifier_nodes_complete:
  "complete_sets sets \<Longrightarrow> Identifier_nodes sets ctx = Inr (Some ids) \<Longrightarrow> \<forall>n \<in> set ids. complete n"
  by (auto simp: Identifier_nodes_def dest: reusable_complete split: option.splits)

lemma AssignmentOperation_template:
  assumes "complete_sets sets" "AssignmentOperation_space sets ctx = Inr (Some v)"
  shows "wf_template v"
proof -
  obtain ids b where ids: "Identifier_nodes sets ctx = Inr (Some ids)"
    and b: "BinaryOperation_space sets ctx = Inr b"
    and v: "v = JGen [set_child (set_child b ''left'' (JGen ids)) ''operator'' (gen_strings [''=''])]"
    using assms(2) by (auto simp: AssignmentOperation_space_def split: option.splits)
  from b reusable_complete [OF assms(1)] wf_nodes [OF Identifier_nodes_complete [OF assms(1) ids]]
  show ?thesis by (auto simp: v BinaryOperation_space_def wf_props_of)
qed

lemma ExpressionStatement_template:
  assumes "complete_sets sets" "ExpressionStatement_space sets ctx = Inr v"
  shows "wf_template v" "u \<in> set (instances v) \<Longrightarrow> isASTNode (Some u) \<and> has_type u ''ExpressionStatement''"
proof -
  obtain bo call ss where bo: "AssignmentOperation_space sets ctx = Inr bo"
    and call: "FunctionCall_space sets ctx = Inr call"
    and ss: "getReusableNodeSet sets ''ExpressionStatement'' (ctx_scope ctx) = Inr ss"
    and v: "v = JObj [(''type'', JStr ''ExpressionStatement''),
       (''expression'', JGen ((case bo of None \<Rightarrow> [] | Some b \<Rightarrow> [b]) @ [call] @ props_of ''expression'' ss))]"
    using assms(2) by (auto simp: ExpressionStatement_space_def BinaryOperationStatement_space_def)
  show "wf_template v"
    using v bo FunctionCall_template(1) [OF assms(1) call] reusable_complete [OF assms(1) ss]
      AssignmentOperation_template [OF assms(1)]
    by (auto simp: wf_props_of split: option.splits)
  show "u \<in> set (instances v) \<Longrightarrow> isASTNode (Some u) \<and> has_type u ''ExpressionStatement''"
    by (auto simp: v has_type_def)
qed

text \<open>Every template of a space with complete nodes is well formed; those of a random space,
  except that of identifiers, stand for nodes of their type.\<close>

lemma node_space_wf:
  assumes "complete_sets (ASTNodeMapSet S)" and "node_space S t ctx = Some (Inr (Some v))"
  shows "wf_template v"
  using assms Identifier_nodes_complete [OF assms(1), of ctx, THEN wf_nodes]
    predefined_complete [OF assms(1), of t None, THEN complete_wf]
  by (auto simp: node_space_def getSeededASTNodeBase_def ASTNodeSpace_method_def UnaryOperation_space_def
      Conditional_space_def BooleanLiteral_space_def list_all_iff
      split: if_splits dest: ExpressionStatement_template(1) FunctionCall_template(1)
        NumberLiteral_template(1) BinaryOperation_template(1))

lemma node_space_type:
  assumes "complete_sets (ASTNodeMapSet S)" and "node_space S t ctx = Some (Inr (Some v))"
    and "\<not> seeded S" and "t \<noteq> ''Identifier''" and "u \<in> set (instances v)"
  shows "isASTNode (Some u) \<and> has_type u t"
  using assms
  by (auto simp: node_space_def ASTNodeSpace_method_def UnaryOperation_space_def
      Conditional_space_def BooleanLiteral_space_def has_type_def [of _ "''BooleanLiteral''"]
      split: if_splits dest: ExpressionStatement_template(2) FunctionCall_template(2)
        NumberLiteral_template(2) BinaryOperation_template(2))

context space_libs
begin

lemma generator_enumerates:
  assumes "complete_sets (ASTNodeMapSet S)" and "node_space S t ctx = Some (Inr (Some v))"
  shows "\<exists>ys. getASTNodeGenerator L C S t ctx seed = Returned ys \<and> mset ys = mset (instances v)"
  using processSpace_enumerates [OF wf_template_space [OF node_space_wf [OF assms]], of "Suc (gen_depth v)" seed] assms(2)
  by (simp add: getASTNodeGenerator_def del: processSpace.simps)

lemma generator_returns:
  assumes "complete_sets (ASTNodeMapSet S)"
  shows "getASTNodeGenerator L C S t ctx seed \<noteq> Unfinished"
proof (cases "node_space S t ctx")
  case (Some r)
  show ?thesis
  proof (cases r)
    case (Inr x)
    show ?thesis
    proof (cases x)
      case (Some v)
      with generator_enumerates [OF assms, of t ctx v seed] \<open>node_space S t ctx = Some r\<close> Inr
      show ?thesis by auto
    qed (use Some Inr in \<open>simp add: getASTNodeGenerator_def\<close>)
  qed (use Some in \<open>simp add: getASTNodeGenerator_def\<close>)
qed (simp add: getASTNodeGenerator_def)

lemma generator_Returned:
  assumes "complete_sets (ASTNodeMapSet S)" "getASTNodeGenerator L C S t ctx seed = Returned ys"
  obtains v where "node_space S t ctx = Some (Inr (Some v))" "mset ys = mset (instances v)"
proof -
  from assms(2) obtain v where v: "node_space S t ctx = Some (Inr (Some v))"
    by (auto simp: getASTNodeGenerator_def split: option.splits)
  with generator_enumerates [OF assms(1) v, of seed] assms(2) show thesis by (auto intro: that)
qed

text \<open>How many nodes there are does not depend on the seed.\<close>

lemma generator_length:
  assumes "complete_sets (ASTNodeMapSet S)" "getASTNodeGenerator L C S t ctx seed = Returned ys"
    and "getASTNodeGenerator L C S t ctx seed' = Returned ys'"
  shows "length ys = length ys'"
proof -
  obtain v where v: "node_space S t ctx = Some (Inr (Some v))" "mset ys = mset (instances v)"
    by (rule generator_Returned [OF assms(1,2)])
  obtain v' where v': "node_space S t ctx = Some (Inr (Some v'))" "mset ys' = mset (instances v')"
    by (rule generator_Returned [OF assms(1,3)])
  from v v' have "mset ys = mset ys'" by simp
  then show ?thesis by (rule mset_eq_length)
qed

text \<open>What a random space yields: complete nodes of the type asked for.\<close>

lemma generated_nodes:
  assumes "complete nullCopy" "complete ast" "new_RandomASTNodeSpace nullCopy ast = Inr S"
    and "getASTNodeGenerator L C S t ctx seed = Returned ys" and "t \<noteq> ''Identifier''" and "n \<in> set ys"
  shows "isASTNode (Some n) \<and> has_type n t \<and> complete n"
proof -
  note S = RandomASTNodeSpace_complete [OF assms(1-3)]
  obtain v where v: "node_space S t ctx = Some (Inr (Some v))" "mset ys = mset (instances v)"
    by (rule generator_Returned [OF S(1) assms(4)])
  then have "set ys = set (instances v)" by (metis set_mset_mset)
  with v show ?thesis
    using node_space_type [OF S(1) v(1) S(2) assms(5)] assms(6)
      instances_complete [OF node_space_wf [OF S(1) v(1)]] by auto
qed

end

text \<open>The membership test is never answered with true: once nothing is open, an assertion
  that something is open fails.\<close>

lemma node_in_space_not_True: "node_in_space L C n space target \<noteq> Returned True"
proof (induction n arbitrary: space)
  case (Suc n)
  show ?case
  proof
    assume "node_in_space L C (Suc n) space target = Returned True"
    then obtain gens where "some_outcome
        (\<lambda>genRst. node_in_space L C n (newGenObj L space (fun_paths space) genRst) target)
        (cartesianProduct gens) = Returned True"
      by (auto simp: Let_def split: if_splits)
    with Suc.IH show False by (auto dest: some_outcome_True)
  qed
qed simp

lemma isNodeInSpace_not_True: "isNodeInSpace L C S node ctx \<noteq> Returned True"
  by (auto simp: isNodeInSpace_def node_in_space_not_True split: option.splits jsval.splits
      simp del: node_in_space.simps)

end
