(* ===== verification/GeneratorLibs.thy ===== *)
theory GeneratorLibs
  imports SpaceTypes MovementM
begin

text \<open>
  The states of the four random generators, the requests to change their fault spaces
  (\<open>lib/Mutations/index.ts\<close>), and, in one record, the third-party functions they use with the
  laws the program relies on.
\<close>

section \<open>States\<close>

datatype faultSpaceUpdate =
  Add "path list" | Remove "path list" | Intersect "path list" | UpdateWeigh "path list"

record deletion_gen =
  dg_forAST :: jsval
  deletableSpace :: "path list"

text \<open>A place for a new node: an index of an array property, with the fault space it came from.\<close>

record insertable_place =
  fromFaultSpace :: path
  propertyPath :: path
  place_index :: nat
  weigh :: nat
  newNodeGenerationCtx :: newNodeGenerationContext

text \<open>
  The node generators in use are kept per node type and place; the JSON text of the place that
  the program takes as key stands for the place. A generator in use is the list of nodes it
  still has to yield.
\<close>

record insertion_gen =
  ig_forAST :: jsval
  ig_astNodeSpace :: ast_node_space
  insertionNewNodeGens :: "((string \<times> insertable_place) \<times> jsval list) list"
  insertableSpaces :: "insertable_place list"
  insertionNewNodeTypeSpace :: "string list"

record replaceable_node =
  rn_faultSpace :: path
  rn_newNodeTypes :: "string list"
  rn_ctx :: newNodeGenerationContext

record replacement_gen =
  rg_forAST :: jsval
  rg_astNodeSpace :: ast_node_space
  replaceNodeType :: "string list"
  newNodeTypeSpace :: "string list"
  supportedReplaceableNodes :: "replaceable_node list"
  chosenNodeNewNodeGen :: "((path \<times> string) \<times> jsval list) list"

record movement_gen =
  mg_ast :: jsval
  onlySameFunction :: bool
  pair_deletionMInsertionMutationGen :: "(deletionM \<times> insertion_gen) list"

section \<open>Libraries\<close>

text \<open>\<open>lib_nullCopy\<close> is what lodash's \<open>transform\<close> makes of null (see \<open>deepOmit\<close>).\<close>

record 'r libs =
  lib_lodash :: lodash
  lib_chance :: "'r chance"
  lib_names :: lodash_names
  lib_nullCopy :: jsval
  lib_paths :: "(path, path) lodash_coll"
  lib_places :: "(insertable_place, path) lodash_coll"
  lib_replaceables :: "(replaceable_node, path) lodash_coll"
  lib_pairs :: "(deletionM \<times> insertion_gen, path) lodash_coll"
  lib_values :: "(jsval, jsval) lodash_coll"

locale generator_libs =
  fixes D :: "'r libs"
  assumes lodash_ok: "lodash_lib (lib_lodash D)"
    and chance_ok: "chance_lib (lib_chance D)"
    and names_ok: "lodash_name_lib (lib_names D)"
    and nullCopy_ok: "complete (lib_nullCopy D)"
    and paths_ok: "lodash_arrays (lib_paths D)"
    and places_ok: "lodash_arrays (lib_places D)"
    and replaceables_ok: "lodash_arrays (lib_replaceables D)"
    and pairs_ok: "lodash_arrays (lib_pairs D)"
    and values_ok: "lodash_arrays (lib_values D)"

sublocale generator_libs \<subseteq> space_libs "lib_lodash D" "lib_chance D"
  by (rule space_libsI [OF lodash_ok chance_ok])

sublocale generator_libs \<subseteq> lodash_name_lib "lib_names D"
  by (rule names_ok)

definition libs_ref :: "nat libs" where
  "libs_ref = \<lparr>lib_lodash = lodash_ref, lib_chance = chance_ref, lib_names = lodash_names_ref,
     lib_nullCopy = JObj [], lib_paths = lodash_coll_ref, lib_places = lodash_coll_ref,
     lib_replaceables = lodash_coll_ref, lib_pairs = lodash_coll_ref, lib_values = lodash_coll_ref\<rparr>"

interpretation generator_libs_reference: generator_libs libs_ref
  by (rule generator_libs.intro)
    (simp_all add: libs_ref_def lodash_lib_ref chance_lib_ref lodash_name_lib_ref lodash_arrays_ref)

lemma generator_libs_ref: "generator_libs libs_ref"
  by (rule generator_libs_reference.generator_libs_axioms)

section \<open>Facts shared by the generators\<close>

abbreviation ones :: "'a list \<Rightarrow> nat list" where
  "ones xs \<equiv> map (\<lambda>_. 1) xs"

text \<open>\<open>unionWith\<close> on an empty array with equality of a key as comparator.\<close>

lemma uniq_with_key:
  "set (uniq_with (\<lambda>a b. f a = f b) [] xs) \<subseteq> set xs"
  "f ` set (uniq_with (\<lambda>a b. f a = f b) [] xs) = f ` set xs"
  "distinct (map f (uniq_with (\<lambda>a b. f a = f b) [] xs))"
proof -
  let ?c = "\<lambda>a b. f a = f b"
  show sub: "set (uniq_with ?c [] xs) \<subseteq> set xs"
    using uniq_with_subset [of ?c "[]" xs] by simp
  have "\<exists>y \<in> set (uniq_with ?c [] xs). f x = f y" if "x \<in> set xs" for x
    using that uniq_with_covers [of ?c x "[]" xs] by (auto simp: reflp_def symp_def)
  with sub show "f ` set (uniq_with ?c [] xs) = f ` set xs" by (fastforce simp: image_iff)
  have "f (uniq_with ?c [] xs ! i) \<noteq> f (uniq_with ?c [] xs ! j)"
    if "i < j" "j < length (uniq_with ?c [] xs)" for i j
    using uniq_with_distinct [of ?c "[]" i j xs] that by (auto simp: symp_def)
  then show "distinct (map f (uniq_with ?c [] xs))"
    by (auto simp: distinct_conv_nth) (metis linorder_neqE_nat)
qed

lemma map_result_mem: "map_result f xs = Inr ys \<Longrightarrow> y \<in> set ys \<Longrightarrow> \<exists>x \<in> set xs. f x = Inr y"
  by (induction xs arbitrary: ys) auto

lemma sum_list_remove:
  "i < length xs \<Longrightarrow> sum_list (map f xs) = f (xs ! i) + sum_list (map f (take i xs @ drop (Suc i) xs))"
  for f :: "'a \<Rightarrow> nat"
  by (subst id_take_nth_drop [of i xs]) auto

lemma sum_list_filter_le: "sum_list (map f (filter p xs)) \<le> (sum_list (map f xs) :: nat)"
  by (induction xs) auto

lemma sum_list_le_strict:
  fixes f g :: "'a \<Rightarrow> nat"
  assumes "\<And>x. x \<in> set xs \<Longrightarrow> f x \<le> g x" and "x \<in> set xs" and "f x < g x"
  shows "sum_list (map f xs) < sum_list (map g xs)"
  using assms
proof (induction xs)
  case (Cons y ys)
  have le: "sum_list (map f ys) \<le> sum_list (map g ys)"
    using Cons.prems(1) by (intro sum_list_mono) simp
  show ?case
  proof (cases "x = y")
    case False
    with Cons have "sum_list (map f ys) < sum_list (map g ys)" by auto
    with Cons.prems(1) [of y] show ?thesis by (auto intro: add_le_less_mono)
  qed (use Cons.prems(3) le in auto)
qed simp

text \<open>Whether a node generator can be made does not depend on the seed.\<close>

context generator_libs
begin

lemma generator_success:
  assumes "complete_sets (ASTNodeMapSet S)"
    and "getASTNodeGenerator (lib_lodash D) (lib_chance D) S t ctx seed = Returned ys"
  shows "\<exists>ys'. getASTNodeGenerator (lib_lodash D) (lib_chance D) S t ctx seed' = Returned ys'"
proof -
  obtain v where "node_space S t ctx = Some (Inr (Some v))"
    by (rule generator_Returned [OF assms])
  from generator_enumerates [OF assms(1) this, of seed'] show ?thesis by blast
qed

end

end
