(* ===== verification/DeletionGen.thy ===== *)
theory DeletionGen
  imports GeneratorLibs
begin

text \<open>
  The random generator of deletions (\<open>RandomMutationGenerator_DeletionM\<close>,
  \<open>lib/Mutations/DeletionM.ts\<close>): it keeps the deletable fault spaces and takes one out per
  call. It meets the contract \<open>random_generator\<close>.
\<close>

definition deletableNodeTypes :: "string list" where
  "deletableNodeTypes = [''ExpressionStatement'']"

text \<open>\<open>updateFaultSpace\<close>: the result of \<open>intersectionWith\<close>, which returns a new array, is
  dropped, so intersecting leaves the space as it is.\<close>

fun deletion_updateFaultSpace ::
  "'r libs \<Rightarrow> faultSpaceUpdate \<Rightarrow> deletion_gen \<Rightarrow> deletion_gen result" where
  "deletion_updateFaultSpace D (Add faultSpaces) g =
     bind_result (deletableFaultSpace (lib_lodash D) (dg_forAST g) faultSpaces (Some deletableNodeTypes))
       (\<lambda>newDeletableSpace. Inr (g\<lparr>deletableSpace :=
          lunionWith (lib_paths D) (deletableSpace g) newDeletableSpace
            (\<lambda>a b. lequal (lib_lodash D) a b)\<rparr>))"
| "deletion_updateFaultSpace D (Remove faultSpaces) g =
     Inr (g\<lparr>deletableSpace := lpullAllWith (lib_paths D) (deletableSpace g) faultSpaces
        (\<lambda>a b. lequal (lib_lodash D) a b)\<rparr>)"
| "deletion_updateFaultSpace D (Intersect faultSpaces) g = Inr g"
| "deletion_updateFaultSpace D (UpdateWeigh faultSpaces) g = Inl UnimplementedError"

definition new_deletion_gen :: "'r libs \<Rightarrow> jsval \<Rightarrow> path list \<Rightarrow> deletion_gen result" where
  "new_deletion_gen D ast faultSpaces =
     deletion_updateFaultSpace D (Add faultSpaces) \<lparr>dg_forAST = ast, deletableSpace = []\<rparr>"

definition deletion_next ::
  "'r libs \<Rightarrow> deletion_gen \<Rightarrow> 'r \<Rightarrow> (deletionM option \<times> deletion_gen \<times> 'r) outcome" where
  "deletion_next D g r =
     (let spaces = deletableSpace g in
      if spaces = [] then Returned (None, g, r)
      else let (i, r') = weighted (lib_chance D) (ones spaces) r in
        bind_outcome (outcome_of (js_assert (i < length spaces))) (\<lambda>_.
          Returned (Some \<lparr>del_targetNodePath = spaces ! i\<rparr>,
            g\<lparr>deletableSpace := splice_remove spaces (Fin (int i))\<rparr>, r')))"

definition deletion_isMutationInRemainingSpace :: "'r libs \<Rightarrow> deletion_gen \<Rightarrow> deletionM \<Rightarrow> bool" where
  "deletion_isMutationInRemainingSpace D g m =
     list_ex (\<lambda>space. lequal (lib_lodash D) space (del_targetNodePath m)) (deletableSpace g)"

text \<open>\<open>numMutationRemaining\<close> of every generator.\<close>

definition numMutationRemaining :: "nat result" where
  "numMutationRemaining = Inl UnimplementedError"

text \<open>A deletable path leads to an element of an array, and its deletion fits the AST.\<close>

lemma deletableFaultSpace_fits:
  assumes "lodash_lib L" and "deletableFaultSpace L ast ps (Some types) = Inr ds"
    and "p \<in> set ds" and "length p \<ge> 2"
  shows "p \<in> set ps \<and> (\<exists>xs node. cwalk ast (butlast p) = Some (JArr xs) \<and>
      cwalk ast p = Some node \<and> list_ex (has_type node) types) \<and>
    set p \<inter> set disallowKeys = {} \<and> DeletionM_applicable \<lparr>del_targetNodePath = p\<rparr> ast"
proof -
  from assms(2,3) have p: "p \<in> set ps" "is_deletable L ast (Some types) p = Inr True"
    by (auto simp: deletableFaultSpace_def filter_result_set)
  from p(2) obtain xs node where parent: "lget L ast (butlast p) = Some (JArr xs)"
    and node: "lget L (JArr xs) [last p] = Some node" and ty: "list_ex (has_type node) types"
    and keys: "list_all (\<lambda>x. x \<notin> set disallowKeys) p"
    using assms(4)
    by (auto simp: is_deletable_def is_array_iff split: option.splits jsval.splits if_splits)
  have b: "butlast p \<noteq> []" and app: "p = butlast p @ [last p]"
    using assms(4) by (cases p rule: rev_cases; auto)+
  have arr: "cwalk ast (butlast p) = Some (JArr xs)"
    using lodash_lib.get_container [OF assms(1) b, of "JArr xs" ast] parent by simp
  have "walk (JArr xs) [last p] = Some node"
    using node lodash_lib.get_path [OF assms(1), of "[last p]" "JArr xs"] by simp
  moreover have "last p \<noteq> ''length''"
  proof
    assume "last p = ''length''"
    with \<open>walk (JArr xs) [last p] = Some node\<close> ty show False
      by (auto simp: list_ex_iff has_type_def)
  qed
  ultimately have elem: "child (JArr xs) (last p) = Some node"
    by (auto split: option.splits)
  then have at: "cwalk ast p = Some node"
    by (subst app) (simp add: cwalk_append arr split: option.splits)
  have "arr_idx (last p) \<noteq> None" using elem by (auto split: option.splits)
  then have "last p \<noteq> ''type''" by (auto simp: arr_idx_def js_parseInt_def is_space_def
      parse_digits_def digit_val_def)
  with assms(4) at have "DeletionM_applicable \<lparr>del_targetNodePath = p\<rparr> ast"
    by (simp add: DeletionM_applicable_def)
  with p(1) arr at ty keys show ?thesis by (auto simp: list_all_iff)
qed

context generator_libs
begin

text \<open>A call takes one path out of the space.\<close>

lemma deletion_next_takes:
  assumes "deletion_next D g r = Returned (Some m, g', r')"
  shows "mset (deletableSpace g) = add_mset (del_targetNodePath m) (mset (deletableSpace g'))"
    and "dg_forAST g' = dg_forAST g"
proof -
  obtain i where i: "i < length (deletableSpace g)" "m = \<lparr>del_targetNodePath = deletableSpace g ! i\<rparr>"
    and g': "g' = g\<lparr>deletableSpace := take i (deletableSpace g) @ drop (Suc i) (deletableSpace g)\<rparr>"
    using assms by (auto simp: deletion_next_def Let_def splice_remove_in_range
        split: if_splits prod.splits)
  have "deletableSpace g = take i (deletableSpace g) @ deletableSpace g ! i # drop (Suc i) (deletableSpace g)"
    using i(1) by (rule id_take_nth_drop)
  then have "mset (deletableSpace g) = mset (take i (deletableSpace g) @ deletableSpace g ! i # drop (Suc i) (deletableSpace g))"
    by simp
  with i(2) g' show "mset (deletableSpace g) = add_mset (del_targetNodePath m) (mset (deletableSpace g'))"
    by simp
  show "dg_forAST g' = dg_forAST g" by (simp add: g')
qed

lemma deletion_next_done:
  "deletion_next D g r = Returned (None, g', r') \<Longrightarrow> deletableSpace g = [] \<and> g' = g"
  by (auto simp: deletion_next_def Let_def split: if_splits prod.splits)

lemma deletion_next_returns: "deletion_next D g r \<noteq> Unfinished"
  by (auto simp: deletion_next_def Let_def split: prod.splits)

lemma deletion_next_no_error: "deletion_next D g r \<noteq> Thrown e"
proof (cases "deletableSpace g = []")
  case False
  with weighted_ones [of "deletableSpace g" r] show ?thesis
    by (auto simp: deletion_next_def Let_def split: prod.splits)
qed (simp add: deletion_next_def)

end

sublocale generator_libs \<subseteq> deletions: random_generator "deletion_next D"
  "\<lambda>g. length (deletableSpace g)" "\<lambda>_. True"
proof
  show "deletion_next D g r \<noteq> Unfinished" for g r
    by (rule deletion_next_returns)
  show "True \<and> length (deletableSpace g') < length (deletableSpace g)"
    if "deletion_next D g r = Returned (Some m, g', r')" for g r m g' r'
    using deletion_next_takes(1) [OF that, THEN arg_cong, of size] by simp
  show "True \<and> length (deletableSpace g') \<le> length (deletableSpace g)"
    if "deletion_next D g r = Returned (None, g', r')" for g r g' r'
    using deletion_next_done [OF that] by simp
qed

interpretation deletions_reference: random_generator "deletion_next libs_ref"
  "\<lambda>g. length (deletableSpace g)" "\<lambda>_. True"
  by (rule generator_libs_reference.deletions.random_generator_axioms)

context generator_libs
begin

text \<open>Running the generator dry offers every deletable path once.\<close>

lemma deletion_drain_mset:
  "drain (deletion_next D) n g r = Returned (ms, g', r') \<Longrightarrow>
   mset (map del_targetNodePath ms) = mset (deletableSpace g)"
proof (induction n arbitrary: g r ms)
  case (Suc n)
  then obtain x g1 r1 where x: "deletion_next D g r = Returned (x, g1, r1)" by auto
  show ?case
  proof (cases x)
    case None
    with x Suc.prems deletion_next_done [of g r] show ?thesis by auto
  next
    case (Some m)
    with x Suc.prems obtain ms' where "drain (deletion_next D) n g1 r1 = Returned (ms', g', r')"
      and ms: "ms = m # ms'" by auto
    with Suc.IH [of g1 r1 ms'] deletion_next_takes(1) [of g r m g1 r1] x Some show ?thesis by simp
  qed
qed simp

lemma deletion_drain_no_error: "drain (deletion_next D) n g r \<noteq> Thrown e"
proof (induction n arbitrary: g r)
  case (Suc n)
  show ?case
  proof (cases "deletion_next D g r")
    case (Returned v)
    obtain x g' r' where "v = (x, g', r')" by (cases v)
    with Returned Suc.IH [of g' r'] show ?thesis
      by (cases "drain (deletion_next D) n g' r'") (auto split: option.splits)
  qed (use deletion_next_no_error in auto)
qed simp

lemma new_deletion_gen_space:
  assumes "new_deletion_gen D ast ps = Inr g"
  obtains ds where "deletableFaultSpace (lib_lodash D) ast ps (Some deletableNodeTypes) = Inr ds"
    and "set (deletableSpace g) = set ds" and "distinct (deletableSpace g)" and "dg_forAST g = ast"
proof -
  obtain ds where ds: "deletableFaultSpace (lib_lodash D) ast ps (Some deletableNodeTypes) = Inr ds"
    and g: "g = \<lparr>dg_forAST = ast, deletableSpace = lunionWith (lib_paths D) [] ds
      (\<lambda>a b. lequal (lib_lodash D) a b)\<rparr>"
    using assms by (auto simp: new_deletion_gen_def)
  have "deletableSpace g = uniq_with (=) [] ds"
    using lodash_arrays.unionWith [OF paths_ok, of "(=)" "[]" ds]
    by (simp add: g equal_paths symp_def)
  with uniq_with_key [of id ds] ds g show thesis by (intro that) auto
qed

lemma deletion_gen_permutes:
  assumes "new_deletion_gen D ast ps = Inr g"
    and "deletableFaultSpace (lib_lodash D) ast ps (Some deletableNodeTypes) = Inr ds"
  shows "\<exists>ms g' r'. drain (deletion_next D) (Suc (length (deletableSpace g))) g r = Returned (ms, g', r')
    \<and> distinct (map del_targetNodePath ms) \<and> set (map del_targetNodePath ms) = set ds"
proof -
  obtain ds' where g: "deletableFaultSpace (lib_lodash D) ast ps (Some deletableNodeTypes) = Inr ds'"
    "set (deletableSpace g) = set ds'" "distinct (deletableSpace g)"
    using new_deletion_gen_space [OF assms(1)] by blast
  obtain ms g' r' where d: "drain (deletion_next D) (Suc (length (deletableSpace g))) g r
      = Returned (ms, g', r')"
    using deletions.drain_returns [of g "Suc (length (deletableSpace g))" r]
    by (cases "drain (deletion_next D) (Suc (length (deletableSpace g))) g r")
      (auto simp: deletion_drain_no_error simp del: drain.simps)
  have m: "mset (map del_targetNodePath ms) = mset (deletableSpace g)"
    by (rule deletion_drain_mset [OF d])
  then have "set (map del_targetNodePath ms) = set (deletableSpace g)"
    by (metis set_mset_mset)
  moreover have "distinct (map del_targetNodePath ms)"
    using mset_eq_imp_distinct_iff [OF m] g(3) by blast
  ultimately show ?thesis using d g assms(2) by auto
qed

end

end
