(* ===== verification/FaultReach.thy ===== *)
theory FaultReach
  imports FaultSpaces
begin

text \<open>
  What \<open>generateFaultSpace\<close> reports: exactly the nodes that may be mutated and that the traversal
  reaches, which is when it is not turned back at any node above them.
\<close>

section \<open>The specification\<close>

text \<open>A path that may be mutated: a node inside a function definition, in the exact scope of
  some space, which is neither a definition of a contract or function, nor an event emission,
  nor a direct part of a call that moves ether.\<close>

definition inside_function :: "jsval \<Rightarrow> path \<Rightarrow> bool" where
  "inside_function ast p = (\<exists>q f. strict_prefix q p \<and> cwalk ast q = Some f \<and>
     isASTNode (Some f) \<and> has_type f ''FunctionDefinition'')"

definition ether_flow :: "lodash \<Rightarrow> jsval \<Rightarrow> path \<Rightarrow> bool result" where
  "ether_flow L ast p = isEtherFlowRelated (case findASTParentNode L ast p of
     None \<Rightarrow> None | Some q \<Rightarrow> getASTNodeFromPath L ast q)"

definition mutable_node ::
  "lodash \<Rightarrow> jsval \<Rightarrow> interestedSpace list option \<Rightarrow> path \<Rightarrow> bool" where
  "mutable_node L ast spaces p = (\<exists>node. cwalk ast p = Some node \<and> isASTNode (Some node) \<and>
     \<not> has_type node ''ContractDefinition'' \<and> \<not> has_type node ''FunctionDefinition'' \<and>
     \<not> has_type node ''EmitStatement'' \<and>
     some_space spaces (\<lambda>x. isNodeInExactScope x node p ast) = Inr True \<and>
     inside_function ast p \<and> ether_flow L ast p = Inr False)"

text \<open>A value the traversal goes into: an array; a contract or function that is interesting; and another
  node that is no event emission and no direct part of a call that moves ether, and is interesting or may be
  mutated itself.\<close>

definition node_opens ::
  "lodash \<Rightarrow> jsval \<Rightarrow> interestedSpace list option \<Rightarrow> jsval \<Rightarrow> path \<Rightarrow> bool" where
  "node_opens L ast spaces node p \<longleftrightarrow>
     (let interesting = some_space spaces (\<lambda>x. isNodeInterested x node p ast) = Inr True in
      if has_type node ''ContractDefinition'' \<or> has_type node ''FunctionDefinition'' then interesting
      else \<not> has_type node ''EmitStatement'' \<and> (inside_function ast p \<longrightarrow> ether_flow L ast p = Inr False) \<and>
        (mutable_node L ast spaces p \<or> interesting))"

definition opens :: "lodash \<Rightarrow> jsval \<Rightarrow> interestedSpace list option \<Rightarrow> path \<Rightarrow> bool" where
  "opens L ast spaces p \<longleftrightarrow> (case cwalk ast p of
     Some (JArr xs) \<Rightarrow> True
   | Some (JObj kvs) \<Rightarrow> isASTNode (Some (JObj kvs)) \<and> node_opens L ast spaces (JObj kvs) p
   | _ \<Rightarrow> False)"

text \<open>The mutable nodes at or below a path that the traversal reaches from there.\<close>

definition reached :: "lodash \<Rightarrow> jsval \<Rightarrow> interestedSpace list option \<Rightarrow> path \<Rightarrow> path set" where
  "reached L ast spaces p = {q. prefix p q \<and> mutable_node L ast spaces q \<and>
     (\<forall>r. prefix p r \<longrightarrow> strict_prefix r q \<longrightarrow> opens L ast spaces r)}"

section \<open>Paths\<close>

lemma strict_prefix_snoc: "strict_prefix q (p @ [k]) \<longleftrightarrow> prefix q p"
  by (auto simp: strict_prefix_def prefix_snoc)

lemma prefix_step:
  "prefix p s \<and> strict_prefix s (p @ k # r) \<longleftrightarrow> s = p \<or> prefix (p @ [k]) s \<and> strict_prefix s (p @ k # r)"
proof
  assume a: "prefix p s \<and> strict_prefix s (p @ k # r)"
  then obtain t where t: "s = p @ t" by (auto simp: prefix_def)
  with a have "strict_prefix t (k # r)" by (simp add: strict_prefix_def)
  then have "t = [] \<or> (\<exists>u. t = k # u)" by (cases t) auto
  with a t show "s = p \<or> prefix (p @ [k]) s \<and> strict_prefix s (p @ k # r)" by auto
next
  assume "s = p \<or> prefix (p @ [k]) s \<and> strict_prefix s (p @ k # r)"
  then show "prefix p s \<and> strict_prefix s (p @ k # r)" by (auto simp: prefix_def strict_prefix_def)
qed

lemma inside_function_snoc:
  "inside_function ast (p @ [k]) \<longleftrightarrow> inside_function ast p \<or>
     (\<exists>f. cwalk ast p = Some f \<and> isASTNode (Some f) \<and> has_type f ''FunctionDefinition'')"
  unfolding inside_function_def strict_prefix_snoc by (auto simp: strict_prefix_def)

lemma reached_below: "q \<in> reached L ast spaces p \<Longrightarrow> prefix p q"
  by (simp add: reached_def)

lemma reached_self: "p \<in> reached L ast spaces p \<longleftrightarrow> mutable_node L ast spaces p"
proof -
  have "\<not> strict_prefix r p" if "prefix p r" for r using that by (auto simp: strict_prefix_def)
  then show ?thesis by (auto simp: reached_def)
qed

lemma mutable_node_cwalk: "mutable_node L ast spaces p \<Longrightarrow> cwalk ast p \<noteq> None"
  by (auto simp: mutable_node_def)

lemma reached_apart: "k \<noteq> k' \<Longrightarrow> reached L ast spaces (p @ [k]) \<inter> reached L ast spaces (p @ [k']) = {}"
  by (auto simp: reached_def prefix_def)

lemma reached_child_not_self: "p \<notin> reached L ast spaces (p @ [k])"
  by (auto dest: reached_below)

lemma reached_split:
  assumes at: "cwalk ast p = Some v"
  shows "reached L ast spaces p = (if mutable_node L ast spaces p then {p} else {}) \<union>
    (if opens L ast spaces p then \<Union>k \<in> {k. child v k \<noteq> None}. reached L ast spaces (p @ [k]) else {})"
proof (rule set_eqI)
  fix q
  show "q \<in> reached L ast spaces p \<longleftrightarrow> q \<in> (if mutable_node L ast spaces p then {p} else {}) \<union>
    (if opens L ast spaces p then \<Union>k \<in> {k. child v k \<noteq> None}. reached L ast spaces (p @ [k]) else {})"
  proof (cases "strict_prefix p q")
    case True
    then obtain k r where q: "q = p @ k # r" by (auto elim: strict_prefixE')
    have above: "prefix p s \<and> strict_prefix s q \<longleftrightarrow> s = p \<or> prefix (p @ [k]) s \<and> strict_prefix s q" for s
      unfolding q by (rule prefix_step)
    have child: "mutable_node L ast spaces q \<Longrightarrow> child v k \<noteq> None"
      using mutable_node_cwalk [of L ast spaces q] at by (auto simp: q cwalk_append split: option.splits)
    let ?open = "\<lambda>p. \<forall>s. prefix p s \<longrightarrow> strict_prefix s q \<longrightarrow> opens L ast spaces s"
    have "(prefix p s \<longrightarrow> strict_prefix s q \<longrightarrow> opens L ast spaces s) \<longleftrightarrow> (s = p \<longrightarrow> opens L ast spaces s) \<and>
        (prefix (p @ [k]) s \<longrightarrow> strict_prefix s q \<longrightarrow> opens L ast spaces s)" for s
      using above [of s] by argo
    then have "?open p \<longleftrightarrow> opens L ast spaces p \<and> ?open (p @ [k])" by (simp only: all_conj_distrib simp_thms)
    moreover have "q \<in> reached L ast spaces p \<longleftrightarrow> mutable_node L ast spaces q \<and> ?open p"
      by (simp add: reached_def q)
    moreover have "q \<in> reached L ast spaces (p @ [k]) \<longleftrightarrow> mutable_node L ast spaces q \<and> ?open (p @ [k])"
      by (simp add: reached_def q)
    ultimately have step: "q \<in> reached L ast spaces p \<longleftrightarrow>
        opens L ast spaces p \<and> child v k \<noteq> None \<and> q \<in> reached L ast spaces (p @ [k])"
      using child by argo
    have only: "q \<in> reached L ast spaces (p @ [k']) \<Longrightarrow> k' = k" for k'
      using reached_below [of q L ast spaces "p @ [k']"] by (simp add: q prefix_def)
    have "q \<noteq> p" using True by auto
    show ?thesis
    proof (cases "opens L ast spaces p")
      case True
      have "q \<in> (\<Union>k \<in> {k. child v k \<noteq> None}. reached L ast spaces (p @ [k])) \<longleftrightarrow>
          child v k \<noteq> None \<and> q \<in> reached L ast spaces (p @ [k])"
        using only by blast
      with True step \<open>q \<noteq> p\<close> show ?thesis by simp
    qed (use step \<open>q \<noteq> p\<close> in simp)
  next
    case False
    then have self: "q \<in> reached L ast spaces p \<longleftrightarrow> q = p \<and> mutable_node L ast spaces p"
      using reached_below [of q L ast spaces p] reached_self [of p L ast spaces] by (auto simp: strict_prefix_def)
    have "q \<notin> reached L ast spaces (p @ [k])" for k
      using False reached_below [of q L ast spaces "p @ [k]"] by (auto simp: prefix_def strict_prefix_def)
    with self show ?thesis by (simp split: if_split)
  qed
qed

section \<open>What a visit does\<close>

text \<open>A visit leaves the depth as it found it and appends the paths of a set, each once.\<close>

definition reports :: "path set \<Rightarrow> fault_state \<Rightarrow> fault_state \<Rightarrow> bool" where
  "reports A s s' \<longleftrightarrow> fnDepth s' = fnDepth s \<and>
     (\<exists>new. faultSpace s' = faultSpace s @ new \<and> distinct new \<and> set new = A)"

lemma reports_refl [simp]: "reports A s s \<longleftrightarrow> A = {}"
  by (auto simp: reports_def)

lemma reports_trans:
  assumes "reports A s1 s2" and "reports B s2 s3" and "A \<inter> B = {}"
  shows "reports (A \<union> B) s1 s3"
proof -
  obtain xs ys where xs: "faultSpace s2 = faultSpace s1 @ xs" "distinct xs" "set xs = A"
    and ys: "faultSpace s3 = faultSpace s2 @ ys" "distinct ys" "set ys = B"
    using assms(1,2) by (auto simp: reports_def)
  then have "faultSpace s3 = faultSpace s1 @ (xs @ ys) \<and> distinct (xs @ ys) \<and> set (xs @ ys) = A \<union> B"
    using assms(3) by simp
  with assms(1,2) show ?thesis unfolding reports_def by metis
qed

definition depth_ok :: "jsval \<Rightarrow> path \<Rightarrow> fault_state \<Rightarrow> bool" where
  "depth_ok ast p s \<longleftrightarrow> (if inside_function ast p then 0 < fnDepth s else fnDepth s = 0)"

lemma not_appended [simp]: "s\<lparr>faultSpace := faultSpace s @ [p]\<rparr> = s \<longleftrightarrow> False"
proof -
  have "faultSpace (s\<lparr>faultSpace := faultSpace s @ [p]\<rparr>) \<noteq> faultSpace s" by simp
  then show ?thesis by metis
qed

lemma enter_node:
  assumes enter: "faultSpace_enter L ast spaces node p s = Inr (s', cont)"
    and at: "cwalk ast p = Some node" "isASTNode (Some node)" and depth: "depth_ok ast p s"
  shows "cont \<longleftrightarrow> node_opens L ast spaces node p"
    and "faultSpace s' = faultSpace s @ (if mutable_node L ast spaces p then [p] else [])"
    and "fnDepth s' = fnDepth s + (if has_type node ''FunctionDefinition'' \<and> cont then 1 else 0)"
proof -
  have inside: "fnDepth s \<noteq> 0 \<longleftrightarrow> inside_function ast p" using depth by (auto simp: depth_ok_def split: if_splits)
  have mutable: "mutable_node L ast spaces p \<longleftrightarrow> \<not> has_type node ''ContractDefinition'' \<and>
      \<not> has_type node ''FunctionDefinition'' \<and> \<not> has_type node ''EmitStatement'' \<and>
      some_space spaces (\<lambda>x. isNodeInExactScope x node p ast) = Inr True \<and>
      inside_function ast p \<and> ether_flow L ast p = Inr False"
    using at by (simp add: mutable_node_def)
  consider (contract) "has_type node ''ContractDefinition''" "\<not> has_type node ''FunctionDefinition''"
    | (func) "\<not> has_type node ''ContractDefinition''" "has_type node ''FunctionDefinition''"
    | (other) "\<not> has_type node ''ContractDefinition''" "\<not> has_type node ''FunctionDefinition''"
    by (auto simp: has_type_def)
  then have "(cont \<longleftrightarrow> node_opens L ast spaces node p) \<and>
      faultSpace s' = faultSpace s @ (if mutable_node L ast spaces p then [p] else []) \<and>
      fnDepth s' = fnDepth s + (if has_type node ''FunctionDefinition'' \<and> cont then 1 else 0)"
  proof cases
    case contract
    with enter mutable show ?thesis by (auto simp: faultSpace_enter_def node_opens_def Let_def)
  next
    case func
    with enter mutable show ?thesis by (auto simp: faultSpace_enter_def node_opens_def Let_def split: if_splits)
  next
    case other
    with enter mutable inside show ?thesis
      by (auto simp: faultSpace_enter_def generalVisitorFn_def node_opens_def ether_flow_def Let_def split: if_splits)
  qed
  then show "cont \<longleftrightarrow> node_opens L ast spaces node p"
    "faultSpace s' = faultSpace s @ (if mutable_node L ast spaces p then [p] else [])"
    "fnDepth s' = fnDepth s + (if has_type node ''FunctionDefinition'' \<and> cont then 1 else 0)" by blast+
qed

text \<open>A visit of the value at a path reports what is reached from there.\<close>

abbreviation visit :: "lodash \<Rightarrow> jsval \<Rightarrow> interestedSpace list option \<Rightarrow> jsval \<Rightarrow> path \<Rightarrow> fault_state \<Rightarrow> fault_state result" where
  "visit L ast spaces \<equiv> visitWithPath (faultSpace_enter L ast spaces) faultSpace_leave"

definition visits_well :: "lodash \<Rightarrow> jsval \<Rightarrow> interestedSpace list option \<Rightarrow> jsval \<Rightarrow> bool" where
  "visits_well L ast spaces v \<longleftrightarrow> (\<forall>p s s'. visit L ast spaces v p s = Inr s' \<longrightarrow>
     cwalk ast p = Some v \<longrightarrow> depth_ok ast p s \<longrightarrow> reports (reached L ast spaces p) s s')"

lemma visits_wellD:
  "visits_well L ast spaces v \<Longrightarrow> visit L ast spaces v p s = Inr s' \<Longrightarrow> cwalk ast p = Some v \<Longrightarrow>
   depth_ok ast p s \<Longrightarrow> reports (reached L ast spaces p) s s'"
  by (simp add: visits_well_def)

lemma reports_depth: "reports A s s' \<Longrightarrow> depth_ok ast p s' = depth_ok ast p s"
  by (simp add: reports_def depth_ok_def)

lemma drop_Cons_nth:
  assumes "drop i ys = x # xs"
  shows "i < length ys" "ys ! i = x" "drop (Suc i) ys = xs"
proof -
  show "i < length ys" using assms by (cases "i < length ys") auto
  then have "drop i ys = ys ! i # drop (Suc i) ys" by (rule Cons_nth_drop_Suc [symmetric])
  with assms show "ys ! i = x" "drop (Suc i) ys = xs" by auto
qed

lemma idx_key_neq: "i \<noteq> j \<Longrightarrow> idx_key i \<noteq> idx_key j"
  by (metis arr_idx_key option.inject)

lemma visit_elems_reports:
  "\<forall>x \<in> set xs. visits_well L ast spaces x \<Longrightarrow>
   visit_elems (faultSpace_enter L ast spaces) faultSpace_leave i xs p s = Inr s' \<Longrightarrow>
   cwalk ast p = Some (JArr ys) \<Longrightarrow> drop i ys = xs \<Longrightarrow> depth_ok ast p s \<Longrightarrow>
   reports (\<Union>j \<in> {i..<length ys}. reached L ast spaces (p @ [idx_key j])) s s'"
proof (induction xs arbitrary: i s)
  case (Cons x xs)
  obtain s1 where s1: "visit L ast spaces x (p @ [idx_key i]) s = Inr s1"
    and rest: "visit_elems (faultSpace_enter L ast spaces) faultSpace_leave (Suc i) xs p s1 = Inr s'"
    using Cons.prems(2) by auto
  have i: "i < length ys" "ys ! i = x" "drop (Suc i) ys = xs" using Cons.prems(4) by (rule drop_Cons_nth)+
  then have at: "cwalk ast (p @ [idx_key i]) = Some x" using Cons.prems(3) by (simp add: cwalk_append)
  have "depth_ok ast (p @ [idx_key i]) s"
    using Cons.prems(3,5) by (auto simp: depth_ok_def inside_function_snoc)
  with s1 at Cons.prems(1) have first: "reports (reached L ast spaces (p @ [idx_key i])) s s1"
    by (intro visits_wellD) simp_all
  have "reports (\<Union>j \<in> {Suc i..<length ys}. reached L ast spaces (p @ [idx_key j])) s1 s'"
    using Cons.prems(1,5) reports_depth [OF first] by (intro Cons.IH [OF _ rest Cons.prems(3) i(3)]) simp_all
  moreover have "reached L ast spaces (p @ [idx_key i]) \<inter> reached L ast spaces (p @ [idx_key j]) = {}" if "Suc i \<le> j" for j
    using that by (intro reached_apart idx_key_neq) simp
  then have "reached L ast spaces (p @ [idx_key i]) \<inter>
      (\<Union>j \<in> {Suc i..<length ys}. reached L ast spaces (p @ [idx_key j])) = {}" by fastforce
  moreover have "{i..<length ys} = insert i {Suc i..<length ys}" using i(1) by auto
  ultimately show ?case using reports_trans [OF first] by simp
qed simp

lemma visit_props_reports:
  "\<forall>(k, v) \<in> set kvs. visits_well L ast spaces v \<and> map_of all k = Some v \<Longrightarrow>
   visit_props (faultSpace_enter L ast spaces) faultSpace_leave kvs p s = Inr s' \<Longrightarrow>
   cwalk ast p = Some (JObj all) \<Longrightarrow> distinct (map fst kvs) \<Longrightarrow> (\<And>k. depth_ok ast (p @ [k]) s) \<Longrightarrow>
   reports (\<Union>k \<in> fst ` set kvs. reached L ast spaces (p @ [k])) s s'"
proof (induction kvs arbitrary: s)
  case (Cons kv kvs)
  obtain k v where kv: "kv = (k, v)" by (cases kv)
  obtain s1 where s1: "visit L ast spaces v (p @ [k]) s = Inr s1"
    and rest: "visit_props (faultSpace_enter L ast spaces) faultSpace_leave kvs p s1 = Inr s'"
    using Cons.prems(2) by (auto simp: kv)
  have "cwalk ast (p @ [k]) = Some v" using Cons.prems(1,3) by (simp add: cwalk_append kv)
  with s1 Cons.prems(1,5) have first: "reports (reached L ast spaces (p @ [k])) s s1"
    by (intro visits_wellD [of L ast spaces v]) (auto simp: kv)
  have "reports (\<Union>k \<in> fst ` set kvs. reached L ast spaces (p @ [k])) s1 s'"
    using Cons.prems(1,4,5) reports_depth [OF first] by (intro Cons.IH [OF _ rest Cons.prems(3)]) simp_all
  moreover have "k' \<noteq> k" if "k' \<in> fst ` set kvs" for k' using that Cons.prems(4) by (auto simp: kv)
  then have "reached L ast spaces (p @ [k]) \<inter> (\<Union>k \<in> fst ` set kvs. reached L ast spaces (p @ [k])) = {}"
    using reached_apart by fastforce
  ultimately show ?case using reports_trans [OF first] by (simp add: kv)
qed simp

lemma reached_leaf:
  assumes "cwalk ast p = Some v" and "\<not> isASTNode (Some v)" and "\<not> is_array v"
  shows "reached L ast spaces p = {}"
  using assms reached_split [OF assms(1)]
  by (cases v) (auto simp: mutable_node_def opens_def)

lemma child_keys:
  "{k. child (JObj kvs) k \<noteq> None} = fst ` set kvs"
  "{k. child (JArr xs) k \<noteq> None} = idx_key ` {0..<length xs}"
  by (auto simp: map_of_eq_None_iff arr_idx_Some_iff image_iff split: option.splits)

lemma wf_map_of:
  "wf_val (JObj kvs) \<Longrightarrow> (k, v) \<in> set kvs \<Longrightarrow> map_of kvs k = Some v \<and> wf_val v"
  by (auto simp: list_all_iff)

lemma array_visits_well:
  assumes "\<forall>x \<in> set xs. visits_well L ast spaces x"
  shows "visits_well L ast spaces (JArr xs)"
  unfolding visits_well_def
proof (intro allI impI)
  fix p s s'
  assume v: "visit L ast spaces (JArr xs) p s = Inr s'" "cwalk ast p = Some (JArr xs)" "depth_ok ast p s"
  have "reports (\<Union>j \<in> {0..<length xs}. reached L ast spaces (p @ [idx_key j])) s s'"
    using v by (intro visit_elems_reports [OF assms]) simp_all
  moreover have "\<not> mutable_node L ast spaces p" "opens L ast spaces p"
    using v(2) by (simp_all add: mutable_node_def opens_def)
  then have "reached L ast spaces p = (\<Union>j \<in> {0..<length xs}. reached L ast spaces (p @ [idx_key j]))"
    using reached_split [OF v(2), of L spaces] child_keys(2) [of xs] by simp
  ultimately show "reports (reached L ast spaces p) s s'" by simp
qed

lemma node_visits_well:
  assumes well: "\<forall>(k, v) \<in> set kvs. visits_well L ast spaces v \<and> map_of kvs k = Some v"
    and dist: "distinct (map fst kvs)" and node: "isASTNode (Some (JObj kvs))"
  shows "visits_well L ast spaces (JObj kvs)"
  unfolding visits_well_def
proof (intro allI impI)
  fix p s s'
  assume run: "visit L ast spaces (JObj kvs) p s = Inr s'" and at: "cwalk ast p = Some (JObj kvs)"
    and depth: "depth_ok ast p s"
  let ?fn = "has_type (JObj kvs) ''FunctionDefinition''" and ?below = "\<Union>k \<in> fst ` set kvs. reached L ast spaces (p @ [k])"
  obtain s1 cont where enter: "faultSpace_enter L ast spaces (JObj kvs) p s = Inr (s1, cont)"
    and rest: "(if \<not> cont then Inr s1
      else bind_result (visit_props (faultSpace_enter L ast spaces) faultSpace_leave kvs p s1)
        (faultSpace_leave (JObj kvs) p)) = Inr s'"
    using run node by (auto simp del: isASTNode.simps)
  note e = enter_node [OF enter at node depth]
  have opens: "opens L ast spaces p \<longleftrightarrow> cont" using e(1) at node by (simp add: opens_def del: isASTNode.simps)
  have here: "reached L ast spaces p = (if mutable_node L ast spaces p then {p} else {}) \<union> (if cont then ?below else {})"
    using reached_split [OF at, of L spaces] child_keys(1) [of kvs] opens by simp
  show "reports (reached L ast spaces p) s s'"
  proof (cases cont)
    case False
    with rest e here show ?thesis by (simp add: reports_def)
  next
    case True
    obtain s2 where props: "visit_props (faultSpace_enter L ast spaces) faultSpace_leave kvs p s1 = Inr s2"
      and leave: "faultSpace_leave (JObj kvs) p s2 = Inr s'" using rest True by auto
    have "depth_ok ast (p @ [k]) s1" for k
      using depth e(3) True at node by (auto simp: depth_ok_def inside_function_snoc split: if_splits)
    then have below: "reports ?below s1 s2" by (rule visit_props_reports [OF well props at dist])
    have "p \<notin> ?below" using reached_child_not_self by blast
    moreover have "fnDepth s' = fnDepth s" "faultSpace s' = faultSpace s2"
      using leave below e(3) True by (auto simp: faultSpace_leave_def reports_def split: if_splits)
    ultimately show ?thesis
      using below e(2) True here unfolding reports_def by (auto split: if_splits)
  qed
qed

lemma leaf_visits_well:
  assumes "\<not> isASTNode (Some v)" and "\<not> is_array v"
  shows "visits_well L ast spaces v"
proof -
  have "visit L ast spaces v p s = Inr s" for p s using assms by (cases v) (simp_all del: isASTNode.simps)
  then show ?thesis using reached_leaf [OF _ assms] by (simp add: visits_well_def)
qed

lemma visit_well: "wf_val v \<Longrightarrow> visits_well L ast spaces v"
proof (induction v)
  case (JArr xs)
  then show ?case by (intro array_visits_well) (auto simp: list_all_iff)
next
  case (JObj kvs)
  show ?case
  proof (cases "isASTNode (Some (JObj kvs))")
    case True
    have "\<forall>(k, v) \<in> set kvs. visits_well L ast spaces v \<and> map_of kvs k = Some v"
      using wf_map_of [OF JObj.prems] JObj.IH by fastforce
    then show ?thesis using JObj.prems True by (intro node_visits_well) simp_all
  qed (simp add: leaf_visits_well)
qed (simp_all add: leaf_visits_well)

text \<open>So the fault space is what is reached from the root.\<close>

lemma generateFaultSpace_reached:
  assumes "generateFaultSpace L ast spaces = Inr ps" and "wf_val ast"
  shows "distinct ps" and "set ps = {p. mutable_node L ast spaces p \<and> (\<forall>q. strict_prefix q p \<longrightarrow> opens L ast spaces q)}"
proof -
  obtain s where s: "visit L ast spaces ast [] \<lparr>faultSpace = [], fnDepth = 0\<rparr> = Inr s" and ps: "ps = faultSpace s"
    using assms(1) by (auto simp: generateFaultSpace_def)
  have "depth_ok ast [] \<lparr>faultSpace = [], fnDepth = 0\<rparr>" by (simp add: depth_ok_def inside_function_def)
  from visits_wellD [OF visit_well [OF assms(2)] s _ this]
  have r: "reports (reached L ast spaces []) \<lparr>faultSpace = [], fnDepth = 0\<rparr> s" by simp
  then show "distinct ps" by (auto simp: reports_def ps)
  from r show "set ps = {p. mutable_node L ast spaces p \<and> (\<forall>q. strict_prefix q p \<longrightarrow> opens L ast spaces q)}"
    by (auto simp: reports_def ps reached_def)
qed

end
