(* ===== verification/FaultProperties.thy ===== *)
theory FaultProperties
  imports DeletionGen FaultReach Sample
begin

text \<open>
  The properties of fault spaces: what is generated may be mutated, what is filtered may be
  deleted, and what the filter does not see.
\<close>

definition sample_fault_space :: "path list" where
  "sample_fault_space = [sample_statements @ [''0''], sample_statements @ [''1''],
     sample_statements @ [''2'']]"

definition sample_interest_types :: "interestedSpace list option" where
  "sample_interest_types = Some [InterestedNodeType ''ExpressionStatement'']"

lemma sample_generates:
  "generateFaultSpace lodash_ref sample_ast sample_interest_types = Inr sample_fault_space"
  by code_simp

lemma sample_wf: "wf_val sample_ast"
  by code_simp

text \<open>Property C16. The fault space is exactly the set of paths that may be mutated and are
  reached, each reported once. A path may be mutated when it leads to a node of the AST that
  lies inside a function definition, is in the exact scope of one of the spaces of interest, is
  not a contract or function definition nor an event emission, and is not a direct part of a
  call that moves ether; it is reached when every value above it is an array, an interesting
  contract or function, or a node that is interesting or may itself be mutated and is neither an
  event emission nor a direct part of a call that moves ether.\<close>

theorem generateFaultSpace_exact:
  assumes "generateFaultSpace L ast spaces = Inr ps" and "wf_val ast"
  shows "distinct ps \<and>
    set ps = {p. mutable_node L ast spaces p \<and> (\<forall>q. strict_prefix q p \<longrightarrow> opens L ast spaces q)}"
  using generateFaultSpace_reached [OF assms] by blast

theorem generateFaultSpace_exact_witness:
  "distinct sample_fault_space \<and> set sample_fault_space =
    {p. mutable_node lodash_ref sample_ast sample_interest_types p \<and>
      \<not> (\<exists>q. strict_prefix q p \<and> \<not> opens lodash_ref sample_ast sample_interest_types q)}"
  using generateFaultSpace_exact [OF sample_generates sample_wf] by simp

text \<open>\<open>getFaultSpaceNodePair\<close> pairs every fault space with the value it leads to, in
  order, and fails with an assertion error when one of them leads nowhere.\<close>

theorem fault_space_pairs:
  "getFaultSpaceNodePair L ast ps =
    (if \<exists>p \<in> set ps. getASTNodeFromPath L ast p = None then Inl AssertionError
     else Inr (map (\<lambda>p. (p, the (getASTNodeFromPath L ast p))) ps))"
  unfolding getFaultSpaceNodePair_def by (induction ps) (auto split: option.splits)

section \<open>Deletion\<close>

text \<open>Property C29. What \<open>deletableFaultSpace\<close> keeps of a fault space can be deleted: the
  paths are those of the fault space, in its order, whose value is an element of an array, of
  one of the given types, at a path through none of the protected properties; deleting such a
  path is applicable to the AST.\<close>

theorem deletable_paths_fit:
  assumes "lodash_lib L" and "deletableFaultSpace L ast ps (Some types) = Inr ds"
    and "p \<in> set ds" and "length p \<ge> 2" and "canonical_path p"
  shows "p \<in> set ps \<and> (\<exists>xs node. cwalk ast (butlast p) = Some (JArr xs) \<and>
      cwalk ast p = Some node \<and> list_ex (has_type node) types) \<and>
    set p \<inter> set disallowKeys = {} \<and> applicable L (Deletion \<lparr>del_targetNodePath = p\<rparr>) ast"
  using deletableFaultSpace_fits [OF assms(1-4)] by simp

theorem deletable_paths_fit_witness:
  "sample_statements @ [''1''] \<in> set sample_fault_space \<and>
    (\<exists>xs node. cwalk sample_ast (butlast (sample_statements @ [''1''])) = Some (JArr xs) \<and>
      cwalk sample_ast (sample_statements @ [''1'']) = Some node \<and>
      list_ex (has_type node) [''ExpressionStatement'']) \<and>
    set (sample_statements @ [''1'']) \<inter> set disallowKeys = {} \<and>
    applicable lodash_ref (Deletion \<lparr>del_targetNodePath = sample_statements @ [''1'']\<rparr>) sample_ast"
proof (rule deletable_paths_fit [OF lodash_lib_ref])
  show "deletableFaultSpace lodash_ref sample_ast sample_fault_space (Some [''ExpressionStatement''])
    = Inr sample_fault_space" by code_simp
  show "sample_statements @ [''1''] \<in> set sample_fault_space" by code_simp
  show "2 \<le> length (sample_statements @ [''1''])" by code_simp
  show "canonical_path (sample_statements @ [''1''])" by code_simp
qed

text \<open>Property C35. The test for a non-empty block looks at the node itself only: whatever
  blocks a node of another type contains, however deep and however full, it answers no.\<close>

theorem nested_blocks_not_seen:
  assumes "\<not> has_type (JObj kvs) ''Block''"
  shows "astNodeContainsNonEmptyBlock (JObj kvs) \<noteq> Inr True"
proof
  assume "astNodeContainsNonEmptyBlock (JObj kvs) = Inr True"
  then obtain v where "object_hasOwnProperty v" "astNodeContainsNonEmptyBlock v = Inr True"
    using assms by (auto simp: has_type_def dest!: some_result_True split: if_splits)
  with descent_finds_nothing show False by blast
qed

theorem nested_blocks_not_seen_witness:
  "astNodeContainsNonEmptyBlock (JObj [(''type'', JStr ''WhileStatement''),
     (''body'', sample_block [sample_call ''a'', sample_call ''b''])]) \<noteq> Inr True"
  by (rule nested_blocks_not_seen) (simp add: has_type_def)

text \<open>The filter means to protect calls of \<open>assert\<close>, \<open>require\<close> and \<open>revert\<close>, but
  only expression statements are ever deleted, and for them the guard, which looks at function
  calls, never applies: an expression statement in an array, off the protected properties, is
  deletable whatever it calls.\<close>

theorem assertion_statements_deletable:
  assumes "lodash_lib L" and "cwalk ast (butlast p) = Some (JArr xs)"
    and "cwalk ast p = Some (JObj kvs)" and "has_type (JObj kvs) ''ExpressionStatement''"
    and "length p \<ge> 2" and "set p \<inter> set disallowKeys = {}"
    and "list_all (\<lambda>(k, v). \<not> object_hasOwnProperty v) kvs"
  shows "is_deletable L ast (Some [''ExpressionStatement'']) p = Inr True"
proof -
  have b: "butlast p \<noteq> []" and app: "p = butlast p @ [last p]"
    using assms(5) by (cases p rule: rev_cases; auto)+
  have parent: "lget L ast (butlast p) = Some (JArr xs)"
    using lodash_lib.get_container [OF assms(1) b, of "JArr xs" ast] assms(2) by simp
  have "cwalk ast (butlast p @ [last p]) = Some (JObj kvs)" using app assms(3) by metis
  then have "child (JArr xs) (last p) = Some (JObj kvs)"
    by (simp add: cwalk_append assms(2) del: child.simps split: option.splits)
  then have node: "lget L (JArr xs) [last p] = Some (JObj kvs)"
    using lodash_lib.get_path [OF assms(1), of "[last p]" "JArr xs"] child_js_prop [of "JArr xs" "last p" "JObj kvs"]
    by (simp del: child.simps js_prop.simps)
  have ty: "map_of kvs ''type'' = Some (JStr ''ExpressionStatement'')"
    using assms(4) by (simp add: has_type_def)
  have "some_result (\<lambda>(k, v). if object_hasOwnProperty v then astNodeContainsNonEmptyBlock v
      else Inr False) kvs = Inr False"
    using assms(7) some_result_total [of kvs "\<lambda>(k, v). if object_hasOwnProperty v
      then astNodeContainsNonEmptyBlock v else Inr False" "\<lambda>_. False"]
    by (fastforce simp: list_all_iff)
  then have c: "astNodeContainsNonEmptyBlock (JObj kvs) = Inr False" by (simp add: ty)
  have d: "list_all (\<lambda>x. x \<notin> set disallowKeys) p" using assms(6) by (auto simp: list_all_iff)
  have e: "p \<noteq> []" using assms(5) by auto
  show ?thesis using c d e
    by (simp add: is_deletable_def parent node has_type_def ty del: astNodeContainsNonEmptyBlock.simps)
qed

end
