(* ===== verification/InsertionGen.thy ===== *)
theory InsertionGen
  imports GeneratorLibs
begin

text \<open>
  The random generator of insertions (\<open>RandomMutationGenerator_InsertionM\<close>,
  \<open>lib/Mutations/InsertionM.ts\<close>): places are the indices of the array properties of the nodes
  of the fault space; for each node type and place a node generator is kept. It meets the
  contract \<open>random_generator\<close>.
\<close>

section \<open>Places\<close>

text \<open>The array properties of a node that may be changed, with their scopes; \<open>Object.keys\<close> of
  null throws.\<close>

definition insertable_properties ::
  "jsval \<Rightarrow> path \<times> jsval \<Rightarrow> (path \<times> path \<times> nat \<times> newNodeGenerationContext) list result" where
  "insertable_properties ast x = (case x of (fs, node) \<Rightarrow>
     if node = JNull then Inl TypeError
     else map_result (\<lambda>(k, v).
         let propPath = fs @ [k] in
         bind_result (getNodePathScopeInfo ast propPath) (\<lambda>scope.
           Inr (fs, propPath, length (entries v),
             \<lparr>ctx_scopeInfo = Some scope, ctx_forLocation = None\<rparr>)))
       (filter (\<lambda>(k, v). is_array v \<and> k \<notin> set disallowKeys) (entries node)))"

text \<open>\<open>lodash_range(0, property.length + 1)\<close>: an index before each element and one at the end.\<close>

definition property_places ::
  "path \<times> path \<times> nat \<times> newNodeGenerationContext \<Rightarrow> insertable_place list" where
  "property_places x = (case x of (fs, propPath, len, ctx) \<Rightarrow>
     map (\<lambda>idx. \<lparr>fromFaultSpace = fs, propertyPath = propPath, place_index = idx,
       weigh = 1, newNodeGenerationCtx = ctx\<rparr>) [0..<len + 1])"

definition insertable_places :: "lodash \<Rightarrow> jsval \<Rightarrow> path list \<Rightarrow> insertable_place list result" where
  "insertable_places L ast faultSpaces =
     bind_result (getFaultSpaceNodePair L ast faultSpaces) (\<lambda>faultSpace_Node.
     bind_result (map_result (insertable_properties ast) faultSpace_Node) (\<lambda>props.
       Inr (concat (map property_places (concat props)))))"

definition same_place :: "lodash \<Rightarrow> insertable_place \<Rightarrow> insertable_place \<Rightarrow> bool" where
  "same_place L a b \<longleftrightarrow> lequal L (propertyPath a) (propertyPath b) \<and> place_index a = place_index b"

section \<open>Operations\<close>

fun insertion_updateFaultSpace ::
  "'r libs \<Rightarrow> faultSpaceUpdate \<Rightarrow> insertion_gen \<Rightarrow> insertion_gen result" where
  "insertion_updateFaultSpace D (Add faultSpaces) g =
     bind_result (insertable_places (lib_lodash D) (ig_forAST g) faultSpaces) (\<lambda>new_insertableSpaces.
       Inr (g\<lparr>insertableSpaces := lunionWith (lib_places D) (insertableSpaces g) new_insertableSpaces
          (same_place (lib_lodash D))\<rparr>))"
| "insertion_updateFaultSpace D (Intersect faultSpaces) g =
     Inr (g\<lparr>insertableSpaces := filter
        (\<lambda>s. list_ex (\<lambda>x. lequal (lib_lodash D) (fromFaultSpace s) x) faultSpaces)
        (insertableSpaces g)\<rparr>)"
| "insertion_updateFaultSpace D (Remove faultSpaces) g =
     Inr (g\<lparr>insertableSpaces := filter
        (\<lambda>s. \<not> list_ex (\<lambda>x. lequal (lib_lodash D) (fromFaultSpace s) x) faultSpaces)
        (insertableSpaces g)\<rparr>)"
| "insertion_updateFaultSpace D (UpdateWeigh faultSpaces) g = Inl UnimplementedError"

definition new_insertion_gen ::
  "'r libs \<Rightarrow> jsval \<Rightarrow> path list \<Rightarrow> ast_node_space \<Rightarrow> string list \<Rightarrow> insertion_gen result" where
  "new_insertion_gen D ast faultSpaces astNodeSpace nodeTypes =
     insertion_updateFaultSpace D (Add faultSpaces)
       \<lparr>ig_forAST = ast, ig_astNodeSpace = astNodeSpace, insertionNewNodeGens = [],
        insertableSpaces = [], insertionNewNodeTypeSpace = nodeTypes\<rparr>"

text \<open>The generator kept for a type and a place, or a new one with the seed of the source.\<close>

definition insertion_node_gen ::
  "'r libs \<Rightarrow> insertion_gen \<Rightarrow> seed option \<Rightarrow> string \<Rightarrow> insertable_place \<Rightarrow> jsval list outcome" where
  "insertion_node_gen D g s nodeType place =
     (case map_of (insertionNewNodeGens g) (nodeType, place) of
        Some nodeGen \<Rightarrow> Returned nodeGen
      | None \<Rightarrow> getASTNodeGenerator (lib_lodash D) (lib_chance D) (ig_astNodeSpace g) nodeType
          (Some (newNodeGenerationCtx place)) s)"

text \<open>The loop of \<open>next\<close>: a node type whose generator yields nothing at the chosen place is
  given up, for all places.\<close>

fun insertion_loop ::
  "'r libs \<Rightarrow> nat \<Rightarrow> insertion_gen \<Rightarrow> 'r \<Rightarrow> (insertionM option \<times> insertion_gen \<times> 'r) outcome" where
  "insertion_loop D 0 g r = Unfinished"
| "insertion_loop D (Suc fuel) g r =
     (let spaces = insertableSpaces g; types = insertionNewNodeTypeSpace g in
      if spaces = [] \<or> types = [] then Returned (None, g, r)
      else
        let (i, r1) = weighted (lib_chance D) (map weigh spaces) r; place = spaces ! i;
            (j, r2) = pickone (lib_chance D) (length types) r1; chosenNodeType = types ! j in
        bind_outcome (insertion_node_gen D g (Some (chance_seed (lib_chance D) r2)) chosenNodeType place)
          (\<lambda>nodeGen. case nodeGen of
             [] \<Rightarrow> insertion_loop D fuel
               (g\<lparr>insertionNewNodeGens := AList.update (chosenNodeType, place) [] (insertionNewNodeGens g),
                  insertionNewNodeTypeSpace := lpull (lib_names D) types chosenNodeType\<rparr>) r2
           | newNd # rest \<Rightarrow> Returned
               (Some \<lparr>targetPropertyPath = propertyPath place, insertIndex = Fin (int (place_index place)),
                  newNode = newNd\<rparr>,
                g\<lparr>insertionNewNodeGens := AList.update (chosenNodeType, place) rest (insertionNewNodeGens g)\<rparr>,
                r2)))"

definition insertion_next ::
  "'r libs \<Rightarrow> insertion_gen \<Rightarrow> 'r \<Rightarrow> (insertionM option \<times> insertion_gen \<times> 'r) outcome" where
  "insertion_next D g r = insertion_loop D (Suc (length (insertionNewNodeTypeSpace g))) g r"

text \<open>\<open>isMutationInRemainingSpace\<close> compares the two path arrays with \<open>===\<close>, which asks whether
  they are the same object; \<open>same_object\<close> is the answer for the place with this path.\<close>

definition insertion_isMutationInRemainingSpace ::
  "'r libs \<Rightarrow> (path \<Rightarrow> bool) \<Rightarrow> insertion_gen \<Rightarrow> insertionM \<Rightarrow> bool outcome" where
  "insertion_isMutationInRemainingSpace D same_object g m =
     (case find (\<lambda>x. propertyPath x = targetPropertyPath m \<and> same_object (propertyPath x)
         \<and> insertIndex m = Fin (int (place_index x))) (insertableSpaces g) of
        None \<Rightarrow> Returned False
      | Some place \<Rightarrow> isNodeInSpace (lib_lodash D) (lib_chance D) (ig_astNodeSpace g) (newNode m)
          (newNodeGenerationCtx place))"

section \<open>The stock of an insertion generator\<close>

text \<open>How many nodes are left for a type at a place, and altogether.\<close>

definition nodes_left :: "'r libs \<Rightarrow> insertion_gen \<Rightarrow> string \<Rightarrow> insertable_place \<Rightarrow> nat" where
  "nodes_left D g nodeType place =
     (case insertion_node_gen D g None nodeType place of Returned nodes \<Rightarrow> length nodes | _ \<Rightarrow> 0)"

definition insertions_left :: "'r libs \<Rightarrow> insertion_gen \<Rightarrow> nat" where
  "insertions_left D g = (\<Sum>t\<leftarrow>insertionNewNodeTypeSpace g. \<Sum>p\<leftarrow>insertableSpaces g. nodes_left D g t p)"

definition insertion_valid :: "insertion_gen \<Rightarrow> bool" where
  "insertion_valid g \<longleftrightarrow> complete_sets (ASTNodeMapSet (ig_astNodeSpace g)) \<and>
     list_all (\<lambda>p. 0 < weigh p) (insertableSpaces g)"

context generator_libs
begin

lemma insertion_node_gen_length:
  assumes "insertion_valid g" and "insertion_node_gen D g s t p = Returned nodes"
  shows "nodes_left D g t p = length nodes"
proof (cases "map_of (insertionNewNodeGens g) (t, p)")
  case None
  with assms have c: "complete_sets (ASTNodeMapSet (ig_astNodeSpace g))"
    and y: "getASTNodeGenerator (lib_lodash D) (lib_chance D) (ig_astNodeSpace g) t
      (Some (newNodeGenerationCtx p)) s = Returned nodes"
    by (auto simp: insertion_valid_def insertion_node_gen_def)
  obtain ys' where y': "getASTNodeGenerator (lib_lodash D) (lib_chance D) (ig_astNodeSpace g) t
      (Some (newNodeGenerationCtx p)) None = Returned ys'"
    using generator_success [OF c y] by blast
  with None generator_length [OF c y y'] show ?thesis
    by (simp add: nodes_left_def insertion_node_gen_def)
qed (use assms in \<open>simp add: nodes_left_def insertion_node_gen_def\<close>)

lemma insertion_node_gen_returns:
  "insertion_valid g \<Longrightarrow> insertion_node_gen D g s t p \<noteq> Unfinished"
  by (auto simp: insertion_node_gen_def insertion_valid_def generator_returns split: option.splits)

text \<open>One draw: the generator after recording that \<open>rest\<close> is left of a type at a place.\<close>

lemma nodes_left_update:
  "nodes_left D (g\<lparr>insertionNewNodeGens := AList.update (t, p) rest (insertionNewNodeGens g)\<rparr>) t' p'
   = (if t' = t \<and> p' = p then length rest else nodes_left D g t' p')"
  by (auto simp: nodes_left_def insertion_node_gen_def update_conv' split: option.split)

text \<open>What one round of the loop chooses.\<close>

lemma insertion_choice:
  assumes "insertion_valid g" and "insertableSpaces g \<noteq> []" and "insertionNewNodeTypeSpace g \<noteq> []"
    and "weighted (lib_chance D) (map weigh (insertableSpaces g)) r = (i, r1)"
    and "pickone (lib_chance D) (length (insertionNewNodeTypeSpace g)) r1 = (j, r2)"
  shows "insertableSpaces g ! i \<in> set (insertableSpaces g)"
    and "insertionNewNodeTypeSpace g ! j \<in> set (insertionNewNodeTypeSpace g)"
proof -
  have "i < length (insertableSpaces g)"
    using weighted_range [of "map weigh (insertableSpaces g)" r] assms(1,2,4)
    by (simp add: insertion_valid_def list_all_iff)
  then show "insertableSpaces g ! i \<in> set (insertableSpaces g)" by simp
  have "j < length (insertionNewNodeTypeSpace g)"
    using pickone_range [of "length (insertionNewNodeTypeSpace g)" r1] assms(3,5) by simp
  then show "insertionNewNodeTypeSpace g ! j \<in> set (insertionNewNodeTypeSpace g)" by simp
qed

lemma insertion_loop_returns:
  "insertion_valid g \<Longrightarrow> length (insertionNewNodeTypeSpace g) < n \<Longrightarrow> insertion_loop D n g r \<noteq> Unfinished"
proof (induction n arbitrary: g r)
  case (Suc n)
  show ?case
  proof (cases "insertableSpaces g = [] \<or> insertionNewNodeTypeSpace g = []")
    case False
    obtain i r1 where i: "weighted (lib_chance D) (map weigh (insertableSpaces g)) r = (i, r1)" by fastforce
    obtain j r2 where j: "pickone (lib_chance D) (length (insertionNewNodeTypeSpace g)) r1 = (j, r2)" by fastforce
    have t: "insertionNewNodeTypeSpace g ! j \<in> set (insertionNewNodeTypeSpace g)"
      using insertion_choice(2) [OF Suc.prems(1) _ _ i j] False by simp
    let ?t = "insertionNewNodeTypeSpace g ! j" and ?p = "insertableSpaces g ! i"
    let ?g = "g\<lparr>insertionNewNodeGens := AList.update (?t, ?p) [] (insertionNewNodeGens g),
      insertionNewNodeTypeSpace := lpull (lib_names D) (insertionNewNodeTypeSpace g) ?t\<rparr>"
    have "insertion_loop D n ?g r2 \<noteq> Unfinished"
      using Suc.prems pull_shorter [OF t] by (intro Suc.IH) (auto simp: insertion_valid_def)
    with False i j insertion_node_gen_returns [OF Suc.prems(1)] show ?thesis
      by (auto simp: Let_def split: list.splits)
  qed auto
qed simp

text \<open>Drawing a node lowers the stock; giving up a type does not raise it.\<close>

lemma insertions_left_give_up:
  "insertions_left D (g\<lparr>insertionNewNodeGens := AList.update (t, p) [] (insertionNewNodeGens g),
     insertionNewNodeTypeSpace := lpull (lib_names D) (insertionNewNodeTypeSpace g) t\<rparr>)
   \<le> insertions_left D g"
proof -
  let ?g = "g\<lparr>insertionNewNodeGens := AList.update (t, p) [] (insertionNewNodeGens g)\<rparr>"
  have "nodes_left D (?g\<lparr>insertionNewNodeTypeSpace := ts\<rparr>) t' p' = nodes_left D ?g t' p'" for ts t' p'
    by (simp add: nodes_left_def insertion_node_gen_def split: option.split)
  then have "insertions_left D (?g\<lparr>insertionNewNodeTypeSpace := lpull (lib_names D) (insertionNewNodeTypeSpace g) t\<rparr>)
      = (\<Sum>t'\<leftarrow>filter (\<lambda>y. y \<noteq> t) (insertionNewNodeTypeSpace g). \<Sum>p'\<leftarrow>insertableSpaces g. nodes_left D ?g t' p')"
    by (simp add: insertions_left_def pull)
  also have "\<dots> = (\<Sum>t'\<leftarrow>filter (\<lambda>y. y \<noteq> t) (insertionNewNodeTypeSpace g). \<Sum>p'\<leftarrow>insertableSpaces g. nodes_left D g t' p')"
    by (intro arg_cong [where f = sum_list] map_cong refl) (auto simp: nodes_left_update)
  also have "\<dots> \<le> insertions_left D g"
    unfolding insertions_left_def by (rule sum_list_filter_le)
  finally show ?thesis by simp
qed

lemma insertions_left_draw:
  assumes "t \<in> set (insertionNewNodeTypeSpace g)" and "p \<in> set (insertableSpaces g)"
    and "nodes_left D g t p = Suc (length rest)"
  shows "insertions_left D (g\<lparr>insertionNewNodeGens := AList.update (t, p) rest (insertionNewNodeGens g)\<rparr>)
    < insertions_left D g"
proof -
  have inner: "(\<Sum>p'\<leftarrow>insertableSpaces g. if t' = t \<and> p' = p then length rest else nodes_left D g t' p')
      \<le> (\<Sum>p'\<leftarrow>insertableSpaces g. nodes_left D g t' p')" for t'
    using assms(3) by (intro sum_list_mono) auto
  have strict: "(\<Sum>p'\<leftarrow>insertableSpaces g. if t = t \<and> p' = p then length rest else nodes_left D g t p')
      < (\<Sum>p'\<leftarrow>insertableSpaces g. nodes_left D g t p')"
    using assms(3) by (intro sum_list_le_strict [OF _ assms(2)]) auto
  have "insertions_left D (g\<lparr>insertionNewNodeGens := AList.update (t, p) rest (insertionNewNodeGens g)\<rparr>)
      = (\<Sum>t'\<leftarrow>insertionNewNodeTypeSpace g. \<Sum>p'\<leftarrow>insertableSpaces g.
          if t' = t \<and> p' = p then length rest else nodes_left D g t' p')"
    unfolding insertions_left_def by (intro arg_cong [where f = sum_list] map_cong refl)
      (simp_all add: nodes_left_update)
  also have "\<dots> < insertions_left D g"
    unfolding insertions_left_def
    by (rule sum_list_le_strict [where x = t]) (rule inner, rule assms(1), rule strict)
  finally show ?thesis .
qed

lemma insertion_loop_yields:
  "insertion_valid g \<Longrightarrow> insertion_loop D n g r = Returned (x, g', r') \<Longrightarrow>
   insertion_valid g' \<and> insertableSpaces g' = insertableSpaces g \<and>
   ig_forAST g' = ig_forAST g \<and> ig_astNodeSpace g' = ig_astNodeSpace g \<and>
   set (insertionNewNodeTypeSpace g') \<subseteq> set (insertionNewNodeTypeSpace g) \<and>
   (case x of None \<Rightarrow> insertions_left D g' \<le> insertions_left D g
    | Some m \<Rightarrow> insertions_left D g' < insertions_left D g \<and>
        (\<exists>p \<in> set (insertableSpaces g). targetPropertyPath m = propertyPath p \<and>
          insertIndex m = Fin (int (place_index p))))"
proof (induction n arbitrary: g r)
  case (Suc n)
  show ?case
  proof (cases "insertableSpaces g = [] \<or> insertionNewNodeTypeSpace g = []")
    case True
    with Suc.prems show ?thesis by auto
  next
    case False
    obtain i r1 where i: "weighted (lib_chance D) (map weigh (insertableSpaces g)) r = (i, r1)" by fastforce
    obtain j r2 where j: "pickone (lib_chance D) (length (insertionNewNodeTypeSpace g)) r1 = (j, r2)" by fastforce
    let ?t = "insertionNewNodeTypeSpace g ! j" and ?p = "insertableSpaces g ! i"
    have mem: "?p \<in> set (insertableSpaces g)" "?t \<in> set (insertionNewNodeTypeSpace g)"
      using insertion_choice [OF Suc.prems(1) _ _ i j] False by simp_all
    obtain nodes where nodes: "insertion_node_gen D g (Some (chance_seed (lib_chance D) r2)) ?t ?p = Returned nodes"
      using Suc.prems(2) False i j by (auto simp: Let_def)
    have left: "nodes_left D g ?t ?p = length nodes"
      by (rule insertion_node_gen_length [OF Suc.prems(1) nodes])
    show ?thesis
    proof (cases nodes)
      case Nil
      let ?g = "g\<lparr>insertionNewNodeGens := AList.update (?t, ?p) [] (insertionNewNodeGens g),
        insertionNewNodeTypeSpace := lpull (lib_names D) (insertionNewNodeTypeSpace g) ?t\<rparr>"
      have v: "insertion_valid ?g" using Suc.prems(1) by (simp add: insertion_valid_def)
      have "insertion_loop D n ?g r2 = Returned (x, g', r')"
        using Suc.prems(2) False i j nodes Nil by (simp add: Let_def)
      from Suc.IH [OF v this] insertions_left_give_up [of g ?t ?p] show ?thesis
        by (auto simp: pull split: option.splits)
    next
      case (Cons newNd rest)
      with Suc.prems False i j nodes have
        x: "x = Some \<lparr>targetPropertyPath = propertyPath ?p, insertIndex = Fin (int (place_index ?p)), newNode = newNd\<rparr>"
        and g': "g' = g\<lparr>insertionNewNodeGens := AList.update (?t, ?p) rest (insertionNewNodeGens g)\<rparr>"
        by (auto simp: Let_def)
      have "insertion_valid g'" using Suc.prems(1) by (simp add: insertion_valid_def g')
      with x g' mem insertions_left_draw [OF mem(2,1), of rest] left Cons show ?thesis by auto
    qed
  qed
qed simp

lemmas insertion_next_yields = insertion_loop_yields [of g "Suc (length (insertionNewNodeTypeSpace g))"
    for g, folded insertion_next_def]

lemma insertion_next_returns: "insertion_valid g \<Longrightarrow> insertion_next D g r \<noteq> Unfinished"
  unfolding insertion_next_def by (rule insertion_loop_returns) simp_all

end

sublocale generator_libs \<subseteq> insertions: random_generator "insertion_next D" "insertions_left D"
  insertion_valid
  by unfold_locales (auto dest: insertion_next_returns insertion_next_yields)

interpretation insertions_reference: random_generator "insertion_next libs_ref"
  "insertions_left libs_ref" insertion_valid
  by (rule generator_libs_reference.insertions.random_generator_axioms)

section \<open>The places are places of the AST\<close>

text \<open>The property at the path is an array, and the index is at most its length.\<close>

definition place_of :: "jsval \<Rightarrow> insertable_place \<Rightarrow> bool" where
  "place_of ast p \<longleftrightarrow> propertyPath p \<noteq> [] \<and>
     (\<exists>xs. cwalk ast (propertyPath p) = Some (JArr xs) \<and> place_index p \<le> length xs)"

lemma entries_child: "wf_val v \<Longrightarrow> is_container v \<Longrightarrow> (k, w) \<in> set (entries v) \<Longrightarrow> child v k = Some w"
  by (cases v) (auto simp: set_zip)

lemma walk_nested_wf: "wf_val v \<Longrightarrow> cwalk v p = Some w \<Longrightarrow> wf_val w"
proof (induction v p rule: cwalk.induct)
  case (2 v k ks)
  then obtain c where c: "child v k = Some c" "cwalk c ks = Some w" by (auto split: option.splits)
  have "wf_val c"
    using 2(2) c(1) by (cases v) (auto simp: list_all_iff split: option.splits if_splits dest!: map_of_SomeD)
  with 2(1) c show ?case by blast
qed simp

context generator_libs
begin

lemma insertable_places_of_ast:
  assumes "insertable_places (lib_lodash D) ast fss = Inr ps" and "wf_val ast"
    and "[] \<notin> set fss" and "p \<in> set ps"
  shows "place_of ast p \<and> 0 < weigh p"
proof -
  obtain pairs props where pairs: "getFaultSpaceNodePair (lib_lodash D) ast fss = Inr pairs"
    and props: "map_result (insertable_properties ast) pairs = Inr props"
    and ps: "ps = concat (map property_places (concat props))"
    using assms(1) by (auto simp: insertable_places_def)
  from ps assms(4) obtain qs q where q: "qs \<in> set props" "q \<in> set qs" "p \<in> set (property_places q)"
    by auto
  then obtain fs node where fn: "(fs, node) \<in> set pairs" "insertable_properties ast (fs, node) = Inr qs"
    using map_result_mem [OF props q(1)] by auto
  then have "fs \<in> set fss" "getASTNodeFromPath (lib_lodash D) ast fs = Some node"
    using map_result_mem [OF pairs [unfolded getFaultSpaceNodePair_def], of "(fs, node)"]
    by (auto split: option.splits)
  moreover from this assms(3) have "fs \<noteq> []" by auto
  ultimately have fs: "walk ast fs = Some node"
    by (simp add: getASTNodeFromPath_def get_path)
  let ?f = "\<lambda>(k, v). let propPath = fs @ [k] in
         bind_result (getNodePathScopeInfo ast propPath) (\<lambda>scope.
           Inr (fs, propPath, length (entries v),
             \<lparr>ctx_scopeInfo = Some scope, ctx_forLocation = None\<rparr>))"
  from fn(2) have m: "map_result ?f (filter (\<lambda>(k, v). is_array v \<and> k \<notin> set disallowKeys) (entries node)) = Inr qs"
    by (auto simp: insertable_properties_def split: if_splits)
  from map_result_mem [OF m q(2)]
  have "\<exists>x \<in> set (filter (\<lambda>(k, v). is_array v \<and> k \<notin> set disallowKeys) (entries node)). ?f x = Inr q" .
  then obtain k v where kv: "(k, v) \<in> set (entries node)" "is_array v"
    and "\<exists>ctx. q = (fs, fs @ [k], length (entries v), ctx)"
    by (auto simp: Let_def)
  then obtain ctx xs where qq: "q = (fs, fs @ [k], length xs, ctx)" and v: "v = JArr xs"
    by (auto simp: is_array_iff)
  have "is_container node" using kv by (cases node) (auto simp: set_zip)
  then have c: "cwalk ast fs = Some node" using fs by (simp add: walk_container_iff)
  with kv v entries_child [OF walk_nested_wf [OF assms(2) c] \<open>is_container node\<close>, of k v]
  have "cwalk ast (fs @ [k]) = Some (JArr xs)" by (simp add: cwalk_append)
  with q(3) qq show ?thesis by (auto simp: place_of_def property_places_def)
qed

lemma insertable_places_weigh:
  "insertable_places L ast fss = Inr ps \<Longrightarrow> p \<in> set ps \<Longrightarrow> weigh p = 1"
  by (auto simp: insertable_places_def property_places_def)

lemma new_insertion_gen_spaces:
  assumes "new_insertion_gen D ast fss S types = Inr g"
  obtains ps where "insertable_places (lib_lodash D) ast fss = Inr ps" "set (insertableSpaces g) \<subseteq> set ps"
    and "ig_forAST g = ast" "ig_astNodeSpace g = S" "insertionNewNodeTypeSpace g = types"
    and "insertionNewNodeGens g = []"
proof -
  from assms obtain ps where ps: "insertable_places (lib_lodash D) ast fss = Inr ps"
    and g: "g = \<lparr>ig_forAST = ast, ig_astNodeSpace = S, insertionNewNodeGens = [],
      insertableSpaces = lunionWith (lib_places D) [] ps (same_place (lib_lodash D)),
      insertionNewNodeTypeSpace = types\<rparr>"
    by (auto simp: new_insertion_gen_def)
  have "set (insertableSpaces g) \<subseteq> set ps"
    using lodash_arrays.unionWith_subset [OF places_ok, of "[]" ps "same_place (lib_lodash D)"]
    by (simp add: g)
  with ps g that show thesis by simp
qed

lemma new_insertion_gen_valid:
  assumes "new_insertion_gen D ast fss S types = Inr g" and "complete_sets (ASTNodeMapSet S)"
  shows "insertion_valid g"
proof -
  obtain ps where ps: "insertable_places (lib_lodash D) ast fss = Inr ps"
    "set (insertableSpaces g) \<subseteq> set ps" "ig_forAST g = ast" "ig_astNodeSpace g = S"
    "insertionNewNodeTypeSpace g = types" "insertionNewNodeGens g = []"
    by (rule new_insertion_gen_spaces [OF assms(1)])
  have "weigh p = 1" if "p \<in> set (insertableSpaces g)" for p
    using insertable_places_weigh [OF ps(1)] ps(2) that by blast
  with ps(4) assms(2) show ?thesis by (simp add: insertion_valid_def list_all_iff)
qed

lemma new_insertion_gen_places:
  assumes "new_insertion_gen D ast fss S types = Inr g" and "wf_val ast" and "[] \<notin> set fss"
    and "p \<in> set (insertableSpaces g)"
  shows "place_of ast p"
proof -
  obtain ps where ps: "insertable_places (lib_lodash D) ast fss = Inr ps"
    "set (insertableSpaces g) \<subseteq> set ps" "ig_forAST g = ast" "ig_astNodeSpace g = S"
    "insertionNewNodeTypeSpace g = types" "insertionNewNodeGens g = []"
    by (rule new_insertion_gen_spaces [OF assms(1)])
  have "p \<in> set ps" using ps(2) assms(4) by blast
  then show ?thesis using insertable_places_of_ast [OF ps(1) assms(2,3)] by simp
qed

text \<open>An insertion at a place of the AST applies to it.\<close>

lemma place_insertion_applicable:
  assumes "place_of ast p" and "targetPropertyPath m = propertyPath p"
    and "insertIndex m = Fin (int (place_index p))"
  shows "InsertionM_applicable m ast"
  using assms by (auto simp: place_of_def InsertionM_applicable_def)

text \<open>Fault spaces that are dropped or kept only narrow the generator.\<close>

lemma insertion_update_narrows:
  assumes "insertion_updateFaultSpace D (Intersect fss) g = Inr g' \<or>
    insertion_updateFaultSpace D (Remove fss) g = Inr g'"
  shows "set (insertableSpaces g') \<subseteq> set (insertableSpaces g) \<and> (insertion_valid g \<longrightarrow> insertion_valid g') \<and>
    insertions_left D g' \<le> insertions_left D g"
proof -
  obtain f where g': "g' = g\<lparr>insertableSpaces := filter f (insertableSpaces g)\<rparr>"
    using assms by auto
  have "nodes_left D (g\<lparr>insertableSpaces := ps\<rparr>) t p = nodes_left D g t p" for ps t p
    by (simp add: nodes_left_def insertion_node_gen_def split: option.split)
  then have "insertions_left D g' = (\<Sum>t\<leftarrow>insertionNewNodeTypeSpace g. \<Sum>p\<leftarrow>filter f (insertableSpaces g). nodes_left D g t p)"
    by (simp add: insertions_left_def g')
  also have "\<dots> \<le> insertions_left D g"
    unfolding insertions_left_def by (intro sum_list_mono sum_list_filter_le)
  finally show ?thesis using g' by (auto simp: insertion_valid_def list_all_iff)
qed

end

end
