(* ===== verification/MovementGen.thy ===== *)
theory MovementGen
  imports DeletionGen InsertionGen
begin

text \<open>
  The random generator of movements (\<open>RandomMutationGenerator_MoveMutation\<close>,
  \<open>lib/Mutations/MovementM.ts\<close>): for every possible deletion a generator of insertions into the
  AST after the deletion, whose space of new nodes is the deleted node alone. It meets the
  contract \<open>random_generator\<close>, resting on the contracts of the two generators it uses.
\<close>

section \<open>Operations\<close>

text \<open>The fault spaces an insertion may use: with \<open>onlySameFunction\<close>, those in the contract and
  function of the deleted node.\<close>

definition movement_faultSpaces ::
  "jsval \<Rightarrow> bool \<Rightarrow> path list \<Rightarrow> deletionM \<Rightarrow> path list result" where
  "movement_faultSpaces ast sameFunction fss m =
     (if \<not> sameFunction then Inr fss
      else bind_result (getNodePathScopeInfo ast (del_targetNodePath m)) (\<lambda>info.
        if functionName info = None then Inr fss
        else filter_result (\<lambda>x. isNodePathInScope ast x
            (case contractName info of None \<Rightarrow> None | Some c \<Rightarrow> Some [Some c])
            (Some [functionName info])) fss))"

text \<open>The generator of the insertions that complete a deletion. The deleted node is read
  before the deletion; undefined would fail in the visitor of the seeded space.\<close>

definition movement_pair ::
  "'r libs \<Rightarrow> movement_gen \<Rightarrow> path list \<Rightarrow> deletionM \<Rightarrow> (deletionM \<times> insertion_gen) result" where
  "movement_pair D g fss m =
     (let L = lib_lodash D; ast = mg_ast g; nodeTobeDeleted = getASTNodeFromPath L ast (del_targetNodePath m) in
      bind_result (movement_faultSpaces ast (onlySameFunction g) fss m) (\<lambda>fss'.
      bind_result (DeletionM_apply L m ast) (\<lambda>ASTaftDeletionM.
      let fss_insertion = List.map_filter (DeletionM_updateASTPath L m ast) fss' in
      bind_result (case nodeTobeDeleted of None \<Rightarrow> Inl TypeError
          | Some node \<Rightarrow> getSeededASTNodeSpace (lib_nullCopy D) [node]) (\<lambda>space.
      bind_result (new_insertion_gen D ASTaftDeletionM fss_insertion space [''ExpressionStatement''])
        (\<lambda>insertionMutationGen. Inr (m, insertionMutationGen))))))"

text \<open>\<open>lodash_equal\<close> on two pairs compares them deeply.\<close>

definition update_pair ::
  "'r libs \<Rightarrow> faultSpaceUpdate \<Rightarrow> deletionM \<times> insertion_gen \<Rightarrow> (deletionM \<times> insertion_gen) result" where
  "update_pair D update x = (case x of (m, ig) \<Rightarrow>
     bind_result (insertion_updateFaultSpace D update ig) (\<lambda>ig'. Inr (m, ig')))"

text \<open>
  \<open>updateFaultSpace\<close>. Adding runs a deletion generator dry, so it draws from the source. The
  pairs are removed when their deletion is (not) deletable in the given fault spaces, and the
  request is handed on to the insertion generators as it is.
\<close>

fun movement_updateFaultSpace ::
  "'r libs \<Rightarrow> faultSpaceUpdate \<Rightarrow> movement_gen \<Rightarrow> 'r \<Rightarrow> (movement_gen \<times> 'r) outcome" where
  "movement_updateFaultSpace D (Add fss) g r =
     bind_outcome (outcome_of (new_deletion_gen D (mg_ast g) fss)) (\<lambda>dg.
     bind_outcome (drain (deletion_next D) (Suc (length (deletableSpace dg))) dg r)
       (\<lambda>(allPossibleDeletionM, _, r').
     bind_outcome (outcome_of (map_result (movement_pair D g fss) allPossibleDeletionM)) (\<lambda>new_pairs.
       Returned (g\<lparr>pair_deletionMInsertionMutationGen :=
         lunionWith (lib_pairs D) (pair_deletionMInsertionMutationGen g) new_pairs (=)\<rparr>, r'))))"
| "movement_updateFaultSpace D (Remove fss) g r =
     outcome_of (bind_result (new_deletion_gen D (mg_ast g) fss) (\<lambda>DMgen.
     bind_result (map_result (update_pair D (Remove fss))
       (lremove (lib_pairs D) (pair_deletionMInsertionMutationGen g)
         (\<lambda>x. deletion_isMutationInRemainingSpace D DMgen (fst x)))) (\<lambda>pairs.
       Inr (g\<lparr>pair_deletionMInsertionMutationGen := pairs\<rparr>, r))))"
| "movement_updateFaultSpace D (Intersect fss) g r =
     outcome_of (bind_result (new_deletion_gen D (mg_ast g) fss) (\<lambda>DMgen.
     bind_result (map_result (update_pair D (Intersect fss))
       (lremove (lib_pairs D) (pair_deletionMInsertionMutationGen g)
         (\<lambda>x. \<not> deletion_isMutationInRemainingSpace D DMgen (fst x)))) (\<lambda>pairs.
       Inr (g\<lparr>pair_deletionMInsertionMutationGen := pairs\<rparr>, r))))"
| "movement_updateFaultSpace D (UpdateWeigh fss) g r = Thrown UnimplementedError"

definition new_movement_gen ::
  "'r libs \<Rightarrow> jsval \<Rightarrow> path list \<Rightarrow> bool \<Rightarrow> 'r \<Rightarrow> (movement_gen \<times> 'r) outcome" where
  "new_movement_gen D ast fss sameFunction r =
     movement_updateFaultSpace D (Add fss)
       \<lparr>mg_ast = ast, onlySameFunction = sameFunction, pair_deletionMInsertionMutationGen = []\<rparr> r"

text \<open>The loop of \<open>next\<close>: a pair without insertions is removed, and an insertion at the place of
  the deleted node is skipped.\<close>

fun movement_loop ::
  "'r libs \<Rightarrow> nat \<Rightarrow> movement_gen \<Rightarrow> 'r \<Rightarrow> (movementM option \<times> movement_gen \<times> 'r) outcome" where
  "movement_loop D 0 g r = Unfinished"
| "movement_loop D (Suc fuel) g r =
     (let pairs = pair_deletionMInsertionMutationGen g in
      if pairs = [] then Returned (None, g, r)
      else
        let (z, r1) = integer_between (lib_chance D) 0 (int (length pairs) - 1) r; chosen_idx = nat z;
            (m, ig) = pairs ! chosen_idx in
        bind_outcome (insertion_next D ig r1) (\<lambda>(insertionM, ig', r2).
          case insertionM of
            None \<Rightarrow> movement_loop D fuel
              (g\<lparr>pair_deletionMInsertionMutationGen := splice_remove pairs (Fin z)\<rparr>) r2
          | Some ins \<Rightarrow>
              let g' = g\<lparr>pair_deletionMInsertionMutationGen := pairs[chosen_idx := (m, ig')]\<rparr> in
              if lequal (lib_lodash D) (del_targetNodePath m) (insertion_location ins)
              then movement_loop D fuel g' r2
              else bind_outcome (outcome_of (MovementM_fromMutation (lib_lodash D) (mg_ast g) m ins))
                (\<lambda>mov. Returned (Some mov, g', r2))))"

text \<open>The stock: the insertions left in all pairs. Every round uses one up or removes a pair.\<close>

definition movements_left :: "'r libs \<Rightarrow> movement_gen \<Rightarrow> nat" where
  "movements_left D g = (\<Sum>(m, ig)\<leftarrow>pair_deletionMInsertionMutationGen g. insertions_left D ig)"

definition movement_next ::
  "'r libs \<Rightarrow> movement_gen \<Rightarrow> 'r \<Rightarrow> (movementM option \<times> movement_gen \<times> 'r) outcome" where
  "movement_next D g r =
     movement_loop D (Suc (movements_left D g + length (pair_deletionMInsertionMutationGen g))) g r"

definition movement_isMutationInRemainingSpace :: "bool result" where
  "movement_isMutationInRemainingSpace = Inl UnimplementedError"

definition movement_valid :: "movement_gen \<Rightarrow> bool" where
  "movement_valid g \<longleftrightarrow> (\<forall>(m, ig) \<in> set (pair_deletionMInsertionMutationGen g). insertion_valid ig)"

context generator_libs
begin

lemma movement_choice:
  assumes "pairs \<noteq> []" and "integer_between (lib_chance D) 0 (int (length pairs) - 1) r = (z, r1)"
  shows "nat z < length pairs" and "0 \<le> z"
proof -
  have "0 < length pairs" using assms(1) by simp
  then have "0 \<le> fst (integer_between (lib_chance D) 0 (int (length pairs) - 1) r) \<and>
      fst (integer_between (lib_chance D) 0 (int (length pairs) - 1) r) \<le> int (length pairs) - 1"
    by (intro between_range) linarith
  with assms(2) \<open>0 < length pairs\<close> show "nat z < length pairs" "0 \<le> z" by auto
qed

lemma movements_left_removed:
  assumes "i < length (pair_deletionMInsertionMutationGen g)"
  shows "movements_left D (g\<lparr>pair_deletionMInsertionMutationGen :=
      splice_remove (pair_deletionMInsertionMutationGen g) (Fin (int i))\<rparr>) \<le> movements_left D g"
  using sum_list_remove [OF assms, of "\<lambda>(m, ig). insertions_left D ig"]
  by (simp add: movements_left_def splice_remove_in_range [OF assms])

lemma movements_left_drawn:
  assumes "i < length (pair_deletionMInsertionMutationGen g)"
    and "pair_deletionMInsertionMutationGen g ! i = (m, ig)" and "insertions_left D ig' < insertions_left D ig"
  shows "movements_left D (g\<lparr>pair_deletionMInsertionMutationGen :=
      (pair_deletionMInsertionMutationGen g)[i := (m, ig')]\<rparr>) < movements_left D g"
proof -
  let ?ps = "pair_deletionMInsertionMutationGen g" and ?f = "\<lambda>(m, ig). insertions_left D ig"
  have "(\<Sum>x\<leftarrow>?ps[i := (m, ig')]. ?f x) = insertions_left D ig' + (\<Sum>x\<leftarrow>take i ?ps @ drop (Suc i) ?ps. ?f x)"
    using assms(1) sum_list_remove [of i "?ps[i := (m, ig')]" ?f] by simp
  moreover have "(\<Sum>x\<leftarrow>?ps. ?f x) = insertions_left D ig + (\<Sum>x\<leftarrow>take i ?ps @ drop (Suc i) ?ps. ?f x)"
    using assms(1,2) sum_list_remove [of i ?ps ?f] by simp
  ultimately show ?thesis using assms(3) by (simp add: movements_left_def)
qed

lemma movement_valid_removed:
  "movement_valid g \<Longrightarrow> i < length (pair_deletionMInsertionMutationGen g) \<Longrightarrow>
   movement_valid (g\<lparr>pair_deletionMInsertionMutationGen :=
      splice_remove (pair_deletionMInsertionMutationGen g) (Fin (int i))\<rparr>)"
  by (auto simp: movement_valid_def splice_remove_in_range dest: in_set_takeD in_set_dropD)

lemma movement_valid_drawn:
  "movement_valid g \<Longrightarrow> insertion_valid ig' \<Longrightarrow>
   movement_valid (g\<lparr>pair_deletionMInsertionMutationGen :=
      (pair_deletionMInsertionMutationGen g)[i := (m, ig')]\<rparr>)"
  by (auto simp: movement_valid_def dest!: subsetD [OF set_update_subset_insert])

lemma movement_loop_returns:
  "movement_valid g \<Longrightarrow> movements_left D g + length (pair_deletionMInsertionMutationGen g) < n \<Longrightarrow>
   movement_loop D n g r \<noteq> Unfinished"
proof (induction n arbitrary: g r)
  case (Suc n)
  let ?pairs = "pair_deletionMInsertionMutationGen g"
  show ?case
  proof (cases "?pairs = []")
    case False
    obtain z r1 where z: "integer_between (lib_chance D) 0 (int (length ?pairs) - 1) r = (z, r1)" by fastforce
    note zl = movement_choice [OF False z]
    obtain m ig where mi: "?pairs ! nat z = (m, ig)" by fastforce
    have v: "insertion_valid ig"
      using Suc.prems(1) zl(1) mi nth_mem [OF zl(1)] by (auto simp: movement_valid_def)
    show ?thesis
    proof (cases "insertion_next D ig r1")
      case (Returned t)
      obtain x ig' r2 where t: "t = (x, ig', r2)" by (cases t)
      show ?thesis
      proof (cases x)
        case None
        let ?g = "g\<lparr>pair_deletionMInsertionMutationGen := splice_remove ?pairs (Fin z)\<rparr>"
        have "movement_loop D n ?g r2 \<noteq> Unfinished"
        proof (rule Suc.IH)
          show "movement_valid ?g"
            using movement_valid_removed [OF Suc.prems(1) zl(1)] zl(2) by simp
          have "length (splice_remove ?pairs (Fin z)) < length ?pairs"
            using splice_remove_in_range [OF zl(1)] zl by simp
          with Suc.prems(2) movements_left_removed [OF zl(1)] zl(2)
          show "movements_left D ?g + length (pair_deletionMInsertionMutationGen ?g) < n" by simp
        qed
        with False z mi Returned t None show ?thesis by (simp add: Let_def)
      next
        case (Some ins)
        with Returned t v have ig': "insertion_valid ig'" "insertions_left D ig' < insertions_left D ig"
          using insertion_next_yields [OF v, of r1 x ig' r2] by auto
        let ?g = "g\<lparr>pair_deletionMInsertionMutationGen := ?pairs[nat z := (m, ig')]\<rparr>"
        have "movement_loop D n ?g r2 \<noteq> Unfinished"
          using Suc.prems(2) movement_valid_drawn [OF Suc.prems(1) ig'(1), of "nat z" m]
            movements_left_drawn [OF zl(1) mi ig'(2)]
          by (intro Suc.IH) auto
        with False z mi Returned t Some show ?thesis by (auto simp: Let_def)
      qed
    qed (use False z mi insertion_next_returns [OF v, of r1] in \<open>auto simp: Let_def\<close>)
  qed simp
qed simp

lemma movement_loop_yields:
  "movement_valid g \<Longrightarrow> movement_loop D n g r = Returned (x, g', r') \<Longrightarrow>
   movement_valid g' \<and> mg_ast g' = mg_ast g \<and>
   (case x of None \<Rightarrow> movements_left D g' \<le> movements_left D g
    | Some mov \<Rightarrow> movements_left D g' < movements_left D g)"
proof (induction n arbitrary: g r)
  case (Suc n)
  let ?pairs = "pair_deletionMInsertionMutationGen g"
  show ?case
  proof (cases "?pairs = []")
    case True
    with Suc.prems show ?thesis by auto
  next
    case False
    obtain z r1 where z: "integer_between (lib_chance D) 0 (int (length ?pairs) - 1) r = (z, r1)" by fastforce
    note zl = movement_choice [OF False z]
    obtain m ig where mi: "?pairs ! nat z = (m, ig)" by fastforce
    have v: "insertion_valid ig"
      using Suc.prems(1) zl(1) mi nth_mem [OF zl(1)] by (auto simp: movement_valid_def)
    obtain y ig' r2 where t: "insertion_next D ig r1 = Returned (y, ig', r2)"
      using Suc.prems(2) False z mi by (auto simp: Let_def)
    show ?thesis
    proof (cases y)
      case None
      let ?g = "g\<lparr>pair_deletionMInsertionMutationGen := splice_remove ?pairs (Fin z)\<rparr>"
      have g: "movement_valid ?g" "movements_left D ?g \<le> movements_left D g"
        using movement_valid_removed [OF Suc.prems(1) zl(1)] movements_left_removed [OF zl(1)] zl(2) by simp_all
      have "movement_loop D n ?g r2 = Returned (x, g', r')"
        using Suc.prems(2) False z mi t None by (simp add: Let_def)
      from Suc.IH [OF g(1) this] g(2) show ?thesis by (auto split: option.splits)
    next
      case (Some ins)
      have ig': "insertion_valid ig'" "insertions_left D ig' < insertions_left D ig"
        using insertion_next_yields [OF v t] Some by auto
      let ?g = "g\<lparr>pair_deletionMInsertionMutationGen := ?pairs[nat z := (m, ig')]\<rparr>"
      have g: "movement_valid ?g" "movements_left D ?g < movements_left D g"
        using movement_valid_drawn [OF Suc.prems(1) ig'(1)] movements_left_drawn [OF zl(1) mi ig'(2)] by simp_all
      show ?thesis
      proof (cases "lequal (lib_lodash D) (del_targetNodePath m) (insertion_location ins)")
        case True
        have "movement_loop D n ?g r2 = Returned (x, g', r')"
          using Suc.prems(2) False z mi t Some True by (simp add: Let_def)
        from Suc.IH [OF g(1) this] g(2) show ?thesis by (auto split: option.splits)
      next
        case neq: False
        have "g' = ?g \<and> (\<exists>mov. x = Some mov)"
          using Suc.prems(2) False z mi t Some neq by (auto simp: Let_def)
        with g show ?thesis by auto
      qed
    qed
  qed
qed simp

lemmas movement_next_yields = movement_loop_yields
  [of g "Suc (movements_left D g + length (pair_deletionMInsertionMutationGen g))" for g,
    folded movement_next_def]

lemma movement_next_returns: "movement_valid g \<Longrightarrow> movement_next D g r \<noteq> Unfinished"
  unfolding movement_next_def by (rule movement_loop_returns) simp_all

lemma complete_walk: "complete v \<Longrightarrow> walk v p = Some w \<Longrightarrow> complete w"
  by (induction v p rule: walk.induct) (auto split: option.splits dest: complete_prop)

lemma drained_deletions:
  assumes "new_deletion_gen D ast fss = Inr dg" and "drain (deletion_next D) n dg r = Returned (ms, dg', r')"
    and "m \<in> set ms"
  shows "del_targetNodePath m \<in> set fss"
proof -
  obtain ds where ds: "deletableFaultSpace (lib_lodash D) ast fss (Some deletableNodeTypes) = Inr ds"
    "set (deletableSpace dg) = set ds" "distinct (deletableSpace dg)" "dg_forAST dg = ast"
    by (rule new_deletion_gen_space [OF assms(1)])
  have "set (map del_targetNodePath ms) = set (deletableSpace dg)"
    using deletion_drain_mset [OF assms(2)] by (metis set_mset_mset)
  with assms(3) ds(1,2) show ?thesis
    by (auto simp: deletableFaultSpace_def filter_result_set)
qed

text \<open>A movement generator built on an AST is valid; each pair has a deletion that was offered.\<close>

lemma new_movement_gen_valid:
  assumes "new_movement_gen D ast fss same r = Returned (g, r')" and "complete ast" and "[] \<notin> set fss"
  shows "movement_valid g"
proof -
  obtain dg ms dg' r1 pairs where dg: "new_deletion_gen D ast fss = Inr dg"
    and ms: "drain (deletion_next D) (Suc (length (deletableSpace dg))) dg r = Returned (ms, dg', r1)"
    and p: "map_result (movement_pair D \<lparr>mg_ast = ast, onlySameFunction = same,
        pair_deletionMInsertionMutationGen = []\<rparr> fss) ms = Inr pairs"
    and g: "g = \<lparr>mg_ast = ast, onlySameFunction = same,
        pair_deletionMInsertionMutationGen = lunionWith (lib_pairs D) [] pairs (=)\<rparr>"
    using assms(1) by (auto simp: new_movement_gen_def simp del: drain.simps)
  have ne: "del_targetNodePath m \<noteq> []" if "m \<in> set ms" for m
    using drained_deletions [OF dg ms that] assms(3) by auto
  have "insertion_valid ig" if mi: "(m, ig) \<in> set pairs" for m ig
  proof -
    obtain m' where m': "m' \<in> set ms" "movement_pair D \<lparr>mg_ast = ast, onlySameFunction = same,
        pair_deletionMInsertionMutationGen = []\<rparr> fss m' = Inr (m, ig)"
      using map_result_mem [OF p mi] by auto
    then obtain node space ast' fs' where node: "getASTNodeFromPath (lib_lodash D) ast (del_targetNodePath m') = Some node"
      and space: "getSeededASTNodeSpace (lib_nullCopy D) [node] = Inr space"
      and ig: "new_insertion_gen D ast' fs' space [''ExpressionStatement''] = Inr ig"
      by (auto simp: movement_pair_def Let_def split: option.splits)
    have "complete node"
      using node ne [OF m'(1)] complete_walk [OF assms(2)] by (simp add: getASTNodeFromPath_def get_path)
    with SeededASTNodeSpace_complete(1) [OF nullCopy_ok _ space] show ?thesis
      by (intro new_insertion_gen_valid [OF ig]) simp
  qed
  then show ?thesis
    using lodash_arrays.unionWith_subset [OF pairs_ok, of "[]" pairs "(=)"]
    by (auto simp: movement_valid_def g)
qed

end

sublocale generator_libs \<subseteq> movements: random_generator "movement_next D" "movements_left D"
  movement_valid
  by unfold_locales (auto dest: movement_next_returns movement_next_yields)

interpretation movements_reference: random_generator "movement_next libs_ref"
  "movements_left libs_ref" movement_valid
  by (rule generator_libs_reference.movements.random_generator_axioms)

end
