(* ===== verification/ReplacementGen.thy ===== *)
theory ReplacementGen
  imports GeneratorLibs ReplacementM
begin

text \<open>
  The random generator of replacements (\<open>RandomMutationGenerator_ReplacementM\<close>,
  \<open>lib/Mutations/ReplacementM.ts\<close>): for every replaceable node the types of new nodes that
  may still be generated for it, and per node and type a node generator. It meets the
  contract \<open>random_generator\<close>.
\<close>

section \<open>Operations\<close>

text \<open>The callback of \<open>reduce\<close>: the entry for a node, if it may be replaced.\<close>

definition replaceable_entry ::
  "replacement_gen \<Rightarrow> path \<times> jsval \<Rightarrow> replaceable_node option result" where
  "replaceable_entry g x = (case x of (fs, node) \<Rightarrow>
     bind_result (js_field (Some node) ''type'') (\<lambda>ty.
     if \<not> list_ex (\<lambda>t. ty = Some (JStr t)) (replaceNodeType g) then Inr None
     else bind_result (astNodeContainsNonEmptyBlock node) (\<lambda>nonEmpty.
       if nonEmpty then Inr None
       else bind_result (getNodePathScopeInfo (rg_forAST g) fs) (\<lambda>scope.
         Inr (if newNodeTypeSpace g = [] then None
           else Some \<lparr>rn_faultSpace = fs, rn_newNodeTypes = newNodeTypeSpace g,
             rn_ctx = \<lparr>ctx_scopeInfo = Some scope, ctx_forLocation = js_prop node ''loc''\<rparr>\<rparr>)))))"

fun keep_entries :: "'a option list \<Rightarrow> 'a list" where
  "keep_entries [] = []"
| "keep_entries (None # xs) = keep_entries xs"
| "keep_entries (Some x # xs) = x # keep_entries xs"

text \<open>As for deletions, the result of \<open>intersectionWith\<close> is dropped.\<close>

fun replacement_updateFaultSpace ::
  "'r libs \<Rightarrow> faultSpaceUpdate \<Rightarrow> replacement_gen \<Rightarrow> replacement_gen result" where
  "replacement_updateFaultSpace D (Add faultSpaces) g =
     bind_result (getFaultSpaceNodePair (lib_lodash D) (rg_forAST g) faultSpaces) (\<lambda>faultSpace_Node.
     bind_result (map_result (replaceable_entry g) faultSpace_Node) (\<lambda>newSupported.
       Inr (g\<lparr>supportedReplaceableNodes :=
          lunionWith (lib_replaceables D) (keep_entries newSupported) (supportedReplaceableNodes g)
            (\<lambda>a b. lequal (lib_lodash D) (rn_faultSpace a) (rn_faultSpace b))\<rparr>)))"
| "replacement_updateFaultSpace D (Remove faultSpaces) g =
     Inr (g\<lparr>supportedReplaceableNodes :=
        lpullAllWith (lib_replaceables D) (supportedReplaceableNodes g) faultSpaces
          (\<lambda>replaceableNode fs. lequal (lib_lodash D) (rn_faultSpace replaceableNode) fs)\<rparr>)"
| "replacement_updateFaultSpace D (Intersect faultSpaces) g = Inr g"
| "replacement_updateFaultSpace D (UpdateWeigh faultSpaces) g = Inl UnimplementedError"

definition new_replacement_gen ::
  "'r libs \<Rightarrow> jsval \<Rightarrow> path list \<Rightarrow> ast_node_space \<Rightarrow> string list \<Rightarrow> string list \<Rightarrow> replacement_gen result" where
  "new_replacement_gen D ast faultSpaces astNodeSpace replaceTypes newTypes =
     replacement_updateFaultSpace D (Add faultSpaces)
       \<lparr>rg_forAST = ast, rg_astNodeSpace = astNodeSpace, replaceNodeType = replaceTypes,
        newNodeTypeSpace = newTypes, supportedReplaceableNodes = [], chosenNodeNewNodeGen = []\<rparr>"

text \<open>The node generator in use for the chosen node and type; a new one takes an integer of the
  source as seed.\<close>

definition replacement_node_gen ::
  "'r libs \<Rightarrow> replacement_gen \<Rightarrow> seed option \<Rightarrow> replaceable_node \<Rightarrow> string \<Rightarrow> jsval list outcome" where
  "replacement_node_gen D g s entry nodeType =
     (case map_of (chosenNodeNewNodeGen g) (rn_faultSpace entry, nodeType) of
        Some nodeGen \<Rightarrow> Returned nodeGen
      | None \<Rightarrow> getASTNodeGenerator (lib_lodash D) (lib_chance D) (rg_astNodeSpace g) nodeType
          (Some (rn_ctx entry)) s)"

definition replacement_seed ::
  "'r libs \<Rightarrow> replacement_gen \<Rightarrow> replaceable_node \<Rightarrow> string \<Rightarrow> 'r \<Rightarrow> seed option \<times> 'r" where
  "replacement_seed D g entry nodeType r =
     (case map_of (chosenNodeNewNodeGen g) (rn_faultSpace entry, nodeType) of
        Some _ \<Rightarrow> (None, r)
      | None \<Rightarrow> (let (z, r') = rnd_integer (lib_chance D) r in (Some (SeedNumber z), r')))"

text \<open>
  The entries when only \<open>types'\<close> are left of the one at index \<open>i\<close>. \<open>pull\<close> of the entry object
  removes that entry and no other.
\<close>

definition give_up :: "replaceable_node list \<Rightarrow> nat \<Rightarrow> string list \<Rightarrow> replaceable_node list" where
  "give_up nodes i types' =
     (if types' = [] then splice_remove nodes (Fin (int i))
      else nodes[i := (nodes ! i)\<lparr>rn_newNodeTypes := types'\<rparr>])"

text \<open>
  The loop of \<open>next\<close>: a type that yields nothing more for the chosen node is given up for this
  node, and the node when no type is left.
\<close>

fun replacement_loop ::
  "'r libs \<Rightarrow> nat \<Rightarrow> replacement_gen \<Rightarrow> 'r \<Rightarrow> (replacementM option \<times> replacement_gen \<times> 'r) outcome" where
  "replacement_loop D 0 g r = Unfinished"
| "replacement_loop D (Suc fuel) g r =
     (let nodes = supportedReplaceableNodes g in
      if nodes = [] then Returned (None, g, r)
      else
        let (i, r1) = weighted (lib_chance D) (ones nodes) r; chosenNode = nodes ! i;
            types = rn_newNodeTypes chosenNode in
        bind_outcome (outcome_of (js_assert (types \<noteq> []))) (\<lambda>_.
        let (j, r2) = pickone (lib_chance D) (length types) r1; chosenNodeType = types ! j;
            (s, r3) = replacement_seed D g chosenNode chosenNodeType r2;
            key = (rn_faultSpace chosenNode, chosenNodeType) in
        bind_outcome (replacement_node_gen D g s chosenNode chosenNodeType) (\<lambda>newNodeGen.
          case newNodeGen of
            [] \<Rightarrow>
              replacement_loop D fuel
                (g\<lparr>chosenNodeNewNodeGen := AList.update key [] (chosenNodeNewNodeGen g),
                   supportedReplaceableNodes :=
                     give_up nodes i (lpull (lib_names D) types chosenNodeType)\<rparr>) r3
          | newNd # rest \<Rightarrow> Returned
              (Some \<lparr>rep_targetNodePath = rn_faultSpace chosenNode, rep_newNode = newNd\<rparr>,
               g\<lparr>chosenNodeNewNodeGen := AList.update key rest (chosenNodeNewNodeGen g)\<rparr>, r3))))"

definition types_left :: "replacement_gen \<Rightarrow> nat" where
  "types_left g = (\<Sum>e\<leftarrow>supportedReplaceableNodes g. length (rn_newNodeTypes e))"

definition replacement_next ::
  "'r libs \<Rightarrow> replacement_gen \<Rightarrow> 'r \<Rightarrow> (replacementM option \<times> replacement_gen \<times> 'r) outcome" where
  "replacement_next D g r = replacement_loop D (Suc (types_left g)) g r"

definition replacement_isMutationInRemainingSpace ::
  "'r libs \<Rightarrow> replacement_gen \<Rightarrow> replacementM \<Rightarrow> bool outcome" where
  "replacement_isMutationInRemainingSpace D g m =
     (case find (\<lambda>e. lequal (lib_lodash D) (rn_faultSpace e) (rep_targetNodePath m))
         (supportedReplaceableNodes g) of
        None \<Rightarrow> Returned False
      | Some e \<Rightarrow>
          if \<not> list_ex (has_type (rep_newNode m)) (rn_newNodeTypes e) then Returned False
          else isNodeInSpace (lib_lodash D) (lib_chance D) (rg_astNodeSpace g) (rep_newNode m) (rn_ctx e))"

section \<open>The stock of a replacement generator\<close>

definition new_nodes_left :: "'r libs \<Rightarrow> replacement_gen \<Rightarrow> replaceable_node \<Rightarrow> string \<Rightarrow> nat" where
  "new_nodes_left D g e t =
     (case replacement_node_gen D g None e t of Returned nodes \<Rightarrow> length nodes | _ \<Rightarrow> 0)"

definition replacements_left :: "'r libs \<Rightarrow> replacement_gen \<Rightarrow> nat" where
  "replacements_left D g =
     (\<Sum>e\<leftarrow>supportedReplaceableNodes g. \<Sum>t\<leftarrow>rn_newNodeTypes e. new_nodes_left D g e t)"

definition replacement_valid :: "replacement_gen \<Rightarrow> bool" where
  "replacement_valid g \<longleftrightarrow> complete_sets (ASTNodeMapSet (rg_astNodeSpace g)) \<and>
     distinct (map rn_faultSpace (supportedReplaceableNodes g))"

context generator_libs
begin

lemma replacement_node_gen_length:
  assumes "replacement_valid g" and "replacement_node_gen D g s e t = Returned nodes"
  shows "new_nodes_left D g e t = length nodes"
proof (cases "map_of (chosenNodeNewNodeGen g) (rn_faultSpace e, t)")
  case None
  with assms have c: "complete_sets (ASTNodeMapSet (rg_astNodeSpace g))"
    and y: "getASTNodeGenerator (lib_lodash D) (lib_chance D) (rg_astNodeSpace g) t
      (Some (rn_ctx e)) s = Returned nodes"
    by (auto simp: replacement_valid_def replacement_node_gen_def)
  obtain ys' where y': "getASTNodeGenerator (lib_lodash D) (lib_chance D) (rg_astNodeSpace g) t
      (Some (rn_ctx e)) None = Returned ys'"
    using generator_success [OF c y] by blast
  with None generator_length [OF c y y'] show ?thesis
    by (simp add: new_nodes_left_def replacement_node_gen_def)
qed (use assms in \<open>simp add: new_nodes_left_def replacement_node_gen_def\<close>)

lemma replacement_node_gen_returns:
  "replacement_valid g \<Longrightarrow> replacement_node_gen D g s e t \<noteq> Unfinished"
  by (auto simp: replacement_node_gen_def replacement_valid_def generator_returns split: option.splits)

lemma new_nodes_left_update:
  "new_nodes_left D (g\<lparr>chosenNodeNewNodeGen := AList.update (p, t) rest (chosenNodeNewNodeGen g),
      supportedReplaceableNodes := es\<rparr>) e t'
   = (if t' = t \<and> rn_faultSpace e = p then length rest else new_nodes_left D g e t')"
  by (auto simp: new_nodes_left_def replacement_node_gen_def update_conv' split: option.split)

lemma new_nodes_left_draw:
  "new_nodes_left D (g\<lparr>chosenNodeNewNodeGen := AList.update (p, t) rest (chosenNodeNewNodeGen g)\<rparr>) e t'
   = (if t' = t \<and> rn_faultSpace e = p then length rest else new_nodes_left D g e t')"
  by (auto simp: new_nodes_left_def replacement_node_gen_def update_conv' split: option.split)

text \<open>One round chooses an entry and a type of it.\<close>

lemma replacement_choice:
  assumes "supportedReplaceableNodes g \<noteq> []"
    and "weighted (lib_chance D) (ones (supportedReplaceableNodes g)) r = (i, r1)"
  shows "i < length (supportedReplaceableNodes g)"
  using weighted_ones [OF assms(1), of r] assms(2) by simp

lemma type_choice:
  assumes "types \<noteq> []" and "pickone (lib_chance D) (length types) r = (j, r')"
  shows "types ! j \<in> set types"
  using pickone_range [of "length types" r] assms by simp

lemma give_up_sum:
  fixes f :: "replaceable_node \<Rightarrow> nat"
  assumes "i < length nodes"
  shows "(\<Sum>e\<leftarrow>give_up nodes i types'. f e)
    = (if types' = [] then 0 else f ((nodes ! i)\<lparr>rn_newNodeTypes := types'\<rparr>))
      + (\<Sum>e\<leftarrow>take i nodes @ drop (Suc i) nodes. f e)"
proof (cases "types' = []")
  case True
  with assms show ?thesis by (simp add: give_up_def splice_remove_in_range)
next
  case False
  with assms sum_list_remove [of i "nodes[i := (nodes ! i)\<lparr>rn_newNodeTypes := types'\<rparr>]" f]
  show ?thesis by (simp add: give_up_def)
qed

lemma give_up_paths:
  assumes "i < length nodes" and "distinct (map rn_faultSpace nodes)"
  shows "distinct (map rn_faultSpace (give_up nodes i types'))"
    and "set (map rn_faultSpace (give_up nodes i types')) \<subseteq> set (map rn_faultSpace nodes)"
proof -
  have nodes: "nodes = take i nodes @ nodes ! i # drop (Suc i) nodes"
    using assms(1) by (rule id_take_nth_drop)
  have r: "rn_faultSpace ` set (take i nodes @ drop (Suc i) nodes) \<subseteq> rn_faultSpace ` set nodes"
    by (auto dest: in_set_takeD in_set_dropD)
  have d: "distinct (map rn_faultSpace (take i nodes @ drop (Suc i) nodes))"
    using assms(2) by (subst (asm) nodes) auto
  have u: "map rn_faultSpace (nodes[i := (nodes ! i)\<lparr>rn_newNodeTypes := types'\<rparr>]) = map rn_faultSpace nodes"
    using assms(1) by (intro nth_equalityI) (auto simp: nth_list_update)
  show "distinct (map rn_faultSpace (give_up nodes i types'))"
    and "set (map rn_faultSpace (give_up nodes i types')) \<subseteq> set (map rn_faultSpace nodes)"
    using d r u assms by (auto simp: give_up_def splice_remove_in_range simp del: map_append dest!: arg_cong [of _ _ set])
qed

lemma give_up_types_left:
  assumes "i < length (supportedReplaceableNodes g)"
    and "length types' < length (rn_newNodeTypes (supportedReplaceableNodes g ! i))"
  shows "types_left (g\<lparr>chosenNodeNewNodeGen := m,
      supportedReplaceableNodes := give_up (supportedReplaceableNodes g) i types'\<rparr>) < types_left g"
  using assms sum_list_remove [OF assms(1), of "\<lambda>e. length (rn_newNodeTypes e)"]
  by (auto simp: types_left_def give_up_sum [OF assms(1)])

lemma replacements_left_give_up:
  assumes "i < length (supportedReplaceableNodes g)" and "replacement_valid g"
    and e: "e = supportedReplaceableNodes g ! i"
  shows "replacements_left D (g\<lparr>chosenNodeNewNodeGen :=
        AList.update (rn_faultSpace e, t) [] (chosenNodeNewNodeGen g),
      supportedReplaceableNodes :=
        give_up (supportedReplaceableNodes g) i (lpull (lib_names D) (rn_newNodeTypes e) t)\<rparr>)
    \<le> replacements_left D g"
proof -
  let ?nodes = "supportedReplaceableNodes g" and ?types = "lpull (lib_names D) (rn_newNodeTypes e) t"
  let ?g = "g\<lparr>chosenNodeNewNodeGen := AList.update (rn_faultSpace e, t) [] (chosenNodeNewNodeGen g),
    supportedReplaceableNodes := give_up ?nodes i ?types\<rparr>"
  have le: "new_nodes_left D ?g x t' \<le> new_nodes_left D g x t'" for x t'
    by (simp add: new_nodes_left_update)
  have sup: "supportedReplaceableNodes ?g = give_up ?nodes i ?types" by simp
  have ctx: "new_nodes_left D g (x\<lparr>rn_newNodeTypes := ts\<rparr>) = new_nodes_left D g x" for x ts
    by (rule ext) (simp add: new_nodes_left_def replacement_node_gen_def split: option.split)
  have "replacements_left D ?g \<le> (\<Sum>x\<leftarrow>give_up ?nodes i ?types. \<Sum>t'\<leftarrow>rn_newNodeTypes x. new_nodes_left D g x t')"
    unfolding replacements_left_def sup by (intro sum_list_mono le)
  also have "\<dots> \<le> (\<Sum>t'\<leftarrow>?types. new_nodes_left D g e t')
      + (\<Sum>x\<leftarrow>take i ?nodes @ drop (Suc i) ?nodes. \<Sum>t'\<leftarrow>rn_newNodeTypes x. new_nodes_left D g x t')"
    by (simp only: give_up_sum [OF assms(1)]) (simp add: ctx e)
  also have "\<dots> \<le> (\<Sum>t'\<leftarrow>rn_newNodeTypes e. new_nodes_left D g e t')
      + (\<Sum>x\<leftarrow>take i ?nodes @ drop (Suc i) ?nodes. \<Sum>t'\<leftarrow>rn_newNodeTypes x. new_nodes_left D g x t')"
    by (intro add_right_mono) (simp only: pull sum_list_filter_le)
  also have "\<dots> = replacements_left D g"
    unfolding replacements_left_def e by (rule sum_list_remove [OF assms(1), symmetric])
  finally show ?thesis .
qed

lemma replacements_left_draw:
  assumes "e \<in> set (supportedReplaceableNodes g)" and "replacement_valid g"
    and "t \<in> set (rn_newNodeTypes e)" and "new_nodes_left D g e t = Suc (length rest)"
  shows "replacements_left D (g\<lparr>chosenNodeNewNodeGen :=
      AList.update (rn_faultSpace e, t) rest (chosenNodeNewNodeGen g)\<rparr>) < replacements_left D g"
proof -
  let ?g = "g\<lparr>chosenNodeNewNodeGen := AList.update (rn_faultSpace e, t) rest (chosenNodeNewNodeGen g)\<rparr>"
  have upd: "new_nodes_left D ?g x t'
      = (if t' = t \<and> rn_faultSpace x = rn_faultSpace e then length rest else new_nodes_left D g x t')" for x t'
    by (rule new_nodes_left_draw)
  have same: "x = e" if "x \<in> set (supportedReplaceableNodes g)" "rn_faultSpace x = rn_faultSpace e" for x
    using assms(1,2) that by (auto simp: replacement_valid_def distinct_map dest: inj_onD)
  have le: "new_nodes_left D ?g x t' \<le> new_nodes_left D g x t'" if "x \<in> set (supportedReplaceableNodes g)" for x t'
    using same [OF that] assms(4) by (auto simp: upd)
  have strict: "(\<Sum>t'\<leftarrow>rn_newNodeTypes e. new_nodes_left D ?g e t') < (\<Sum>t'\<leftarrow>rn_newNodeTypes e. new_nodes_left D g e t')"
    using assms(4) le [OF assms(1)] by (intro sum_list_le_strict [OF _ assms(3)]) (auto simp: upd)
  have "replacements_left D ?g = (\<Sum>x\<leftarrow>supportedReplaceableNodes g. \<Sum>t'\<leftarrow>rn_newNodeTypes x. new_nodes_left D ?g x t')"
    by (simp add: replacements_left_def)
  also have "\<dots> < replacements_left D g"
    unfolding replacements_left_def
    by (rule sum_list_le_strict [where x = e]) (auto intro!: sum_list_mono le assms(1) strict)
  finally show ?thesis .
qed

lemma replacement_loop_returns:
  "replacement_valid g \<Longrightarrow> types_left g < n \<Longrightarrow> replacement_loop D n g r \<noteq> Unfinished"
proof (induction n arbitrary: g r)
  case (Suc n)
  let ?nodes = "supportedReplaceableNodes g"
  show ?case
  proof (cases "?nodes = []")
    case False
    obtain i r1 where i: "weighted (lib_chance D) (ones ?nodes) r = (i, r1)" by fastforce
    let ?e = "?nodes ! i"
    obtain j r2 where j: "pickone (lib_chance D) (length (rn_newNodeTypes ?e)) r1 = (j, r2)" by fastforce
    let ?t = "rn_newNodeTypes ?e ! j"
    obtain s r3 where s: "replacement_seed D g ?e ?t r2 = (s, r3)" by fastforce
    have il: "i < length ?nodes" by (rule replacement_choice [OF False i])
    let ?g = "g\<lparr>chosenNodeNewNodeGen := AList.update (rn_faultSpace ?e, ?t) [] (chosenNodeNewNodeGen g),
      supportedReplaceableNodes := give_up ?nodes i (lpull (lib_names D) (rn_newNodeTypes ?e) ?t)\<rparr>"
    have "replacement_loop D n ?g r3 \<noteq> Unfinished" if "rn_newNodeTypes ?e \<noteq> []"
    proof (rule Suc.IH)
      show "replacement_valid ?g"
        using Suc.prems(1) give_up_paths(1) [OF il] by (simp add: replacement_valid_def)
      show "types_left ?g < n"
        using give_up_types_left [OF il pull_shorter [OF type_choice [OF that j]]] Suc.prems(2) by (meson less_Suc_eq_le less_le_trans)
    qed
    with False i j s replacement_node_gen_returns [OF Suc.prems(1), of s ?e ?t] show ?thesis
      by (auto simp: Let_def split: list.splits)
  qed simp
qed simp

lemma replacement_loop_yields:
  "replacement_valid g \<Longrightarrow> replacement_loop D n g r = Returned (x, g', r') \<Longrightarrow>
   replacement_valid g' \<and> rg_astNodeSpace g' = rg_astNodeSpace g \<and>
   set (map rn_faultSpace (supportedReplaceableNodes g')) \<subseteq> set (map rn_faultSpace (supportedReplaceableNodes g)) \<and>
   (case x of None \<Rightarrow> replacements_left D g' \<le> replacements_left D g
    | Some m \<Rightarrow> replacements_left D g' < replacements_left D g \<and>
        rep_targetNodePath m \<in> set (map rn_faultSpace (supportedReplaceableNodes g)))"
proof (induction n arbitrary: g r)
  case (Suc n)
  let ?nodes = "supportedReplaceableNodes g"
  show ?case
  proof (cases "?nodes = []")
    case True
    with Suc.prems show ?thesis by auto
  next
    case False
    obtain i r1 where i: "weighted (lib_chance D) (ones ?nodes) r = (i, r1)" by fastforce
    let ?e = "?nodes ! i"
    obtain j r2 where j: "pickone (lib_chance D) (length (rn_newNodeTypes ?e)) r1 = (j, r2)" by fastforce
    let ?t = "rn_newNodeTypes ?e ! j"
    obtain s r3 where s: "replacement_seed D g ?e ?t r2 = (s, r3)" by fastforce
    have il: "i < length ?nodes" by (rule replacement_choice [OF False i])
    have ne: "rn_newNodeTypes ?e \<noteq> []" using Suc.prems(2) False i by (auto simp: Let_def)
    have t: "?t \<in> set (rn_newNodeTypes ?e)" by (rule type_choice [OF ne j])
    obtain nodes where nodes: "replacement_node_gen D g s ?e ?t = Returned nodes"
      using Suc.prems(2) False i j s by (auto simp: Let_def)
    have left: "new_nodes_left D g ?e ?t = length nodes"
      by (rule replacement_node_gen_length [OF Suc.prems(1) nodes])
    show ?thesis
    proof (cases nodes)
      case Nil
      let ?g = "g\<lparr>chosenNodeNewNodeGen := AList.update (rn_faultSpace ?e, ?t) [] (chosenNodeNewNodeGen g),
        supportedReplaceableNodes := give_up ?nodes i (lpull (lib_names D) (rn_newNodeTypes ?e) ?t)\<rparr>"
      have v: "replacement_valid ?g"
        using Suc.prems(1) give_up_paths(1) [OF il] by (simp add: replacement_valid_def)
      have sub: "set (map rn_faultSpace (supportedReplaceableNodes ?g)) \<subseteq> set (map rn_faultSpace ?nodes)"
        using Suc.prems(1) give_up_paths(2) [OF il] by (simp add: replacement_valid_def)
      have "replacement_loop D n ?g r3 = Returned (x, g', r')"
        using Suc.prems(2) False i j s nodes Nil ne by (simp add: Let_def)
      note IH = Suc.IH [OF v this]
      have "set (map rn_faultSpace (supportedReplaceableNodes g')) \<subseteq> set (map rn_faultSpace ?nodes)"
        using IH sub by blast
      moreover have "rep_targetNodePath m \<in> set (map rn_faultSpace ?nodes)" if "x = Some m" for m
        using IH sub that by auto
      ultimately show ?thesis
        using IH replacements_left_give_up [OF il Suc.prems(1) refl, of ?t]
        by (auto split: option.splits simp del: set_map)
    next
      case (Cons newNd rest)
      with Suc.prems False i j s nodes ne have
        x: "x = Some \<lparr>rep_targetNodePath = rn_faultSpace ?e, rep_newNode = newNd\<rparr>"
        and g': "g' = g\<lparr>chosenNodeNewNodeGen := AList.update (rn_faultSpace ?e, ?t) rest (chosenNodeNewNodeGen g)\<rparr>"
        by (auto simp: Let_def)
      have "replacement_valid g'" using Suc.prems(1) by (simp add: replacement_valid_def g')
      moreover have "replacements_left D g' < replacements_left D g"
        unfolding g' using left Cons by (intro replacements_left_draw nth_mem il Suc.prems(1) t) simp
      ultimately show ?thesis using x g' il by auto
    qed
  qed
qed simp

lemmas replacement_next_yields = replacement_loop_yields [of g "Suc (types_left g)" for g,
    folded replacement_next_def]

lemma replacement_next_returns: "replacement_valid g \<Longrightarrow> replacement_next D g r \<noteq> Unfinished"
  unfolding replacement_next_def by (rule replacement_loop_returns) simp_all

end

sublocale generator_libs \<subseteq> replacements: random_generator "replacement_next D" "replacements_left D"
  replacement_valid
  by unfold_locales (auto dest: replacement_next_returns replacement_next_yields)

interpretation replacements_reference: random_generator "replacement_next libs_ref"
  "replacements_left libs_ref" replacement_valid
  by (rule generator_libs_reference.replacements.random_generator_axioms)

section \<open>The entries are nodes of the AST\<close>

lemma keep_entries_mem [simp]: "x \<in> set (keep_entries xs) \<longleftrightarrow> Some x \<in> set xs"
  by (induction xs rule: keep_entries.induct) auto

definition replaceable_in :: "jsval \<Rightarrow> path list \<Rightarrow> string list \<Rightarrow> path \<Rightarrow> bool" where
  "replaceable_in ast fss types p \<longleftrightarrow> p \<in> set fss \<and>
     (\<exists>node. walk ast p = Some node \<and> isASTNode (Some node) \<and> list_ex (has_type node) types)"

lemma type_prop_node: "js_prop v ''type'' = Some (JStr t) \<Longrightarrow> isASTNode (Some v)"
  by (cases v) (auto simp: arr_idx_def js_parseInt_def is_space_def parse_digits_def digit_val_def
      split: if_splits)

context generator_libs
begin

lemma new_replacement_gen_entries:
  assumes "new_replacement_gen D ast fss S rts nts = Inr g"
  obtains pairs es where "getFaultSpaceNodePair (lib_lodash D) ast fss = Inr pairs"
    and "map_result (replaceable_entry \<lparr>rg_forAST = ast, rg_astNodeSpace = S, replaceNodeType = rts,
      newNodeTypeSpace = nts, supportedReplaceableNodes = [], chosenNodeNewNodeGen = []\<rparr>) pairs = Inr es"
    and "supportedReplaceableNodes g = uniq_with (\<lambda>a b. rn_faultSpace a = rn_faultSpace b) [] (keep_entries es)"
    and "rg_astNodeSpace g = S" and "chosenNodeNewNodeGen g = []"
proof -
  let ?g = "\<lparr>rg_forAST = ast, rg_astNodeSpace = S, replaceNodeType = rts,
      newNodeTypeSpace = nts, supportedReplaceableNodes = [], chosenNodeNewNodeGen = []\<rparr>"
  from assms obtain pairs es where es: "getFaultSpaceNodePair (lib_lodash D) ast fss = Inr pairs"
    "map_result (replaceable_entry ?g) pairs = Inr es"
    and g: "g = ?g\<lparr>supportedReplaceableNodes := lunionWith (lib_replaceables D) (keep_entries es) []
      (\<lambda>a b. lequal (lib_lodash D) (rn_faultSpace a) (rn_faultSpace b))\<rparr>"
    by (auto simp: new_replacement_gen_def)
  have "supportedReplaceableNodes g = uniq_with (\<lambda>a b. rn_faultSpace a = rn_faultSpace b) [] (keep_entries es)"
    using lodash_arrays.unionWith [OF replaceables_ok, of "\<lambda>a b. rn_faultSpace a = rn_faultSpace b" "keep_entries es" "[]"]
    by (simp add: g equal_paths symp_def)
  with es g that show thesis by simp
qed

lemma new_replacement_gen_valid:
  assumes "new_replacement_gen D ast fss S rts nts = Inr g" and "complete_sets (ASTNodeMapSet S)"
  shows "replacement_valid g"
  by (rule new_replacement_gen_entries [OF assms(1)])
    (use assms(2) uniq_with_key(3) [of rn_faultSpace] in \<open>auto simp: replacement_valid_def\<close>)

lemma new_replacement_gen_targets:
  assumes "new_replacement_gen D ast fss S rts nts = Inr g" and "[] \<notin> set fss"
    and "e \<in> set (supportedReplaceableNodes g)"
  shows "replaceable_in ast fss rts (rn_faultSpace e) \<and> rn_newNodeTypes e = nts"
proof -
  let ?g = "\<lparr>rg_forAST = ast, rg_astNodeSpace = S, replaceNodeType = rts,
      newNodeTypeSpace = nts, supportedReplaceableNodes = [], chosenNodeNewNodeGen = []\<rparr>"
  obtain pairs es where pairs: "getFaultSpaceNodePair (lib_lodash D) ast fss = Inr pairs"
    and es: "map_result (replaceable_entry ?g) pairs = Inr es"
    and sup: "supportedReplaceableNodes g = uniq_with (\<lambda>a b. rn_faultSpace a = rn_faultSpace b) [] (keep_entries es)"
    and "rg_astNodeSpace g = S" and "chosenNodeNewNodeGen g = []"
    by (rule new_replacement_gen_entries [OF assms(1)])
  have "e \<in> set (keep_entries es)"
    using assms(3) uniq_with_key(1) [of rn_faultSpace "keep_entries es"] by (auto simp: sup)
  then have "Some e \<in> set es" by simp
  from map_result_mem [OF es this] obtain fs node where fn: "(fs, node) \<in> set pairs"
    "replaceable_entry ?g (fs, node) = Inr (Some e)" by auto
  then have e: "rn_faultSpace e = fs" "rn_newNodeTypes e = nts"
    and ty: "list_ex (\<lambda>t. js_prop node ''type'' = Some (JStr t)) rts"
    by (auto simp: replaceable_entry_def split: if_splits dest: js_field_Some)
  have "fs \<in> set fss" "getASTNodeFromPath (lib_lodash D) ast fs = Some node"
    using map_result_mem [OF pairs [unfolded getFaultSpaceNodePair_def] fn(1)]
    by (auto split: option.splits)
  moreover from this assms(2) have "fs \<noteq> []" by auto
  moreover have "isASTNode (Some node)" using ty type_prop_node by (auto simp: list_ex_iff)
  ultimately show ?thesis
    using e ty by (auto simp: replaceable_in_def getASTNodeFromPath_def get_path list_ex_iff has_type_def)
qed

text \<open>Replacing a node applies.\<close>

lemma replacement_applies:
  assumes "replaceable_in ast fss rts (rep_targetNodePath m)" and "[] \<notin> set fss"
  shows "\<exists>ast'. ReplacementM_apply (lib_lodash D) m ast = Inr ast'"
proof -
  obtain node where n: "walk ast (rep_targetNodePath m) = Some node" "isASTNode (Some node)"
    using assms by (auto simp: replaceable_in_def)
  moreover have "rep_targetNodePath m \<noteq> []" using assms by (auto simp: replaceable_in_def)
  ultimately show ?thesis
    by (simp add: ReplacementM_apply_def ReplacementM_transformNodeFunc_def update_path)
qed

end

end
