(* ===== verification/MutationGen.thy ===== *)
theory MutationGen
  imports MovementGen ReplacementGen Mutations
begin

text \<open>
  The generator of single mutations of one AST (\<open>RandomMutationGenerator\<close>,
  \<open>lib/RandomMutationSequenceGenerator.ts\<close>): it owns a source of randomness and one generator
  per mutation type, picks a type per call, and gives up a type whose generator is exhausted.
  Its contract follows from those of the four generators.
\<close>

section \<open>State\<close>

record faultSpaceInfo =
  info_faultSpace :: path
  remainingMutation :: "string list"

definition faultSpaceToFaultSpaceInfo :: "path \<Rightarrow> string list \<Rightarrow> faultSpaceInfo" where
  "faultSpaceToFaultSpaceInfo fs possible = \<lparr>info_faultSpace = fs, remainingMutation = possible\<rparr>"

record 'r mutation_gen =
  possibleMutationTypes :: "string list"
  insertionM_Gen :: insertion_gen
  replacementM_Gen :: replacement_gen
  deletionM_Gen :: deletion_gen
  movementM_Gen :: movement_gen
  gen_rng :: 'r

definition getFaultSpaceInfoNodePair ::
  "lodash \<Rightarrow> jsval \<Rightarrow> faultSpaceInfo list \<Rightarrow> (faultSpaceInfo \<times> jsval) list result" where
  "getFaultSpaceInfoNodePair L ast infos =
     map_result (\<lambda>x. case getASTNodeFromPath L ast (info_faultSpace x) of
        None \<Rightarrow> Inl AssertionError | Some node \<Rightarrow> Inr (x, node)) infos"

text \<open>The fault spaces that a type of mutation may still use.\<close>

definition spaces_for :: "string \<Rightarrow> faultSpaceInfo list \<Rightarrow> path list" where
  "spaces_for t infos = map info_faultSpace (filter (\<lambda>x. t \<in> set (remainingMutation x)) infos)"

definition new_mutation_gen ::
  "'r libs \<Rightarrow> jsval \<Rightarrow> faultSpaceInfo list \<Rightarrow> string list \<Rightarrow> string list option \<Rightarrow> string list option \<Rightarrow>
   seed \<Rightarrow> 'r mutation_gen outcome" where
  "new_mutation_gen D ast infos possible newTypes replaceableTypes seed =
     bind_outcome (outcome_of (js_assert (infos \<noteq> []))) (\<lambda>_.
     bind_outcome (outcome_of (js_assert (possible \<noteq> []))) (\<lambda>_.
     let r = new_chance (lib_chance D) seed in
     bind_outcome (outcome_of (new_RandomASTNodeSpace (lib_nullCopy D) ast)) (\<lambda>space.
     bind_outcome (outcome_of (getFaultSpaceInfoNodePair (lib_lodash D) ast infos)) (\<lambda>infoNodes.
     bind_outcome (outcome_of (new_insertion_gen D ast (spaces_for ''InsertionM'' (map fst infoNodes))
       space [''ExpressionStatement''])) (\<lambda>ig.
     bind_outcome (outcome_of (case replaceableTypes of None \<Rightarrow> supportedNodeTypes space | Some ts \<Rightarrow> Inr ts)) (\<lambda>rts.
     bind_outcome (outcome_of (case newTypes of None \<Rightarrow> supportedNodeTypes space | Some ts \<Rightarrow> Inr ts)) (\<lambda>nts.
     bind_outcome (outcome_of (new_replacement_gen D ast (spaces_for ''ReplacementM'' (map fst infoNodes))
       space rts nts)) (\<lambda>rg.
     bind_outcome (outcome_of (new_deletion_gen D ast (spaces_for ''DeletionM'' infos))) (\<lambda>dg.
     bind_outcome (new_movement_gen D ast (spaces_for ''MovementM'' infos) True r) (\<lambda>(mg, r').
       Returned \<lparr>possibleMutationTypes = possible, insertionM_Gen = ig, replacementM_Gen = rg,
         deletionM_Gen = dg, movementM_Gen = mg, gen_rng = r'\<rparr>))))))))))"

section \<open>Drawing a mutation\<close>

record gen_request =
  allowedMutationTypes :: "string list option"
  overriddenFaultSpace :: "path list option"

text \<open>The values of the iterator: undefined, \<open>addNewMutation_random_Result.RequestNotFulfilled\<close>, or
  a mutation.\<close>

datatype gen_reply = NoMutation | RequestNotFulfilled | NewMutation mutation

text \<open>Intersecting the chosen generator with an overridden fault space, and asking it.\<close>

definition narrowed ::
  "(faultSpaceUpdate \<Rightarrow> 'g \<Rightarrow> 'g result) \<Rightarrow> path list option \<Rightarrow> 'g \<Rightarrow> 'g result" where
  "narrowed update override g =
     (case override of None \<Rightarrow> Inr g | Some fss \<Rightarrow> update (Intersect fss) g)"

definition draw_mutation ::
  "'r libs \<Rightarrow> path list option \<Rightarrow> string \<Rightarrow> 'r mutation_gen \<Rightarrow> (mutation option \<times> 'r mutation_gen) outcome" where
  "draw_mutation D override t g =
     (if t = ''InsertionM'' then
        bind_outcome (outcome_of (narrowed (insertion_updateFaultSpace D) override (insertionM_Gen g))) (\<lambda>ig.
        bind_outcome (insertion_next D ig (gen_rng g)) (\<lambda>(m, ig', r).
          Returned (map_option Insertion m, g\<lparr>insertionM_Gen := ig', gen_rng := r\<rparr>)))
      else if t = ''ReplacementM'' then
        bind_outcome (outcome_of (narrowed (replacement_updateFaultSpace D) override (replacementM_Gen g))) (\<lambda>rg.
        bind_outcome (replacement_next D rg (gen_rng g)) (\<lambda>(m, rg', r).
          Returned (map_option Replacement m, g\<lparr>replacementM_Gen := rg', gen_rng := r\<rparr>)))
      else if t = ''DeletionM'' then
        bind_outcome (outcome_of (narrowed (deletion_updateFaultSpace D) override (deletionM_Gen g))) (\<lambda>dg.
        bind_outcome (deletion_next D dg (gen_rng g)) (\<lambda>(m, dg', r).
          Returned (map_option Deletion m, g\<lparr>deletionM_Gen := dg', gen_rng := r\<rparr>)))
      else if t = ''MovementM'' then
        bind_outcome (case override of None \<Rightarrow> Returned (movementM_Gen g, gen_rng g)
            | Some fss \<Rightarrow> movement_updateFaultSpace D (Intersect fss) (movementM_Gen g) (gen_rng g)) (\<lambda>(mg, r0).
        bind_outcome (movement_next D mg r0) (\<lambda>(m, mg', r).
          Returned (map_option Movement m, g\<lparr>movementM_Gen := mg', gen_rng := r\<rparr>)))
      else Thrown TypeError)"

fun mutation_gen_loop ::
  "'r libs \<Rightarrow> gen_request \<Rightarrow> nat \<Rightarrow> 'r mutation_gen \<Rightarrow> (gen_reply \<times> 'r mutation_gen) outcome" where
  "mutation_gen_loop D request 0 g = Unfinished"
| "mutation_gen_loop D request (Suc fuel) g =
     (if possibleMutationTypes g = [] then Returned (NoMutation, g)
      else
        let types = (case allowedMutationTypes request of None \<Rightarrow> possibleMutationTypes g
              | Some allowed \<Rightarrow> lintersection (lib_names D) (possibleMutationTypes g) allowed) in
        if types = [] then Returned (RequestNotFulfilled, g)
        else
          let (j, r) = pickone (lib_chance D) (length types) (gen_rng g); newMutationType = types ! j in
          bind_outcome (draw_mutation D (overriddenFaultSpace request) newMutationType (g\<lparr>gen_rng := r\<rparr>))
            (\<lambda>(newMutation, g'). case newMutation of
               None \<Rightarrow> mutation_gen_loop D request fuel
                 (g'\<lparr>possibleMutationTypes := lpull (lib_names D) (possibleMutationTypes g') newMutationType\<rparr>)
             | Some m \<Rightarrow> Returned (NewMutation m, g')))"

definition mutation_gen_next ::
  "'r libs \<Rightarrow> gen_request \<Rightarrow> 'r mutation_gen \<Rightarrow> (gen_reply \<times> 'r mutation_gen) outcome" where
  "mutation_gen_next D request g =
     mutation_gen_loop D request (Suc (length (possibleMutationTypes g))) g"

definition mutation_gen_isMutationInRemainingSpace ::
  "'r libs \<Rightarrow> (path \<Rightarrow> bool) \<Rightarrow> 'r mutation_gen \<Rightarrow> mutation \<Rightarrow> bool outcome" where
  "mutation_gen_isMutationInRemainingSpace D same_object g m =
     (if mutationType m \<notin> set (possibleMutationTypes g) then Returned False
      else case m of
        Insertion x \<Rightarrow> insertion_isMutationInRemainingSpace D same_object (insertionM_Gen g) x
      | Replacement x \<Rightarrow> replacement_isMutationInRemainingSpace D (replacementM_Gen g) x
      | Movement x \<Rightarrow> outcome_of movement_isMutationInRemainingSpace
      | Deletion x \<Rightarrow> Returned (deletion_isMutationInRemainingSpace D (deletionM_Gen g) x))"

section \<open>The contract\<close>

definition mutations_left :: "'r libs \<Rightarrow> 'r mutation_gen \<Rightarrow> nat" where
  "mutations_left D g = insertions_left D (insertionM_Gen g) + replacements_left D (replacementM_Gen g)
     + length (deletableSpace (deletionM_Gen g)) + movements_left D (movementM_Gen g)"

definition mutation_gen_valid :: "'r mutation_gen \<Rightarrow> bool" where
  "mutation_gen_valid g \<longleftrightarrow> insertion_valid (insertionM_Gen g) \<and> replacement_valid (replacementM_Gen g)
     \<and> movement_valid (movementM_Gen g)"

text \<open>What a draw of a type does to the generator.\<close>

definition drawn ::
  "'r libs \<Rightarrow> string \<Rightarrow> 'r mutation_gen \<Rightarrow> mutation option \<Rightarrow> 'r mutation_gen \<Rightarrow> bool" where
  "drawn D t g x g' \<longleftrightarrow> mutation_gen_valid g' \<and> possibleMutationTypes g' = possibleMutationTypes g \<and>
    (case x of None \<Rightarrow> mutations_left D g' \<le> mutations_left D g
     | Some m \<Rightarrow> mutationType m = t \<and> mutations_left D g' < mutations_left D g)"

context generator_libs
begin

text \<open>A movement generator is narrowed by an intersection, and a pair keeps its deletion.\<close>

lemma update_pair_pair [simp]:
  "update_pair D u (m, ig) = bind_result (insertion_updateFaultSpace D u ig) (\<lambda>ig'. Inr (m, ig'))"
  by (simp add: update_pair_def)

lemma update_pair_Intersect:
  assumes "map_result (update_pair D (Intersect fss)) xs = Inr ys"
    and "\<forall>(m, ig) \<in> set xs. insertion_valid ig"
  shows "(\<forall>(m, ig) \<in> set ys. insertion_valid ig) \<and>
    (\<Sum>(m, ig)\<leftarrow>ys. insertions_left D ig) \<le> (\<Sum>(m, ig)\<leftarrow>xs. insertions_left D ig)"
  using assms
proof (induction xs arbitrary: ys)
  case (Cons x xs)
  obtain m ig where x: "x = (m, ig)" by (cases x)
  obtain ig' zs where ig': "insertion_updateFaultSpace D (Intersect fss) ig = Inr ig'"
    and zs: "map_result (update_pair D (Intersect fss)) xs = Inr zs" and ys: "ys = (m, ig') # zs"
    using Cons.prems(1) x by (auto simp del: insertion_updateFaultSpace.simps)
  have n: "insertion_valid ig'" "insertions_left D ig' \<le> insertions_left D ig"
    using insertion_update_narrows [of fss ig ig'] ig' Cons.prems(2) x
    by (auto simp del: insertion_updateFaultSpace.simps)
  have "(\<forall>(m, ig) \<in> set zs. insertion_valid ig) \<and>
      (\<Sum>(m, ig)\<leftarrow>zs. insertions_left D ig) \<le> (\<Sum>(m, ig)\<leftarrow>xs. insertions_left D ig)"
    using Cons.prems(2) by (intro Cons.IH [OF zs]) simp
  with n show ?case by (auto simp: ys x intro: add_mono)
qed simp

lemma movement_update_narrows:
  assumes "movement_updateFaultSpace D (Intersect fss) g r = Returned (g', r')" and "movement_valid g"
  shows "movement_valid g' \<and> movements_left D g' \<le> movements_left D g"
proof -
  obtain f ys where ys: "map_result (update_pair D (Intersect fss))
      (filter f (pair_deletionMInsertionMutationGen g)) = Inr ys"
    and g': "g' = g\<lparr>pair_deletionMInsertionMutationGen := ys\<rparr>"
    using assms(1) by (auto simp: lodash_arrays.remove [OF pairs_ok])
  have v: "\<forall>(m, ig) \<in> set (filter f (pair_deletionMInsertionMutationGen g)). insertion_valid ig"
    using assms(2) by (auto simp: movement_valid_def)
  have "(\<Sum>(m, ig)\<leftarrow>ys. insertions_left D ig)
      \<le> (\<Sum>(m, ig)\<leftarrow>filter f (pair_deletionMInsertionMutationGen g). insertions_left D ig)"
    using update_pair_Intersect [OF ys v] by blast
  also have "\<dots> \<le> movements_left D g" unfolding movements_left_def by (rule sum_list_filter_le)
  finally show ?thesis using update_pair_Intersect [OF ys v] by (simp add: g' movements_left_def movement_valid_def)
qed

lemma movement_update_returns: "movement_updateFaultSpace D (Intersect fss) g r \<noteq> Unfinished"
  by (auto simp: Let_def)

text \<open>Narrowing a generator keeps it valid and does not raise its stock.\<close>

lemma narrowed_insertion:
  assumes "narrowed (insertion_updateFaultSpace D) override g = Inr g'" and "insertion_valid g"
  shows "insertion_valid g' \<and> insertions_left D g' \<le> insertions_left D g \<and>
    set (insertableSpaces g') \<subseteq> set (insertableSpaces g)"
proof (cases override)
  case (Some fss)
  with assms insertion_update_narrows [of fss g g'] show ?thesis
    by (simp add: narrowed_def del: insertion_updateFaultSpace.simps)
qed (use assms in \<open>simp add: narrowed_def\<close>)

lemma narrowed_replacement:
  "narrowed (replacement_updateFaultSpace D) override g = Inr g' \<Longrightarrow> g' = g"
  by (auto simp: narrowed_def split: option.splits)

lemma narrowed_deletion:
  "narrowed (deletion_updateFaultSpace D) override g = Inr g' \<Longrightarrow> g' = g"
  by (auto simp: narrowed_def split: option.splits)

lemma mutations_left_simps:
  "mutations_left D (g\<lparr>insertionM_Gen := ig, gen_rng := r\<rparr>) + insertions_left D (insertionM_Gen g)
     = mutations_left D g + insertions_left D ig"
  "mutations_left D (g\<lparr>replacementM_Gen := rg, gen_rng := r\<rparr>) + replacements_left D (replacementM_Gen g)
     = mutations_left D g + replacements_left D rg"
  "mutations_left D (g\<lparr>deletionM_Gen := dg, gen_rng := r\<rparr>) + length (deletableSpace (deletionM_Gen g))
     = mutations_left D g + length (deletableSpace dg)"
  "mutations_left D (g\<lparr>movementM_Gen := mg, gen_rng := r\<rparr>) + movements_left D (movementM_Gen g)
     = mutations_left D g + movements_left D mg"
  by (simp_all add: mutations_left_def)

lemma drawn_insertion:
  assumes "mutation_gen_valid g" and "draw_mutation D override ''InsertionM'' g = Returned (x, g')"
  shows "drawn D ''InsertionM'' g x g'"
proof -
  obtain ig m ig' r where ig: "narrowed (insertion_updateFaultSpace D) override (insertionM_Gen g) = Inr ig"
    and m: "insertion_next D ig (gen_rng g) = Returned (m, ig', r)"
    and g': "x = map_option Insertion m" "g' = g\<lparr>insertionM_Gen := ig', gen_rng := r\<rparr>"
    using assms(2) by (auto simp: draw_mutation_def)
  have n: "insertion_valid ig" "insertions_left D ig \<le> insertions_left D (insertionM_Gen g)"
    using narrowed_insertion [OF ig] assms(1) by (auto simp: mutation_gen_valid_def)
  show ?thesis
    using insertion_next_yields [OF n(1) m] n(2) assms(1) mutations_left_simps(1) [of r ig' g]
    by (auto simp: drawn_def g' mutation_gen_valid_def split: option.splits)
qed

lemma drawn_replacement:
  assumes "mutation_gen_valid g" and "draw_mutation D override ''ReplacementM'' g = Returned (x, g')"
  shows "drawn D ''ReplacementM'' g x g'"
proof -
  obtain m rg' r where m: "replacement_next D (replacementM_Gen g) (gen_rng g) = Returned (m, rg', r)"
    and g': "x = map_option Replacement m" "g' = g\<lparr>replacementM_Gen := rg', gen_rng := r\<rparr>"
    using assms(2) by (auto simp: draw_mutation_def dest!: narrowed_replacement)
  have "replacement_valid (replacementM_Gen g)" using assms(1) by (simp add: mutation_gen_valid_def)
  from replacement_next_yields [OF this m] assms(1) mutations_left_simps(2) [of r rg' g] show ?thesis
    by (auto simp: drawn_def g' mutation_gen_valid_def split: option.splits)
qed

lemma drawn_deletion:
  assumes "mutation_gen_valid g" and "draw_mutation D override ''DeletionM'' g = Returned (x, g')"
  shows "drawn D ''DeletionM'' g x g'"
proof -
  obtain m dg' r where m: "deletion_next D (deletionM_Gen g) (gen_rng g) = Returned (m, dg', r)"
    and g': "x = map_option Deletion m" "g' = g\<lparr>deletionM_Gen := dg', gen_rng := r\<rparr>"
    using assms(2) by (auto simp: draw_mutation_def dest!: narrowed_deletion)
  show ?thesis
  proof (cases m)
    case None
    with m deletions.exhausted [of "deletionM_Gen g" "gen_rng g" dg' r] mutations_left_simps(3) [of r dg' g] assms(1)
    show ?thesis by (simp add: drawn_def g' mutation_gen_valid_def)
  next
    case (Some d)
    with m deletions.yields [of "deletionM_Gen g" "gen_rng g" d dg' r] mutations_left_simps(3) [of r dg' g] assms(1)
    show ?thesis by (simp add: drawn_def g' mutation_gen_valid_def)
  qed
qed

lemma drawn_movement:
  assumes "mutation_gen_valid g" and "draw_mutation D override ''MovementM'' g = Returned (x, g')"
  shows "drawn D ''MovementM'' g x g'"
proof -
  obtain mg r0 m mg' r where mg: "(case override of None \<Rightarrow> Returned (movementM_Gen g, gen_rng g)
        | Some fss \<Rightarrow> movement_updateFaultSpace D (Intersect fss) (movementM_Gen g) (gen_rng g)) = Returned (mg, r0)"
    and m: "movement_next D mg r0 = Returned (m, mg', r)"
    and g': "x = map_option Movement m" "g' = g\<lparr>movementM_Gen := mg', gen_rng := r\<rparr>"
    using assms(2) by (auto simp: draw_mutation_def simp del: movement_updateFaultSpace.simps)
  have v: "movement_valid (movementM_Gen g)" using assms(1) by (simp add: mutation_gen_valid_def)
  have n: "movement_valid mg \<and> movements_left D mg \<le> movements_left D (movementM_Gen g)"
  proof (cases override)
    case (Some fss)
    with mg movement_update_narrows [OF _ v, of fss "gen_rng g" mg r0] show ?thesis by simp
  qed (use mg v in simp)
  show ?thesis
    using movement_next_yields [OF conjunct1 [OF n] m] n assms(1) mutations_left_simps(4) [of r mg' g]
    by (auto simp: drawn_def g' mutation_gen_valid_def split: option.splits)
qed

lemma draw_mutation_drawn:
  assumes "mutation_gen_valid g" and "draw_mutation D override t g = Returned (x, g')"
  shows "drawn D t g x g'"
proof (cases "t \<in> set allMutationTypes")
  case True
  then consider "t = ''InsertionM''" | "t = ''ReplacementM''" | "t = ''DeletionM''" | "t = ''MovementM''"
    by (auto simp: allMutationTypes_def)
  then show ?thesis
    by cases (use assms drawn_insertion drawn_replacement drawn_deletion drawn_movement in blast)+
next
  case False
  with assms(2) show ?thesis by (simp add: draw_mutation_def allMutationTypes_def)
qed

lemma draw_mutation_returns:
  assumes "mutation_gen_valid g"
  shows "draw_mutation D override t g \<noteq> Unfinished"
proof
  assume u: "draw_mutation D override t g = Unfinished"
  consider "t = ''InsertionM''" | "t = ''ReplacementM''" | "t = ''DeletionM''" | "t = ''MovementM''"
    using u by (auto simp: draw_mutation_def split: if_splits)
  then show False
  proof cases
    case 1
    with u obtain ig where "narrowed (insertion_updateFaultSpace D) override (insertionM_Gen g) = Inr ig"
      "insertion_next D ig (gen_rng g) = Unfinished" by (auto simp: draw_mutation_def)
    with narrowed_insertion insertion_next_returns assms show False
      by (auto simp: mutation_gen_valid_def)
  next
    case 2
    with u have "replacement_next D (replacementM_Gen g) (gen_rng g) = Unfinished"
      by (auto simp: draw_mutation_def dest!: narrowed_replacement)
    with replacement_next_returns assms show False by (auto simp: mutation_gen_valid_def)
  next
    case 3
    with u deletion_next_returns show False by (auto simp: draw_mutation_def)
  next
    case 4
    have v: "movement_valid (movementM_Gen g)" using assms by (simp add: mutation_gen_valid_def)
    show False
    proof (cases override)
      case None
      with u 4 movement_next_returns [OF v] show False by (auto simp: draw_mutation_def)
    next
      case (Some fss)
      with u 4 obtain mg r0 where "movement_updateFaultSpace D (Intersect fss) (movementM_Gen g) (gen_rng g)
          = Returned (mg, r0)" "movement_next D mg r0 = Unfinished"
        by (auto simp: draw_mutation_def movement_update_returns simp del: movement_updateFaultSpace.simps)
      with movement_update_narrows [OF _ v] movement_next_returns show False by blast
    qed
  qed
qed

text \<open>The types offered for a request, and the type chosen among them.\<close>

lemma chosen_type:
  assumes "types = (case allowedMutationTypes request of None \<Rightarrow> possibleMutationTypes g
      | Some allowed \<Rightarrow> lintersection (lib_names D) (possibleMutationTypes g) allowed)"
    and "types \<noteq> []" and "pickone (lib_chance D) (length types) r = (j, r')"
  shows "types ! j \<in> set (possibleMutationTypes g)"
    and "allowedMutationTypes request = Some allowed \<Longrightarrow> types ! j \<in> set allowed"
proof -
  have "types ! j \<in> set types" by (rule type_choice [OF assms(2,3)])
  then show "types ! j \<in> set (possibleMutationTypes g)"
    "allowedMutationTypes request = Some allowed \<Longrightarrow> types ! j \<in> set allowed"
    by (auto simp: assms(1) intersection split: option.splits)
qed

text \<open>One round of the loop.\<close>

lemma mutation_gen_round:
  assumes "mutation_gen_loop D request (Suc n) g = out" and "possibleMutationTypes g \<noteq> []"
  obtains (none) "out = Returned (RequestNotFulfilled, g)"
  | (draw) t r where "t \<in> set (possibleMutationTypes g)"
    and "\<And>allowed. allowedMutationTypes request = Some allowed \<Longrightarrow> t \<in> set allowed"
    and "out = bind_outcome (draw_mutation D (overriddenFaultSpace request) t (g\<lparr>gen_rng := r\<rparr>))
      (\<lambda>(newMutation, g'). case newMutation of
         None \<Rightarrow> mutation_gen_loop D request n
           (g'\<lparr>possibleMutationTypes := lpull (lib_names D) (possibleMutationTypes g') t\<rparr>)
       | Some m \<Rightarrow> Returned (NewMutation m, g'))"
proof -
  define types where "types = (case allowedMutationTypes request of None \<Rightarrow> possibleMutationTypes g
      | Some allowed \<Rightarrow> lintersection (lib_names D) (possibleMutationTypes g) allowed)"
  obtain j r where j: "pickone (lib_chance D) (length types) (gen_rng g) = (j, r)" by fastforce
  show thesis
  proof (cases "types = []")
    case True
    with assms none show thesis by (simp add: types_def)
  next
    case False
    note c = chosen_type [OF types_def False j]
    show thesis
      by (rule draw [of "types ! j" r])
        (use c assms j False in \<open>simp_all add: types_def [symmetric] Let_def\<close>)
  qed
qed

lemma valid_rng [simp]:
  "mutation_gen_valid (g\<lparr>gen_rng := r\<rparr>) = mutation_gen_valid g"
  "mutations_left D (g\<lparr>gen_rng := r\<rparr>) = mutations_left D g"
  "mutation_gen_valid (g\<lparr>possibleMutationTypes := ts\<rparr>) = mutation_gen_valid g"
  "mutations_left D (g\<lparr>possibleMutationTypes := ts\<rparr>) = mutations_left D g"
  by (simp_all add: mutation_gen_valid_def mutations_left_def)

lemma mutation_gen_loop_returns:
  "mutation_gen_valid g \<Longrightarrow> length (possibleMutationTypes g) < n \<Longrightarrow>
   mutation_gen_loop D request n g \<noteq> Unfinished"
proof (induction n arbitrary: g)
  case (Suc n)
  show ?case
  proof (cases "possibleMutationTypes g = []")
    case False
    show ?thesis
    proof (rule mutation_gen_round [OF refl False])
      fix t r
      assume t: "t \<in> set (possibleMutationTypes g)"
        and out: "mutation_gen_loop D request (Suc n) g =
          bind_outcome (draw_mutation D (overriddenFaultSpace request) t (g\<lparr>gen_rng := r\<rparr>))
          (\<lambda>(newMutation, g'). case newMutation of
             None \<Rightarrow> mutation_gen_loop D request n
               (g'\<lparr>possibleMutationTypes := lpull (lib_names D) (possibleMutationTypes g') t\<rparr>)
           | Some m \<Rightarrow> Returned (NewMutation m, g'))"
      have v: "mutation_gen_valid (g\<lparr>gen_rng := r\<rparr>)" using Suc.prems(1) by simp
      show "mutation_gen_loop D request (Suc n) g \<noteq> Unfinished"
      proof (cases "draw_mutation D (overriddenFaultSpace request) t (g\<lparr>gen_rng := r\<rparr>)")
        case (Returned z)
        obtain x g' where z: "z = (x, g')" by (cases z)
        have d: "drawn D t (g\<lparr>gen_rng := r\<rparr>) x g'"
          using draw_mutation_drawn [OF v] Returned z by simp
        then have p: "possibleMutationTypes g' = possibleMutationTypes g" "mutation_gen_valid g'"
          by (simp_all add: drawn_def)
        have "mutation_gen_loop D request n
            (g'\<lparr>possibleMutationTypes := lpull (lib_names D) (possibleMutationTypes g') t\<rparr>) \<noteq> Unfinished"
          using p pull_shorter [OF t] Suc.prems(2) by (intro Suc.IH) auto
        with out Returned z show ?thesis by (simp split: option.split)
      next
        case Unfinished
        with draw_mutation_returns [OF v] show ?thesis by blast
      qed (use out in simp)
    qed simp
  qed simp
qed simp

lemma mutation_gen_loop_yields:
  "mutation_gen_valid g \<Longrightarrow> mutation_gen_loop D request n g = Returned (reply, g') \<Longrightarrow>
   mutation_gen_valid g' \<and> set (possibleMutationTypes g') \<subseteq> set (possibleMutationTypes g) \<and>
   (case reply of
      NewMutation m \<Rightarrow> mutations_left D g' < mutations_left D g \<and>
        mutationType m \<in> set (possibleMutationTypes g) \<and>
        (case allowedMutationTypes request of None \<Rightarrow> True | Some allowed \<Rightarrow> mutationType m \<in> set allowed)
    | _ \<Rightarrow> mutations_left D g' \<le> mutations_left D g)"
proof (induction n arbitrary: g)
  case (Suc n)
  show ?case
  proof (cases "possibleMutationTypes g = []")
    case False
    show ?thesis
    proof (rule mutation_gen_round [OF Suc.prems(2) False])
      fix t r
      assume t: "t \<in> set (possibleMutationTypes g)"
        and allowed: "\<And>allowed. allowedMutationTypes request = Some allowed \<Longrightarrow> t \<in> set allowed"
        and out: "Returned (reply, g') =
          bind_outcome (draw_mutation D (overriddenFaultSpace request) t (g\<lparr>gen_rng := r\<rparr>))
          (\<lambda>(newMutation, g'). case newMutation of
             None \<Rightarrow> mutation_gen_loop D request n
               (g'\<lparr>possibleMutationTypes := lpull (lib_names D) (possibleMutationTypes g') t\<rparr>)
           | Some m \<Rightarrow> Returned (NewMutation m, g'))"
      have v: "mutation_gen_valid (g\<lparr>gen_rng := r\<rparr>)" using Suc.prems(1) by simp
      obtain x g1 where d: "draw_mutation D (overriddenFaultSpace request) t (g\<lparr>gen_rng := r\<rparr>) = Returned (x, g1)"
        using sym [OF out] by auto
      have g1: "drawn D t (g\<lparr>gen_rng := r\<rparr>) x g1" by (rule draw_mutation_drawn [OF v d])
      show ?thesis
      proof (cases x)
        case (Some m)
        with out d g1 t allowed show ?thesis by (auto simp: drawn_def split: option.splits)
      next
        case None
        let ?g = "g1\<lparr>possibleMutationTypes := lpull (lib_names D) (possibleMutationTypes g1) t\<rparr>"
        have g: "mutation_gen_valid ?g" "mutations_left D ?g \<le> mutations_left D g"
          "set (possibleMutationTypes ?g) \<subseteq> set (possibleMutationTypes g)"
          using g1 None by (auto simp: drawn_def pull)
        have "mutation_gen_loop D request n ?g = Returned (reply, g')"
          using out d None by simp
        from Suc.IH [OF g(1) this] g(2,3) show ?thesis by (auto split: gen_reply.splits option.splits)
      qed
    qed (use Suc.prems(1) in simp)
  qed (use Suc.prems in auto)
qed simp

lemmas mutation_gen_next_yields = mutation_gen_loop_yields
  [of g request "Suc (length (possibleMutationTypes g))" for g request, folded mutation_gen_next_def]

lemma mutation_gen_next_returns: "mutation_gen_valid g \<Longrightarrow> mutation_gen_next D request g \<noteq> Unfinished"
  unfolding mutation_gen_next_def by (rule mutation_gen_loop_returns) simp_all

text \<open>The parts of a new generator.\<close>

lemma getFaultSpaceInfoNodePair_fst:
  "getFaultSpaceInfoNodePair L ast infos = Inr pairs \<Longrightarrow> map fst pairs = infos"
  by (induction infos arbitrary: pairs)
    (auto simp: getFaultSpaceInfoNodePair_def split: option.splits)

lemma spaces_for_subset: "set (spaces_for t infos) \<subseteq> set (map info_faultSpace infos)"
  by (auto simp: spaces_for_def)

lemma new_mutation_gen_parts:
  assumes "new_mutation_gen D ast infos possible nts rts seed = Returned g"
  obtains space rts' nts' r where "new_RandomASTNodeSpace (lib_nullCopy D) ast = Inr space"
    and "new_insertion_gen D ast (spaces_for ''InsertionM'' infos) space [''ExpressionStatement'']
      = Inr (insertionM_Gen g)"
    and "new_replacement_gen D ast (spaces_for ''ReplacementM'' infos) space rts' nts' = Inr (replacementM_Gen g)"
    and "new_deletion_gen D ast (spaces_for ''DeletionM'' infos) = Inr (deletionM_Gen g)"
    and "new_movement_gen D ast (spaces_for ''MovementM'' infos) True r = Returned (movementM_Gen g, gen_rng g)"
    and "possibleMutationTypes g = possible"
  using assms by (auto simp: new_mutation_gen_def Let_def getFaultSpaceInfoNodePair_fst)

lemma new_mutation_gen_valid:
  assumes "new_mutation_gen D ast infos possible nts rts seed = Returned g" and "complete ast"
    and "[] \<notin> set (map info_faultSpace infos)"
  shows "mutation_gen_valid g" and "possibleMutationTypes g = possible"
proof -
  obtain space rts' nts' r where space: "new_RandomASTNodeSpace (lib_nullCopy D) ast = Inr space"
    and ig: "new_insertion_gen D ast (spaces_for ''InsertionM'' infos) space [''ExpressionStatement'']
      = Inr (insertionM_Gen g)"
    and rg: "new_replacement_gen D ast (spaces_for ''ReplacementM'' infos) space rts' nts' = Inr (replacementM_Gen g)"
    and "new_deletion_gen D ast (spaces_for ''DeletionM'' infos) = Inr (deletionM_Gen g)"
    and mg: "new_movement_gen D ast (spaces_for ''MovementM'' infos) True r = Returned (movementM_Gen g, gen_rng g)"
    and p: "possibleMutationTypes g = possible"
    by (rule new_mutation_gen_parts [OF assms(1)])
  show "possibleMutationTypes g = possible" by (rule p)
  note c = RandomASTNodeSpace_complete(1) [OF nullCopy_ok assms(2) space]
  have "[] \<notin> set (spaces_for ''MovementM'' infos)" using assms(3) spaces_for_subset by blast
  with new_insertion_gen_valid [OF ig c] new_replacement_gen_valid [OF rg c]
    new_movement_gen_valid [OF mg assms(2)]
  show "mutation_gen_valid g" by (simp add: mutation_gen_valid_def)
qed

end

section \<open>The generator of mutations is a random generator\<close>

text \<open>A call with the default request, as a step: the source of randomness is in the state.\<close>

definition mutation_gen_step ::
  "'r libs \<Rightarrow> gen_request \<Rightarrow> 'r mutation_gen \<Rightarrow> unit \<Rightarrow>
   (mutation option \<times> 'r mutation_gen \<times> unit) outcome" where
  "mutation_gen_step D request g u = bind_outcome (mutation_gen_next D request g) (\<lambda>(reply, g').
     Returned (case reply of NewMutation m \<Rightarrow> Some m | _ \<Rightarrow> None, g', u))"

context generator_libs
begin

lemma mutation_gen_step_next:
  assumes "mutation_gen_step D request g u = Returned (x, g', u')"
  obtains reply where "mutation_gen_next D request g = Returned (reply, g')"
    and "x = (case reply of NewMutation m \<Rightarrow> Some m | _ \<Rightarrow> None)"
  using assms by (auto simp: mutation_gen_step_def)

end

sublocale generator_libs \<subseteq> mutations: random_generator "mutation_gen_step D request"
  "mutations_left D" mutation_gen_valid for request
proof
  show "mutation_gen_step D request g r \<noteq> Unfinished" if "mutation_gen_valid g" for g r
    using mutation_gen_next_returns [OF that] by (auto simp: mutation_gen_step_def)
  show "mutation_gen_valid g' \<and> mutations_left D g' < mutations_left D g"
    if "mutation_gen_valid g" "mutation_gen_step D request g r = Returned (Some m, g', r')" for g r m g' r'
    by (rule mutation_gen_step_next [OF that(2)])
      (auto dest!: mutation_gen_next_yields [OF that(1)] split: gen_reply.splits)
  show "mutation_gen_valid g' \<and> mutations_left D g' \<le> mutations_left D g"
    if "mutation_gen_valid g" "mutation_gen_step D request g r = Returned (None, g', r')" for g r g' r'
    by (rule mutation_gen_step_next [OF that(2)])
      (auto dest!: mutation_gen_next_yields [OF that(1)] split: gen_reply.splits)
qed

interpretation mutations_reference: random_generator "mutation_gen_step libs_ref request"
  "mutations_left libs_ref" mutation_gen_valid for request
  by (rule generator_libs_reference.mutations.random_generator_axioms)

end
