(* ===== verification/CleanNodes.thy ===== *)
theory CleanNodes
  imports GeneratorLibs
begin

text \<open>
  New nodes carry no source locations: the recorded nodes have lost them, and no template adds
  any. So a node that is put into a stripped AST leaves it stripped.
\<close>

section \<open>Values without locations\<close>

fun no_loc :: "jsval \<Rightarrow> bool" where
  "no_loc (JGen xs) = list_all no_loc xs"
| "no_loc (JArr xs) = list_all no_loc xs"
| "no_loc (JObj kvs) = list_all (\<lambda>(k, v). k \<notin> {''range'', ''loc''} \<and> no_loc v) kvs"
| "no_loc v = True"

lemma no_loc_strip: "no_loc v \<Longrightarrow> ASTNodeRemoveLocDeep v = v"
proof (induction v rule: ASTNodeRemoveLocDeep.induct)
  case (1 kvs)
  then have "map (\<lambda>(k, v). (k, ASTNodeRemoveLocDeep v)) kvs = kvs"
    by (intro map_idI) (fastforce simp: list_all_iff)
  moreover have "filter (\<lambda>(attr, _). attr \<notin> {''range'', ''loc''}) kvs = kvs"
    using 1 by (auto simp: list_all_iff filter_id_conv)
  ultimately show ?case by simp
next
  case (2 xs)
  then show ?case by (auto simp: list_all_iff intro: map_idI)
qed auto

lemma no_loc_deepOmit: "no_loc n \<Longrightarrow> gen_depth v = 0 \<Longrightarrow> no_loc (deepOmit n v [''loc'', ''range''])"
proof (induction v)
  case (JObj kvs)
  then show ?case using gen_depth_le_iff(2) [of kvs 0]
    by (fastforce simp: list_all_iff snds.simps)
next
  case (JArr xs)
  then show ?case using gen_depth_le_iff(1) [of xs 0]
    by (auto simp: list_all_iff)
qed auto

lemma no_loc_prop: "no_loc v \<Longrightarrow> js_prop v k = Some w \<Longrightarrow> no_loc w"
  by (cases v) (auto simp: list_all_iff split: if_splits option.splits dest!: map_of_SomeD)

lemma instances_no_loc: "no_loc v \<Longrightarrow> u \<in> set (instances v) \<Longrightarrow> no_loc u"
proof (induction v arbitrary: u)
  case (JArr xs)
  then obtain us where u: "u = JArr us" "list_all2 (\<lambda>u x. u \<in> set (instances x)) us xs"
    unfolding instances_elems_iff by blast
  have "no_loc y" if "y \<in> set us" for y
    using list_all2_in_left [OF u(2) that] JArr by (auto simp: list_all_iff)
  with u show ?case by (simp add: list_all_iff)
next
  case (JObj kvs)
  then obtain us where u: "u = JObj (zip (map fst kvs) us)"
      "list_all2 (\<lambda>u kv. u \<in> set (instances (snd kv))) us kvs"
    unfolding instances_props_iff by blast
  have "no_loc y" if "(k, y) \<in> set (zip (map fst kvs) us)" for k y
    using list_all2_in_zip [OF u(2) that] JObj.IH JObj.prems(1)
    by (fastforce simp: list_all_iff snds.simps)
  moreover have "k \<notin> {''range'', ''loc''}" if "(k, y) \<in> set (zip (map fst kvs) us)" for k y
    using JObj.prems(1) set_zip_leftD [OF that] by (auto simp: list_all_iff)
  ultimately show ?case using u by (auto simp: list_all_iff)
qed (auto simp: list_all_iff)

section \<open>The recorded nodes\<close>

definition clean_sets :: "node_sets \<Rightarrow> bool" where
  "clean_sets sets \<longleftrightarrow> (\<forall>(t, nodes) \<in> set sets. \<forall>(n, sc) \<in> set nodes. no_loc n)"

lemma clean_empty_node_sets: "clean_sets empty_node_sets"
  by (auto simp: clean_sets_def empty_node_sets_def)

lemma buildASTNodeSet_clean:
  assumes "no_loc nullCopy" "complete node" "clean_sets sets"
    and "buildASTNodeSet_visitor nullCopy ast node path sets = Inr (sets', c)"
  shows "clean_sets sets'"
proof -
  have "no_loc (recRemoveLocInfo nullCopy node)"
    using no_loc_deepOmit [OF assms(1)] assms(2) by (simp add: recRemoveLocInfo_def complete_def)
  with assms(3,4) show ?thesis
    by (fastforce simp: buildASTNodeSet_visitor_def clean_sets_def
        split: option.splits jsval.splits dest!: in_set_update map_of_SomeD)
qed

lemma RandomASTNodeSpace_clean:
  assumes "no_loc nullCopy" "complete ast" "new_RandomASTNodeSpace nullCopy ast = Inr S"
  shows "clean_sets (ASTNodeMapSet S)"
proof -
  from assms(3) obtain sets where
    v: "visitWithPath (buildASTNodeSet_visitor nullCopy ast) (\<lambda>_ _ s. Inr s) ast [] empty_node_sets = Inr sets"
    and S: "S = \<lparr>ASTNodeMapSet = sets, seeded = False\<rparr>"
    by (auto simp: new_RandomASTNodeSpace_def)
  have "clean_sets sets"
    by (rule visit_invariant [where Q = complete and P = clean_sets, OF _ _ _ _ assms(2)
          clean_empty_node_sets v])
      (auto intro: buildASTNodeSet_clean [OF assms(1)])
  with S show ?thesis by simp
qed

lemma reusable_clean:
  assumes "clean_sets sets" "getReusableNodeSet sets t sc = Inr ns"
  shows "list_all no_loc ns"
proof -
  have "no_loc n" if n: "n \<in> set ns" for n
  proof -
    obtain ms where "getPredefinedASTNodeSet sets t sc = Inr ms" "n \<in> set ms"
      using assms(2) n by (auto simp: getReusableNodeSet_def filter_result_set split: if_splits)
    with assms(1) show ?thesis
      by (fastforce simp: getPredefinedASTNodeSet_def clean_sets_def dest!: map_of_SomeD split: option.splits)
  qed
  then show ?thesis by (simp add: list_all_iff)
qed

lemma props_clean: "list_all no_loc ns \<Longrightarrow> list_all no_loc (props_of k ns)"
  by (auto simp: props_of_def List.map_filter_def list_all_iff intro: no_loc_prop)

lemma strings_clean [simp]: "no_loc (gen_strings ss)"
  by (auto simp: gen_strings_def list_all_iff)

section \<open>Templates\<close>

lemma FunctionCall_clean: "clean_sets sets \<Longrightarrow> FunctionCall_space sets ctx = Inr v \<Longrightarrow> no_loc v"
  by (auto simp: FunctionCall_space_def intro!: props_clean dest: reusable_clean)

lemma BinaryOperation_clean: "clean_sets sets \<Longrightarrow> BinaryOperation_space sets ctx = Inr v \<Longrightarrow> no_loc v"
  by (auto simp: BinaryOperation_space_def intro!: props_clean dest: reusable_clean)

lemma NumberLiteral_clean: "clean_sets sets \<Longrightarrow> NumberLiteral_space sets ctx = Inr v \<Longrightarrow> no_loc v"
  by (auto simp: NumberLiteral_space_def intro!: props_clean dest: reusable_clean)

lemma Identifiers_clean:
  "clean_sets sets \<Longrightarrow> Identifier_nodes sets ctx = Inr (Some ids) \<Longrightarrow> list_all no_loc ids"
  by (auto simp: Identifier_nodes_def dest: reusable_clean split: option.splits)

lemma set_child_clean:
  assumes "no_loc v" and "no_loc w" and "k \<notin> {''range'', ''loc''}"
  shows "no_loc (set_child v k w)"
proof (cases v)
  case (JObj kvs)
  with assms show ?thesis using set_update_subset [of k w kvs] by (fastforce simp: list_all_iff)
qed (use assms in \<open>auto simp: list_all_set_child split: option.split\<close>)

lemma Assignment_clean:
  assumes "clean_sets sets" and "AssignmentOperation_space sets ctx = Inr (Some v)"
  shows "no_loc v"
proof -
  obtain ids b where ids: "Identifier_nodes sets ctx = Inr (Some ids)"
    and b: "BinaryOperation_space sets ctx = Inr b"
    and v: "v = JGen [set_child (set_child b ''left'' (JGen ids)) ''operator'' (gen_strings [''=''])]"
    using assms(2) by (auto simp: AssignmentOperation_space_def split: option.splits)
  from Identifiers_clean [OF assms(1) ids] BinaryOperation_clean [OF assms(1) b] show ?thesis
    by (simp add: v set_child_clean)
qed

lemma ExpressionStatement_clean:
  assumes "clean_sets sets" and "ExpressionStatement_space sets ctx = Inr v"
  shows "no_loc v"
proof -
  obtain bo call ss where bo: "AssignmentOperation_space sets ctx = Inr bo"
    and call: "FunctionCall_space sets ctx = Inr call"
    and ss: "getReusableNodeSet sets ''ExpressionStatement'' (ctx_scope ctx) = Inr ss"
    and v: "v = JObj [(''type'', JStr ''ExpressionStatement''),
       (''expression'', JGen ((case bo of None \<Rightarrow> [] | Some b \<Rightarrow> [b]) @ [call] @ props_of ''expression'' ss))]"
    using assms(2) by (auto simp: ExpressionStatement_space_def BinaryOperationStatement_space_def)
  from bo Assignment_clean [OF assms(1)] FunctionCall_clean [OF assms(1) call] reusable_clean [OF assms(1) ss]
  show ?thesis
    by (auto simp: v props_clean split: option.split)
qed

lemma node_space_clean:
  assumes "clean_sets (ASTNodeMapSet S)" and "node_space S t ctx = Some (Inr (Some v))" and "\<not> seeded S"
  shows "no_loc v"
  using assms(2,3)
  by (auto simp: node_space_def ASTNodeSpace_method_def UnaryOperation_space_def
      Conditional_space_def BooleanLiteral_space_def
      split: if_splits intro: ExpressionStatement_clean [OF assms(1)] FunctionCall_clean [OF assms(1)]
        NumberLiteral_clean [OF assms(1)] BinaryOperation_clean [OF assms(1)] Identifiers_clean [OF assms(1)])

section \<open>What a random space yields\<close>

text \<open>A node that may be put into a stripped AST.\<close>

definition good_node :: "jsval \<Rightarrow> bool" where
  "good_node n \<longleftrightarrow> isASTNode (Some n) \<and> complete n \<and> ASTNodeRemoveLocDeep n = n"

text \<open>What the copy of null is made of is the library's; it is not an object with locations.\<close>

locale clean_libs = generator_libs +
  assumes nullCopy_clean: "no_loc (lib_nullCopy D)"
begin

lemma generated_good_nodes:
  assumes "complete ast" "new_RandomASTNodeSpace (lib_nullCopy D) ast = Inr S"
    and "getASTNodeGenerator (lib_lodash D) (lib_chance D) S t ctx seed = Returned ys" and "t \<noteq> ''Identifier''"
  shows "list_all good_node ys"
proof -
  note S = RandomASTNodeSpace_complete [OF nullCopy_ok assms(1,2)]
  obtain v where v: "node_space S t ctx = Some (Inr (Some v))" "mset ys = mset (instances v)"
    by (rule generator_Returned [OF S(1) assms(3)])
  have c: "no_loc v"
    by (rule node_space_clean [OF RandomASTNodeSpace_clean [OF nullCopy_clean assms(1,2)] v(1) S(2)])
  have "good_node n" if n: "n \<in> set ys" for n
  proof -
    have "n \<in> set (instances v)" using n v(2) by (metis set_mset_mset)
    with instances_no_loc [OF c] generated_nodes [OF nullCopy_ok assms n] show ?thesis
      by (simp add: good_node_def no_loc_strip)
  qed
  then show ?thesis by (simp add: list_all_iff)
qed

end

interpretation clean_libs_reference: clean_libs libs_ref
  by unfold_locales (simp add: libs_ref_def)

lemma clean_libs_ref: "clean_libs libs_ref"
  by (rule clean_libs_reference.clean_libs_axioms)

end
