(* ===== verification/BarePaths.thy ===== *)
theory BarePaths
  imports CleanNodes MovementM
begin

text \<open>
  The stripped copy of an AST and the paths into it: which paths lead to the same node in both,
  and how an edit of the AST is one of the copy. The generator works on copies without
  locations and tokens, and its sequences are applied to the AST of the parser.
\<close>

section \<open>Paths in complete values\<close>

lemma complete_wf_val: "complete v \<Longrightarrow> wf_val v"
  by (induction v rule: wf_val.induct) (auto simp: list_all_iff)

lemma complete_child: "complete v \<Longrightarrow> child v k = Some w \<Longrightarrow> complete w \<and> canonical_key k"
  by (cases v) (auto simp: arr_idx_Some_iff split: option.splits if_splits dest!: map_of_SomeD)

lemma complete_cwalk: "complete v \<Longrightarrow> cwalk v p = Some w \<Longrightarrow> complete w \<and> canonical_path p"
  by (induction v p rule: cwalk.induct) (auto split: option.splits dest: complete_child)

lemma complete_update:
  assumes "complete (JObj kvs)" and "map_of kvs k \<noteq> None" and "complete w"
  shows "complete (JObj (AList.update k w kvs))"
  using assms set_update_subset [of k w kvs] complete_child [of "JObj kvs" k]
  by (fastforce simp: distinct_update)

lemma complete_put: "complete v \<Longrightarrow> complete w \<Longrightarrow> complete (put v p w)"
proof (induction v p w rule: put.induct)
  case (2 v k ks w)
  show ?case
  proof (cases "child v k")
    case (Some c)
    with 2 have c: "complete (put c ks w)" using complete_child by blast
    show ?thesis
    proof (cases v)
      case (JObj kvs)
      then have "complete (JObj (AList.update k (put c ks w) kvs))"
        using 2(2) c Some by (intro complete_update) auto
      then show ?thesis using JObj Some by (simp del: complete_simps)
    qed (use 2(2) c Some in \<open>auto split: option.splits dest!: subsetD [OF set_update_subset_insert]\<close>)
  qed (use 2 in simp)
qed simp

section \<open>Paths into the stripped copy\<close>

text \<open>The root loses its tokens, everything below it its ranges and locations. These are the
  paths that are left; a plain path moreover does not enter the location of the root.\<close>

fun bare_path :: "path \<Rightarrow> bool" where
  "bare_path [] = True"
| "bare_path (k # p) = (k \<noteq> ''tokens'' \<and> loc_free p)"

lemma plain_bare: "plain_path p \<Longrightarrow> bare_path p"
  by (cases p) auto

lemma cwalk_stripped:
  "bare_path p \<Longrightarrow> p \<noteq> [] \<Longrightarrow>
   cwalk (ASTNodeRemoveExtraAttributesDeep v) p = map_option ASTNodeRemoveLocDeep (cwalk v p)"
  by (cases p) (auto simp: child_remove_extra cwalk_remove_loc split: option.splits)

text \<open>In a stripped AST all paths are such.\<close>

lemma no_key_name: "arr_idx ''range'' = None" "arr_idx ''loc'' = None" "arr_idx ''tokens'' = None"
  by code_simp+

lemma child_RemoveLoc_dropped:
  "k \<in> {''range'', ''loc''} \<Longrightarrow> child (ASTNodeRemoveLocDeep v) k = None"
  using no_key_name by (cases v) (auto simp: map_of_eq_None_iff)

lemma child_stripped_tokens: "child (ASTNodeRemoveExtraAttributesDeep v) ''tokens'' = None"
  using no_key_name
  by (cases v) (auto simp: ASTNodeRemoveExtraAttributesDeep_def map_of_eq_None_iff)

lemma path_of_RemoveLoc:
  "ASTNodeRemoveLocDeep v = v \<Longrightarrow> cwalk v p = Some w \<Longrightarrow> loc_free p \<and> ASTNodeRemoveLocDeep w = w"
proof (induction p arbitrary: v)
  case (Cons k p)
  obtain c where c: "child v k = Some c" "cwalk c p = Some w"
    using Cons.prems(2) by (auto split: option.splits)
  have k: "k \<notin> {''range'', ''loc''}"
    using child_RemoveLoc_dropped [of k v] c(1) Cons.prems(1) by auto
  with child_remove_loc [OF k, of v] c(1) Cons.prems(1) have "ASTNodeRemoveLocDeep c = c" by simp
  with Cons.IH [of c] c(2) k show ?case by simp
qed simp

lemma path_of_stripped:
  assumes "ASTNodeRemoveExtraAttributesDeep v = v" and "cwalk v p = Some w"
  shows "bare_path p" and "p \<noteq> [] \<Longrightarrow> ASTNodeRemoveLocDeep w = w"
proof -
  have "bare_path p \<and> (p \<noteq> [] \<longrightarrow> ASTNodeRemoveLocDeep w = w)"
  proof (cases p)
    case (Cons k q)
    obtain c where c: "child v k = Some c" "cwalk c q = Some w"
      using assms(2) Cons by (auto split: option.splits)
    have k: "k \<noteq> ''tokens''" using child_stripped_tokens [of v] c(1) assms(1) by auto
    with child_remove_extra [OF k, of v] c(1) assms(1) have "ASTNodeRemoveLocDeep c = c" by simp
    with path_of_RemoveLoc [of c q w] c(2) k Cons show ?thesis by simp
  qed simp
  then show "bare_path p" and "p \<noteq> [] \<Longrightarrow> ASTNodeRemoveLocDeep w = w" by auto
qed

lemma isASTNode_remove_loc [simp]: "isASTNode (Some (ASTNodeRemoveLocDeep v)) = isASTNode (Some v)"
  by (cases v) (auto simp: map_of_filter_key map_of_map_values split: option.splits)

lemma complete_remove_loc: "complete v \<Longrightarrow> complete (ASTNodeRemoveLocDeep v)"
proof (induction v rule: ASTNodeRemoveLocDeep.induct)
  case (1 kvs)
  have "distinct (map fst (filter (\<lambda>(k, v). k \<notin> {''range'', ''loc''}) (map (\<lambda>(k, v). (k, ASTNodeRemoveLocDeep v)) kvs)))"
    using 1 by (simp add: distinct_map_filter comp_def case_prod_unfold)
  with 1 show ?case by fastforce
qed auto

section \<open>Edits of the stripped copy\<close>

lemma strip_update:
  "k \<notin> X \<Longrightarrow> filter (\<lambda>(k, _). k \<notin> X) (map (\<lambda>(k, v). (k, f v)) (AList.update k w kvs))
   = AList.update k (f w) (filter (\<lambda>(k, _). k \<notin> X) (map (\<lambda>(k, v). (k, f v)) kvs))"
  by (induction kvs) auto

lemma RemoveLoc_set_child:
  assumes "k \<notin> {''range'', ''loc''}"
  shows "ASTNodeRemoveLocDeep (set_child v k w) = set_child (ASTNodeRemoveLocDeep v) k (ASTNodeRemoveLocDeep w)"
proof (cases v)
  case (JObj kvs)
  then show ?thesis using strip_update [OF assms, of ASTNodeRemoveLocDeep w kvs] by simp
qed (auto simp: map_update split: option.split)

lemma RemoveLoc_put:
  "loc_free p \<Longrightarrow> ASTNodeRemoveLocDeep (put v p w) = put (ASTNodeRemoveLocDeep v) p (ASTNodeRemoveLocDeep w)"
  by (induction p arbitrary: v)
    (auto simp: child_remove_loc RemoveLoc_set_child split: option.splits)

lemma stripped_obj:
  "ASTNodeRemoveExtraAttributesDeep (JObj kvs) =
   JObj (filter (\<lambda>(k, _). k \<notin> {''tokens''}) (map (\<lambda>(k, v). (k, ASTNodeRemoveLocDeep v)) kvs))"
  by (simp add: ASTNodeRemoveExtraAttributesDeep_def filter_map comp_def case_prod_unfold)

lemma stripped_set_child:
  assumes "k \<noteq> ''tokens''"
  shows "ASTNodeRemoveExtraAttributesDeep (set_child v k w)
    = set_child (ASTNodeRemoveExtraAttributesDeep v) k (ASTNodeRemoveLocDeep w)"
proof (cases v)
  case (JObj kvs)
  then show ?thesis using strip_update [of k "{''tokens''}" ASTNodeRemoveLocDeep w kvs] assms
    by (simp add: stripped_obj del: ASTNodeRemoveAttrsDeep.simps)
qed (auto simp: ASTNodeRemoveExtraAttributesDeep_def map_update split: option.split)

lemma stripped_put:
  assumes "bare_path p" and "p \<noteq> []"
  shows "ASTNodeRemoveExtraAttributesDeep (put v p w)
    = put (ASTNodeRemoveExtraAttributesDeep v) p (ASTNodeRemoveLocDeep w)"
proof -
  obtain k q where p: "p = k # q" "k \<noteq> ''tokens''" "loc_free q" using assms by (cases p) auto
  then show ?thesis
    using child_remove_extra [OF p(2), of v] stripped_set_child [OF p(2), of v] RemoveLoc_put [OF p(3)]
    by (auto split: option.split)
qed

text \<open>So an edit at such a path, with a value without locations, leaves a stripped AST stripped.\<close>

lemma put_stays_stripped:
  "ASTNodeRemoveExtraAttributesDeep v = v \<Longrightarrow> bare_path p \<Longrightarrow> p \<noteq> [] \<Longrightarrow> ASTNodeRemoveLocDeep w = w \<Longrightarrow>
   ASTNodeRemoveExtraAttributesDeep (put v p w) = put v p w"
  by (simp add: stripped_put)

end
