(* ===== verification/SoundEdits.thy ===== *)
theory SoundEdits
  imports BarePaths Mutations
begin

text \<open>
  Sound edits: mutations that fit the AST and put complete nodes without locations into it, at
  places that exist in its stripped copy. They keep the AST complete, and an edit of the
  stripped copy is one of the AST itself.
\<close>

section \<open>Sound mutations\<close>

text \<open>The nodes a mutation puts into the AST, and whether a moved node lands in the stripped
  copy.\<close>

fun new_nodes :: "mutation \<Rightarrow> jsval list" where
  "new_nodes (Insertion m) = [newNode m]"
| "new_nodes (Replacement m) = [rep_newNode m]"
| "new_nodes (Deletion m) = []"
| "new_nodes (Movement m) = [newNode (sndMutation m)]"

fun lands_plain :: "mutation \<Rightarrow> bool" where
  "lands_plain (Movement m) = plain_path (targetPropertyPath (sndMutation m))"
| "lands_plain m = True"

text \<open>A movement is refused on other programs than the one it was made for.\<close>

fun accepted_on :: "lodash \<Rightarrow> jsval \<Rightarrow> mutation \<Rightarrow> bool" where
  "accepted_on L ast (Movement m) = functional_equal L ast (mov_ast m)"
| "accepted_on L ast m = True"

definition sound_mutation :: "mutation \<Rightarrow> bool" where
  "sound_mutation m \<longleftrightarrow> list_all good_node (new_nodes m) \<and> lands_plain m"

section \<open>What they keep\<close>

context lodash_lib
begin

lemma InsertionM_complete:
  assumes "InsertionM_applicable m ast" and "complete ast" and "complete (newNode m)"
    and "InsertionM_apply L m ast = Inr ast'"
  shows "complete ast'"
proof -
  from assms(1) obtain xs i where t: "targetPropertyPath m \<noteq> []"
    "cwalk ast (targetPropertyPath m) = Some (JArr xs)" "insertIndex m = Fin (int i)" "i \<le> length xs"
    by (rule InsertionM_applicableE)
  have "complete (JArr xs)" using complete_cwalk [OF assms(2) t(2)] by blast
  then have "complete (put ast (targetPropertyPath m) (JArr (take i xs @ newNode m # drop i xs)))"
    using assms(3) by (intro complete_put [OF assms(2)]) (auto dest: in_set_takeD in_set_dropD)
  with assms(4) InsertionM_apply_eq [OF lodash_lib_axioms t] show ?thesis by simp
qed

lemma DeletionM_complete:
  assumes "DeletionM_applicable m ast" and "complete ast" and "DeletionM_apply L m ast = Inr ast'"
  shows "complete ast'"
  using assms(1)
proof (cases rule: DeletionM_applicableE)
  case (elem d i xs)
  have "complete (JArr xs)" using complete_cwalk [OF assms(2) elem(3)] by blast
  then have "complete (put ast d (JArr (take i xs @ drop (Suc i) xs)))"
    by (intro complete_put [OF assms(2)]) (auto dest: in_set_takeD in_set_dropD)
  with assms(3) DeletionM_apply_elem [OF elem] show ?thesis by simp
next
  case (field d k kvs)
  have "complete (JObj kvs)" using complete_cwalk [OF assms(2) field(4)] by blast
  then have "complete (del_child (JObj kvs) k)"
    by (auto simp: AList.delete_eq distinct_map_filter)
  then have "complete (put ast d (del_child (JObj kvs) k))"
    by (rule complete_put [OF assms(2)])
  with assms(3) DeletionM_apply_prop [OF field(1,2,4,5)] show ?thesis by simp
qed

lemma sound_edit_complete:
  assumes "applicable L m ast" and "sound_mutation m" and "complete ast" and "apply_mutation L m ast = Inr ast'"
  shows "complete ast'"
proof (cases m)
  case (Insertion i)
  with assms InsertionM_complete [of i ast ast'] show ?thesis by (simp add: sound_mutation_def good_node_def)
next
  case (Replacement r)
  with assms ReplacementM_apply_eq [of r ast] complete_put [OF assms(3)] show ?thesis
    by (auto simp: sound_mutation_def good_node_def)
next
  case (Deletion d)
  with assms DeletionM_complete [of d ast ast'] show ?thesis by simp
next
  case (Movement mv)
  then have "MovementM_applicable L mv ast" using assms(1) by simp
  then obtain ast1 where d: "DeletionM_applicable (fstMutation mv) ast"
    "DeletionM_apply L (fstMutation mv) ast = Inr ast1" "InsertionM_applicable (sndMutation mv) ast1"
    by (rule MovementM_applicableE)
  then have "InsertionM_apply L (sndMutation mv) ast1 = Inr ast'"
    using assms(4) Movement by (auto simp: MovementM_apply_def)
  with d DeletionM_complete [OF d(1) assms(3) d(2)] InsertionM_complete [OF d(3)] assms(2) Movement show ?thesis
    by (simp add: sound_mutation_def good_node_def)
qed

end

section \<open>Paths\<close>

lemma plain_number: "js_toString n \<notin> {''range'', ''loc'', ''tokens''}"
proof (cases n)
  case (Fin z)
  have "js_parseInt ''range'' = NaN" "js_parseInt ''loc'' = NaN" "js_parseInt ''tokens'' = NaN"
    by code_simp+
  moreover have "js_parseInt (js_toString n) = Fin z" by (simp add: Fin)
  ultimately show ?thesis by force
qed simp_all

lemma loc_free_index: "loc_free p \<Longrightarrow> loc_free (p[n := js_toString z])"
  using plain_number [of z] set_update_subset_insert [of p n "js_toString z"]
  by (auto simp: loc_free_def list_all_iff)

lemma plain_path_index: "plain_path p \<Longrightarrow> plain_path (p[n := js_toString z])"
  using loc_free_index [of p n z] plain_number [of z]
  by (cases p; cases n) (auto simp: plain_path_def)

lemma insertion_location_plain:
  "targetPropertyPath m \<noteq> [] \<Longrightarrow> plain_path (targetPropertyPath m) \<Longrightarrow> plain_path (insertion_location m)"
  using plain_number [of "insertIndex m"] by (auto simp: insertion_location_def plain_path_append)

lemma InsertionM_update_plain: "plain_path p \<Longrightarrow> plain_path (InsertionM_updateASTPath m p)"
  by (auto simp: InsertionM_updateASTPath_def Let_def plain_path_index)

lemma DeletionM_update_plain: "plain_path p \<Longrightarrow> DeletionM_updateASTPath L m ast p = Some q \<Longrightarrow> plain_path q"
  by (auto simp: DeletionM_updateASTPath_def Let_def plain_path_index split: if_splits option.splits jsval.splits)

context lodash_lib
begin

lemma updateASTPath_plain:
  assumes "applicable L m ast" and "lands_plain m" and "plain_path p" and "updateASTPath L m ast p = Some q"
  shows "plain_path q"
proof (cases m)
  case (Insertion i)
  with assms InsertionM_update_plain [of p i] show ?thesis by simp
next
  case (Replacement r)
  with assms show ?thesis by (auto simp: ReplacementM_updateASTPath_def split: if_splits)
next
  case (Deletion d)
  with assms DeletionM_update_plain show ?thesis by simp
next
  case (Movement mv)
  with assms(1) obtain ast1 where "InsertionM_applicable (sndMutation mv) ast1"
    by (auto elim: MovementM_applicableE)
  then have "plain_path (insertion_location (sndMutation mv))"
    using assms(2) Movement by (intro insertion_location_plain) (auto elim: InsertionM_applicableE)
  with assms Movement DeletionM_update_plain [OF assms(3)] InsertionM_update_plain show ?thesis
    by (auto simp: MovementM_updateASTPath_def split: option.splits if_splits)
qed

lemma InsertionM_update_length: "length (InsertionM_updateASTPath m p) = length p"
  by (simp add: InsertionM_updateASTPath_def Let_def)

lemma DeletionM_update_length:
  "DeletionM_updateASTPath L m ast q = Some q' \<Longrightarrow> length q' = length q"
  by (auto simp: DeletionM_updateASTPath_def Let_def split: if_splits option.splits jsval.splits)

lemma updateASTPath_long:
  assumes "applicable L m ast" and "2 \<le> length p" and "updateASTPath L m ast p = Some q"
  shows "2 \<le> length q"
proof (cases m)
  case (Insertion i)
  with assms InsertionM_update_length [of i p] show ?thesis by auto
next
  case (Replacement r)
  with assms show ?thesis by (auto simp: ReplacementM_updateASTPath_def split: if_splits)
next
  case (Deletion d)
  with assms DeletionM_update_length [of d ast p q] show ?thesis by simp
next
  case (Movement mv)
  with assms(1) obtain ast1 where "InsertionM_applicable (sndMutation mv) ast1"
    by (auto elim: MovementM_applicableE)
  then have "2 \<le> length (insertion_location (sndMutation mv))"
    by (auto elim!: InsertionM_applicableE simp: insertion_location_def Suc_le_eq)
  with assms Movement DeletionM_update_length [of "fstMutation mv" ast p] show ?thesis
    by (auto simp: MovementM_updateASTPath_def InsertionM_update_length split: option.splits if_splits)
qed

end

section \<open>An edit of the stripped copy is one of the AST\<close>

lemma stripped_array:
  assumes "cwalk (ASTNodeRemoveExtraAttributesDeep a) p = Some (JArr ys)" and "p \<noteq> []"
  shows "bare_path p" and "\<exists>xs. cwalk a p = Some (JArr xs) \<and> ys = map ASTNodeRemoveLocDeep xs"
proof -
  show b: "bare_path p" by (rule path_of_stripped(1) [OF remove_extra_idem assms(1)])
  obtain v where "cwalk a p = Some v" "ASTNodeRemoveLocDeep v = JArr ys"
    using assms cwalk_stripped [OF b assms(2), of a] by auto
  then show "\<exists>xs. cwalk a p = Some (JArr xs) \<and> ys = map ASTNodeRemoveLocDeep xs" by (cases v) auto
qed

lemma stripped_object:
  assumes "cwalk (ASTNodeRemoveExtraAttributesDeep a) p = Some (JObj lvs)" and "p \<noteq> []"
  shows "bare_path p" and "\<exists>kvs. cwalk a p = Some (JObj kvs) \<and> JObj lvs = ASTNodeRemoveLocDeep (JObj kvs)"
proof -
  show b: "bare_path p" by (rule path_of_stripped(1) [OF remove_extra_idem assms(1)])
  obtain v where "cwalk a p = Some v" "ASTNodeRemoveLocDeep v = JObj lvs"
    using assms cwalk_stripped [OF b assms(2), of a] by auto
  then show "\<exists>kvs. cwalk a p = Some (JObj kvs) \<and> JObj lvs = ASTNodeRemoveLocDeep (JObj kvs)" by (cases v) auto
qed

lemma RemoveLoc_del_child:
  "ASTNodeRemoveLocDeep (del_child v k) = del_child (ASTNodeRemoveLocDeep v) k"
proof (cases v)
  case (JObj kvs)
  then show ?thesis by (simp add: AList.delete_eq filter_map comp_def case_prod_unfold conj_commute)
qed simp_all

context lodash_lib
begin

lemma InsertionM_lifts:
  assumes "InsertionM_applicable m (ASTNodeRemoveExtraAttributesDeep a)"
    and "InsertionM_apply L m (ASTNodeRemoveExtraAttributesDeep a) = Inr k'"
    and "ASTNodeRemoveLocDeep (newNode m) = newNode m"
  shows "InsertionM_applicable m a \<and> (\<exists>a'. InsertionM_apply L m a = Inr a' \<and> ASTNodeRemoveExtraAttributesDeep a' = k')"
proof -
  from assms(1) obtain ys i where t: "targetPropertyPath m \<noteq> []"
    "cwalk (ASTNodeRemoveExtraAttributesDeep a) (targetPropertyPath m) = Some (JArr ys)"
    "insertIndex m = Fin (int i)" "i \<le> length ys"
    by (rule InsertionM_applicableE)
  obtain xs where xs: "cwalk a (targetPropertyPath m) = Some (JArr xs)" "ys = map ASTNodeRemoveLocDeep xs"
    using stripped_array(2) [OF t(2,1)] by blast
  have i: "i \<le> length xs" using t(4) xs(2) by simp
  note up = InsertionM_apply_eq [OF lodash_lib_axioms t(1) xs(1) t(3) i]
    and down = InsertionM_apply_eq [OF lodash_lib_axioms t]
  have "InsertionM_applicable m a" using t xs i by (simp add: InsertionM_applicable_def)
  with up down assms(2,3) show ?thesis
    by (simp add: stripped_put [OF stripped_array(1) [OF t(2,1)] t(1)] xs(2) take_map drop_map)
qed

lemma DeletionM_lifts:
  assumes "DeletionM_applicable m (ASTNodeRemoveExtraAttributesDeep a)"
    and "DeletionM_apply L m (ASTNodeRemoveExtraAttributesDeep a) = Inr k'"
  shows "DeletionM_applicable m a \<and> (\<exists>a'. DeletionM_apply L m a = Inr a' \<and> ASTNodeRemoveExtraAttributesDeep a' = k')"
  using assms(1)
proof (cases rule: DeletionM_applicableE)
  case (elem d i ys)
  obtain xs where xs: "cwalk a d = Some (JArr xs)" "ys = map ASTNodeRemoveLocDeep xs"
    using stripped_array(2) [OF elem(3,2)] by blast
  have i: "i < length xs" using elem(4) xs(2) by simp
  note up = DeletionM_apply_elem [OF elem(1,2) xs(1) i] and down = DeletionM_apply_elem [OF elem]
  have "DeletionM_applicable m a"
    using assms(1) elem xs i by (auto simp: DeletionM_applicable_def Let_def cwalk_append)
  with up down assms(2) show ?thesis
    by (simp add: stripped_put [OF stripped_array(1) [OF elem(3,2)] elem(2)] xs(2) take_map drop_map)
next
  case (field d k lvs)
  obtain kvs where kvs: "cwalk a d = Some (JObj kvs)" "JObj lvs = ASTNodeRemoveLocDeep (JObj kvs)"
    using stripped_object(2) [OF field(4,2)] by blast
  have k: "map_of kvs k \<noteq> None"
  proof
    assume "map_of kvs k = None"
    then have "map_of lvs k = None" using kvs(2) by (auto simp: map_of_filter_key map_of_map_values)
    with field(5) show False by simp
  qed
  note up = DeletionM_apply_prop [OF field(1,2) kvs(1) k] and down = DeletionM_apply_prop [OF field(1,2,4,5)]
  have "DeletionM_applicable m a"
    using assms(1) field kvs k by (auto simp: DeletionM_applicable_def Let_def cwalk_append)
  moreover have "ASTNodeRemoveLocDeep (del_child (JObj kvs) k) = del_child (JObj lvs) k"
    by (simp only: RemoveLoc_del_child kvs(2))
  ultimately show ?thesis using up down assms(2)
    by (simp add: stripped_put [OF stripped_object(1) [OF field(4,2)] field(2)] del: del_child.simps)
qed

lemma sound_mutation_lifts:
  assumes "applicable L m (ASTNodeRemoveExtraAttributesDeep a)" and "sound_mutation m"
    and "apply_mutation L m (ASTNodeRemoveExtraAttributesDeep a) = Inr k'"
    and "accepted_on L a m"
  shows "applicable L m a \<and> (\<exists>a'. apply_mutation L m a = Inr a' \<and> ASTNodeRemoveExtraAttributesDeep a' = k')"
proof (cases m)
  case (Insertion i)
  with assms InsertionM_lifts [of i a k'] show ?thesis by (simp add: sound_mutation_def good_node_def)
next
  case (Replacement r)
  let ?t = "rep_targetNodePath r"
  have r: "ReplacementM_applicable r (ASTNodeRemoveExtraAttributesDeep a)" using assms(1) Replacement by simp
  then obtain w where t: "?t \<noteq> []" "cwalk (ASTNodeRemoveExtraAttributesDeep a) ?t = Some w" "isASTNode (Some w)"
    by (cases "cwalk (ASTNodeRemoveExtraAttributesDeep a) ?t") (auto simp: ReplacementM_applicable_def)
  have b: "bare_path ?t" by (rule path_of_stripped(1) [OF remove_extra_idem t(2)])
  with t have "isASTNode (cwalk a ?t)" by (auto simp: cwalk_stripped)
  then have ra: "ReplacementM_applicable r a" using r by (simp add: ReplacementM_applicable_def)
  have "ASTNodeRemoveLocDeep (rep_newNode r) = rep_newNode r"
    using assms(2) Replacement by (simp add: sound_mutation_def good_node_def)
  with ra r assms(3) Replacement show ?thesis
    by (simp add: ReplacementM_apply_eq stripped_put [OF b t(1)])
next
  case (Deletion d)
  with assms DeletionM_lifts [of d a k'] show ?thesis by simp
next
  case (Movement mv)
  let ?k = "ASTNodeRemoveExtraAttributesDeep a"
  have mv: "MovementM_applicable L mv ?k" using assms(1) Movement by simp
  then obtain k1 where d: "DeletionM_applicable (fstMutation mv) ?k" "DeletionM_apply L (fstMutation mv) ?k = Inr k1"
    and i: "InsertionM_applicable (sndMutation mv) k1"
    by (rule MovementM_applicableE)
  have ik: "InsertionM_apply L (sndMutation mv) k1 = Inr k'"
    using assms(3) d(2) Movement by (auto simp: MovementM_apply_def)
  obtain a1 where a1: "DeletionM_applicable (fstMutation mv) a" "DeletionM_apply L (fstMutation mv) a = Inr a1"
    "ASTNodeRemoveExtraAttributesDeep a1 = k1"
    using DeletionM_lifts [OF d] by blast
  have "ASTNodeRemoveLocDeep (newNode (sndMutation mv)) = newNode (sndMutation mv)"
    using assms(2) Movement by (simp add: sound_mutation_def good_node_def)
  with InsertionM_lifts [of "sndMutation mv" a1 k'] i ik a1(3) obtain a' where
    a': "InsertionM_applicable (sndMutation mv) a1" "InsertionM_apply L (sndMutation mv) a1 = Inr a'"
      "ASTNodeRemoveExtraAttributesDeep a' = k'" by auto
  have "functional_equal L a (mov_ast mv)" using assms(4) Movement by simp
  with a1 a' mv Movement show ?thesis
    by (auto simp: MovementM_applicable_def MovementM_apply_def)
qed

end

end
