(* ===== verification/DrawnNodes.thy ===== *)
theory DrawnNodes
  imports MutationGen SoundEdits
begin

text \<open>
  What the four generators of mutations keep in stock: the places, paths and nodes from which a
  mutation is built, as made for the AST and as left by every draw. The nodes are complete, so
  that the mutated AST is complete again.
\<close>

section \<open>New nodes\<close>

text \<open>All nodes an insertion generator holds or can make satisfy a predicate.\<close>

definition insertion_nodes :: "'r libs \<Rightarrow> (jsval \<Rightarrow> bool) \<Rightarrow> insertion_gen \<Rightarrow> bool" where
  "insertion_nodes D Q g \<longleftrightarrow>
     (\<forall>t \<in> set (insertionNewNodeTypeSpace g). \<forall>ctx s ys.
        getASTNodeGenerator (lib_lodash D) (lib_chance D) (ig_astNodeSpace g) t ctx s = Returned ys \<longrightarrow> list_all Q ys) \<and>
     (\<forall>(k, ns) \<in> set (insertionNewNodeGens g). list_all Q ns)"

definition replacement_nodes :: "'r libs \<Rightarrow> (jsval \<Rightarrow> bool) \<Rightarrow> replacement_gen \<Rightarrow> bool" where
  "replacement_nodes D Q g \<longleftrightarrow>
     (\<forall>e \<in> set (supportedReplaceableNodes g). \<forall>t \<in> set (rn_newNodeTypes e). \<forall>ctx s ys.
        getASTNodeGenerator (lib_lodash D) (lib_chance D) (rg_astNodeSpace g) t ctx s = Returned ys \<longrightarrow> list_all Q ys) \<and>
     (\<forall>(k, ns) \<in> set (chosenNodeNewNodeGen g). list_all Q ns)"

text \<open>A place keeps the fault space it was found in.\<close>

definition place_in :: "jsval \<Rightarrow> path list \<Rightarrow> insertable_place \<Rightarrow> bool" where
  "place_in ast fss p \<longleftrightarrow> place_of ast p \<and> fromFaultSpace p \<in> set fss \<and>
     butlast (propertyPath p) = fromFaultSpace p"

context generator_libs
begin

lemma insertion_node_gen_nodes:
  assumes "insertion_nodes D Q g" and "t \<in> set (insertionNewNodeTypeSpace g)"
    and "insertion_node_gen D g s t p = Returned nodes"
  shows "list_all Q nodes"
  using assms by (fastforce simp: insertion_nodes_def insertion_node_gen_def split: option.splits dest!: map_of_SomeD)

lemma insertion_nodes_update:
  assumes "insertion_nodes D Q g" and "list_all Q rest"
    and "set types \<subseteq> set (insertionNewNodeTypeSpace g)"
  shows "insertion_nodes D Q (g\<lparr>insertionNewNodeGens := AList.update k rest (insertionNewNodeGens g),
      insertionNewNodeTypeSpace := types\<rparr>)"
    and "insertion_nodes D Q (g\<lparr>insertionNewNodeGens := AList.update k rest (insertionNewNodeGens g)\<rparr>)"
  using assms by (fastforce simp: insertion_nodes_def dest!: in_set_update)+

lemma insertion_loop_nodes:
  "insertion_nodes D Q g \<Longrightarrow> insertion_valid g \<Longrightarrow> insertion_loop D n g r = Returned (x, g', r') \<Longrightarrow>
   insertion_nodes D Q g' \<and> (\<forall>m. x = Some m \<longrightarrow> Q (newNode m))"
proof (induction n arbitrary: g r)
  case (Suc n)
  show ?case
  proof (cases "insertableSpaces g = [] \<or> insertionNewNodeTypeSpace g = []")
    case True
    with Suc.prems show ?thesis by auto
  next
    case False
    obtain i r1 where i: "weighted (lib_chance D) (map weigh (insertableSpaces g)) r = (i, r1)" by fastforce
    obtain j r2 where j: "pickone (lib_chance D) (length (insertionNewNodeTypeSpace g)) r1 = (j, r2)" by fastforce
    let ?t = "insertionNewNodeTypeSpace g ! j" and ?p = "insertableSpaces g ! i"
    have t: "?t \<in> set (insertionNewNodeTypeSpace g)"
      using insertion_choice [OF Suc.prems(2) _ _ i j] False by simp
    obtain nodes where nodes: "insertion_node_gen D g (Some (chance_seed (lib_chance D) r2)) ?t ?p = Returned nodes"
      using Suc.prems(3) False i j by (auto simp: Let_def)
    have q: "list_all Q nodes" by (rule insertion_node_gen_nodes [OF Suc.prems(1) t nodes])
    show ?thesis
    proof (cases nodes)
      case Nil
      let ?g = "g\<lparr>insertionNewNodeGens := AList.update (?t, ?p) [] (insertionNewNodeGens g),
        insertionNewNodeTypeSpace := lpull (lib_names D) (insertionNewNodeTypeSpace g) ?t\<rparr>"
      have v: "insertion_valid ?g" using Suc.prems(2) by (simp add: insertion_valid_def)
      have "insertion_loop D n ?g r2 = Returned (x, g', r')"
        using Suc.prems(3) False i j nodes Nil by (simp add: Let_def)
      then show ?thesis
        by (intro Suc.IH [OF insertion_nodes_update(1) [OF Suc.prems(1)] v]) (auto simp: pull)
    next
      case (Cons newNd rest)
      with Suc.prems(3) False i j nodes q insertion_nodes_update(2) [OF Suc.prems(1)]
      show ?thesis by (auto simp: Let_def)
    qed
  qed
qed simp

lemmas insertion_next_nodes = insertion_loop_nodes [of Q g "Suc (length (insertionNewNodeTypeSpace g))"
    for Q g, folded insertion_next_def]

lemma narrowed_insertion_nodes:
  "narrowed (insertion_updateFaultSpace D) override g = Inr g' \<Longrightarrow> insertion_nodes D Q g' = insertion_nodes D Q g"
  by (auto simp: narrowed_def insertion_nodes_def split: option.splits)

lemma replacement_node_gen_nodes:
  assumes "replacement_nodes D Q g" and "e \<in> set (supportedReplaceableNodes g)" and "t \<in> set (rn_newNodeTypes e)"
    and "replacement_node_gen D g s e t = Returned nodes"
  shows "list_all Q nodes"
  using assms by (fastforce simp: replacement_nodes_def replacement_node_gen_def split: option.splits dest!: map_of_SomeD)

lemma give_up_mem:
  assumes "i < length nodes" and "e \<in> set (give_up nodes i types)"
  shows "e \<in> set nodes \<or> (\<exists>e' \<in> set nodes. e' = nodes ! i \<and> e = e'\<lparr>rn_newNodeTypes := types\<rparr>)"
  using assms
  by (auto simp: give_up_def splice_remove_in_range split: if_splits
      dest: in_set_takeD in_set_dropD dest!: subsetD [OF set_update_subset_insert])

lemma replacement_nodes_give_up:
  assumes "replacement_nodes D Q g" and "i < length (supportedReplaceableNodes g)"
    and "set types \<subseteq> set (rn_newNodeTypes (supportedReplaceableNodes g ! i))"
  shows "replacement_nodes D Q (g\<lparr>chosenNodeNewNodeGen := AList.update k [] (chosenNodeNewNodeGen g),
      supportedReplaceableNodes := give_up (supportedReplaceableNodes g) i types\<rparr>)"
  using assms unfolding replacement_nodes_def
  by (fastforce dest!: in_set_update give_up_mem [OF assms(2)])

lemma replacement_nodes_draw:
  "replacement_nodes D Q g \<Longrightarrow> list_all Q rest \<Longrightarrow>
   replacement_nodes D Q (g\<lparr>chosenNodeNewNodeGen := AList.update k rest (chosenNodeNewNodeGen g)\<rparr>)"
  by (fastforce simp: replacement_nodes_def dest!: in_set_update)

lemma replacement_loop_nodes:
  "replacement_nodes D Q g \<Longrightarrow> replacement_loop D n g r = Returned (x, g', r') \<Longrightarrow>
   replacement_nodes D Q g' \<and> (\<forall>m. x = Some m \<longrightarrow> Q (rep_newNode m))"
proof (induction n arbitrary: g r)
  case (Suc n)
  let ?nodes = "supportedReplaceableNodes g"
  show ?case
  proof (cases "?nodes = []")
    case True
    with Suc.prems show ?thesis by auto
  next
    case False
    obtain i r1 where i: "weighted (lib_chance D) (ones ?nodes) r = (i, r1)" by fastforce
    let ?e = "?nodes ! i"
    obtain j r2 where j: "pickone (lib_chance D) (length (rn_newNodeTypes ?e)) r1 = (j, r2)" by fastforce
    let ?t = "rn_newNodeTypes ?e ! j"
    obtain s r3 where s: "replacement_seed D g ?e ?t r2 = (s, r3)" by fastforce
    have il: "i < length ?nodes" by (rule replacement_choice [OF False i])
    have ne: "rn_newNodeTypes ?e \<noteq> []" using Suc.prems(2) False i by (auto simp: Let_def)
    have t: "?t \<in> set (rn_newNodeTypes ?e)" by (rule type_choice [OF ne j])
    obtain nodes where nodes: "replacement_node_gen D g s ?e ?t = Returned nodes"
      using Suc.prems(2) False i j s by (auto simp: Let_def)
    have q: "list_all Q nodes"
      by (rule replacement_node_gen_nodes [OF Suc.prems(1) nth_mem [OF il] t nodes])
    show ?thesis
    proof (cases nodes)
      case Nil
      let ?g = "g\<lparr>chosenNodeNewNodeGen := AList.update (rn_faultSpace ?e, ?t) [] (chosenNodeNewNodeGen g),
        supportedReplaceableNodes := give_up ?nodes i (lpull (lib_names D) (rn_newNodeTypes ?e) ?t)\<rparr>"
      have "replacement_loop D n ?g r3 = Returned (x, g', r')"
        using Suc.prems(2) False i j s nodes Nil ne by (simp add: Let_def)
      then show ?thesis
        by (intro Suc.IH [OF replacement_nodes_give_up [OF Suc.prems(1) il]]) (auto simp: pull)
    next
      case (Cons newNd rest)
      with Suc.prems(2) False i j s nodes ne q replacement_nodes_draw [OF Suc.prems(1)]
      show ?thesis by (auto simp: Let_def)
    qed
  qed
qed simp

lemmas replacement_next_nodes = replacement_loop_nodes [of Q g "Suc (types_left g)" for Q g,
    folded replacement_next_def]

section \<open>The places\<close>

lemma insertable_places_in:
  assumes "insertable_places (lib_lodash D) ast fss = Inr ps" and "wf_val ast"
    and "[] \<notin> set fss" and "p \<in> set ps"
  shows "place_in ast fss p"
proof -
  obtain pairs props where pairs: "getFaultSpaceNodePair (lib_lodash D) ast fss = Inr pairs"
    and props: "map_result (insertable_properties ast) pairs = Inr props"
    and ps: "ps = concat (map property_places (concat props))"
    using assms(1) by (auto simp: insertable_places_def)
  from ps assms(4) obtain qs q where q: "qs \<in> set props" "q \<in> set qs" "p \<in> set (property_places q)"
    by auto
  then obtain fs node where fn: "(fs, node) \<in> set pairs" "insertable_properties ast (fs, node) = Inr qs"
    using map_result_mem [OF props q(1)] by auto
  then have "fs \<in> set fss"
    using map_result_mem [OF pairs [unfolded getFaultSpaceNodePair_def], of "(fs, node)"]
    by (auto split: option.splits)
  moreover have "fromFaultSpace p = fs \<and> butlast (propertyPath p) = fs"
    using fn(2) q(2,3) map_result_mem
    by (fastforce simp: insertable_properties_def property_places_def Let_def split: if_splits)
  ultimately show ?thesis
    using insertable_places_of_ast [OF assms] by (simp add: place_in_def)
qed

lemma new_insertion_gen_in:
  assumes "new_insertion_gen D ast fss S types = Inr g" and "wf_val ast" and "[] \<notin> set fss"
    and "p \<in> set (insertableSpaces g)"
  shows "place_in ast fss p"
proof -
  obtain ps where ps: "insertable_places (lib_lodash D) ast fss = Inr ps"
    "set (insertableSpaces g) \<subseteq> set ps" "ig_forAST g = ast" "ig_astNodeSpace g = S"
    "insertionNewNodeTypeSpace g = types" "insertionNewNodeGens g = []"
    by (rule new_insertion_gen_spaces [OF assms(1)])
  show ?thesis using ps(2) assms(4) by (intro insertable_places_in [OF ps(1) assms(2,3)]) blast
qed

end

section \<open>Good nodes\<close>

context clean_libs
begin

text \<open>A new generator of a complete AST draws good nodes only.\<close>

lemma new_insertion_gen_nodes:
  assumes "new_insertion_gen D ast fss S types = Inr g" and "complete ast"
    and "new_RandomASTNodeSpace (lib_nullCopy D) ast = Inr S" and "''Identifier'' \<notin> set types"
  shows "insertion_nodes D good_node g"
proof -
  obtain ps where "insertable_places (lib_lodash D) ast fss = Inr ps"
    "set (insertableSpaces g) \<subseteq> set ps" "ig_forAST g = ast" "ig_astNodeSpace g = S"
    "insertionNewNodeTypeSpace g = types" "insertionNewNodeGens g = []"
    by (rule new_insertion_gen_spaces [OF assms(1)])
  moreover have "t \<noteq> ''Identifier''" if "t \<in> set types" for t using assms(4) that by blast
  ultimately show ?thesis
    using generated_good_nodes [OF assms(2,3)] by (auto simp: insertion_nodes_def)
qed

lemma new_replacement_gen_nodes:
  assumes "new_replacement_gen D ast fss S rts nts = Inr g" and "complete ast" and "[] \<notin> set fss"
    and "new_RandomASTNodeSpace (lib_nullCopy D) ast = Inr S" and "''Identifier'' \<notin> set nts"
  shows "replacement_nodes D good_node g"
proof -
  obtain pairs es where "getFaultSpaceNodePair (lib_lodash D) ast fss = Inr pairs"
    and "map_result (replaceable_entry \<lparr>rg_forAST = ast, rg_astNodeSpace = S, replaceNodeType = rts,
      newNodeTypeSpace = nts, supportedReplaceableNodes = [], chosenNodeNewNodeGen = []\<rparr>) pairs = Inr es"
    and "supportedReplaceableNodes g = uniq_with (\<lambda>a b. rn_faultSpace a = rn_faultSpace b) [] (keep_entries es)"
    and g: "rg_astNodeSpace g = S" "chosenNodeNewNodeGen g = []"
    by (rule new_replacement_gen_entries [OF assms(1)])
  have "rn_newNodeTypes e = nts" if "e \<in> set (supportedReplaceableNodes g)" for e
    using new_replacement_gen_targets [OF assms(1,3) that] by blast
  moreover have "t \<noteq> ''Identifier''" if "t \<in> set nts" for t using assms(5) that by blast
  ultimately show ?thesis
    using g generated_good_nodes [OF assms(2,4)] by (auto simp: replacement_nodes_def)
qed

end

end
