(* ===== verification/DrawnMoves.thy ===== *)
theory DrawnMoves
  imports DrawnNodes
begin

text \<open>
  The movements a generator offers: each pair in stock is a deletion that fits the AST, with
  insertions that fit what the deletion leaves, and the movement made of them fits the AST.
\<close>

section \<open>A movement made of a deletion and an insertion\<close>

context lodash_lib
begin

lemma idx_key_not_type: "idx_key i \<noteq> ''type''"
proof
  assume "idx_key i = ''type''"
  then have "js_parseInt ''type'' = Fin (int i)" by (metis js_parseInt_show_int)
  then show False by (simp add: js_parseInt_def is_space_def parse_digits_def digit_val_def)
qed

lemma cwalk_isASTNode_walk: "isASTNode (cwalk v p) \<Longrightarrow> walk v p = cwalk v p"
  by (cases "cwalk v p") (auto dest: cwalk_walk)

text \<open>A path that exists after the deletion of an array element is not moved by tracking it back
  and forth, and its last component stays an index.\<close>

lemma deletion_forth_and_back:
  assumes "del_targetNodePath m = d @ [idx_key i]" "d \<noteq> []" "cwalk ast d = Some (JArr xs)"
    and "canonical_path (p @ [show_int n])"
  shows "\<exists>p' n'. DeletionM_reverseUpdateASTPath L m ast (p @ [show_int n]) = Some (p' @ [show_int n']) \<and>
    DeletionM_updateASTPath L m ast (p' @ [show_int n']) = Some (p @ [show_int n])"
proof -
  note paths = DeletionM_paths_elem [OF assms(1-3)]
  show ?thesis
    using assms(4)
  proof (cases "p @ [show_int n]" rule: path_below_cases [where p = d])
    case (index z r)
    let ?z = "if int i < z + 1 then z + 1 else z"
    have rev: "DeletionM_reverseUpdateASTPath L m ast (p @ [show_int n]) = Some (d @ show_int ?z # r)"
      and up: "DeletionM_updateASTPath L m ast (d @ show_int ?z # r) = Some (p @ [show_int n])"
      by (auto simp: index paths)
    show ?thesis
    proof (cases r rule: rev_cases)
      case Nil
      with rev up show ?thesis by (metis append_Cons append_Nil)
    next
      case (snoc r' k)
      with index have "k = show_int n" by simp
      with rev up snoc show ?thesis by (metis append_Cons append_assoc)
    qed
  next
    case (other k r)
    then have "DeletionM_reverseUpdateASTPath L m ast (p @ [show_int n]) = Some (p @ [show_int n])"
      "DeletionM_updateASTPath L m ast (p @ [show_int n]) = Some (p @ [show_int n])"
      by (simp_all only: paths)
    then show ?thesis by blast
  next
    case elsewhere
    then show ?thesis by (auto simp: paths)
  qed
qed

lemma fromMutation_applicable:
  assumes at: "del_targetNodePath d = p @ [idx_key i]" "p \<noteq> []" "cwalk ast p = Some (JArr xs)" "i < length xs"
    and node: "isASTNode (Some (xs ! i))" and stripped: "ASTNodeRemoveExtraAttributesDeep ast = ast"
    and ast1: "DeletionM_apply L d ast = Inr ast1" and ins: "InsertionM_applicable ins ast1"
    and canonical: "canonical_path (targetPropertyPath ins)"
    and mov: "MovementM_fromMutation L ast d ins = Inr mov"
  shows "MovementM_applicable L mov ast \<and> fromNodePath mov = del_targetNodePath d \<and>
    newNode (sndMutation mov) = ASTNodeRemoveLocDeep (xs ! i) \<and> mov_ast mov = ast \<and>
    targetPropertyPath (sndMutation mov) = targetPropertyPath ins \<and> isInteger (mov_insertIndex mov) \<and>
    new_MovementM L ast (fromNodePath mov) (toPropertyPath mov) (mov_insertIndex mov) = Inr mov"
proof -
  from ins obtain ys n where t: "targetPropertyPath ins \<noteq> []"
    "cwalk ast1 (targetPropertyPath ins) = Some (JArr ys)" "insertIndex ins = Fin (int n)" "n \<le> length ys"
    by (rule InsertionM_applicableE)
  have loc: "insertion_location ins = targetPropertyPath ins @ [show_int (int n)]"
    by (simp add: insertion_location_def t(3))
  then have "canonical_path (targetPropertyPath ins @ [show_int (int n)])" using canonical by simp
  then obtain p' n' where r: "DeletionM_reverseUpdateASTPath L d ast (insertion_location ins) = Some (p' @ [show_int n'])"
    and u: "DeletionM_updateASTPath L d ast (p' @ [show_int n']) = Some (insertion_location ins)"
    using deletion_forth_and_back [OF at(1-3)] unfolding loc by blast
  have at': "cwalk ast (p @ [idx_key i]) = Some (xs ! i)" using at by (simp add: cwalk_append)
  then have "DeletionM_applicable d ast"
    using at idx_key_not_type by (auto simp: DeletionM_applicable_def Suc_le_eq)
  have new: "new_MovementM L ast (del_targetNodePath d) p' (Fin n') = Inr mov"
    using mov r by (simp add: MovementM_fromMutation_def parseInt_last_def)
  from new obtain node target where n: "getASTNodeFromPath L ast (del_targetNodePath d) = Some node"
    and tgt: "DeletionM_updateASTPath L \<lparr>del_targetNodePath = del_targetNodePath d\<rparr> ast (p' @ [js_toString (Fin n')]) = Some target"
    and m: "mov = \<lparr>mov_ast = ast, fromNodePath = del_targetNodePath d,
       toPropertyPath = p', mov_insertIndex = Fin n',
       fstMutation = \<lparr>del_targetNodePath = del_targetNodePath d\<rparr>,
       sndMutation = \<lparr>targetPropertyPath = butlast target,
         insertIndex = parseInt_last target, newNode = ASTNodeRemoveLocDeep node\<rparr>\<rparr>"
    by (rule new_MovementM_fields) (simp add: stripped)
  have d: "\<lparr>del_targetNodePath = del_targetNodePath d\<rparr> = d" by (cases d) simp
  have "target = insertion_location ins" using tgt u by (simp add: d)
  moreover have "node = xs ! i"
    using n at' node at by (simp add: getASTNodeFromPath_def get_path cwalk_isASTNode_walk)
  ultimately show ?thesis
    using \<open>DeletionM_applicable d ast\<close> node ast1 ins canonical t(3)
    using new by (simp add: m d loc MovementM_applicable_def parseInt_last_def InsertionM_applicable_def
        isInteger_def)
qed

end

section \<open>The stock of a movement generator\<close>

text \<open>A pair: a deletion of a node in an array, in the fault spaces, and insertions that go to
  places of the AST without the node, at plain paths.\<close>

definition movable :: "lodash \<Rightarrow> jsval \<Rightarrow> path list \<Rightarrow> deletionM \<Rightarrow> insertion_gen \<Rightarrow> bool" where
  "movable L ast fss d ig \<longleftrightarrow> del_targetNodePath d \<in> set fss \<and> plain_path (del_targetNodePath d) \<and>
     (\<exists>p i xs ast1. del_targetNodePath d = p @ [idx_key i] \<and> p \<noteq> [] \<and> cwalk ast p = Some (JArr xs) \<and>
        i < length xs \<and> isASTNode (Some (xs ! i)) \<and> DeletionM_apply L d ast = Inr ast1 \<and>
        list_all (\<lambda>x. place_of ast1 x \<and> plain_path (propertyPath x)) (insertableSpaces ig))"

definition movement_stock :: "lodash \<Rightarrow> jsval \<Rightarrow> path list \<Rightarrow> movement_gen \<Rightarrow> bool" where
  "movement_stock L ast fss g \<longleftrightarrow> mg_ast g = ast \<and>
     (\<forall>(d, ig) \<in> set (pair_deletionMInsertionMutationGen g). movable L ast fss d ig)"

lemma movable_mono:
  "movable L ast fss d ig \<Longrightarrow> set (insertableSpaces ig') \<subseteq> set (insertableSpaces ig) \<Longrightarrow>
   movable L ast fss d ig'"
  unfolding movable_def list_all_iff by blast

text \<open>What is said of a movement offered for an AST.\<close>

definition movement_fits :: "lodash \<Rightarrow> jsval \<Rightarrow> path list \<Rightarrow> movementM \<Rightarrow> bool" where
  "movement_fits L ast fss m \<longleftrightarrow> MovementM_applicable L m ast \<and> fromNodePath m \<in> set fss \<and>
     mov_ast m = ast \<and> sound_mutation (Movement m) \<and> isASTNode (cwalk ast (fromNodePath m)) \<and>
     plain_path (fromNodePath m) \<and> isInteger (mov_insertIndex m) \<and>
     new_MovementM L ast (fromNodePath m) (toPropertyPath m) (mov_insertIndex m) = Inr m"

lemma good_node_remove_loc: "complete v \<Longrightarrow> isASTNode (Some v) \<Longrightarrow> good_node (ASTNodeRemoveLocDeep v)"
  by (simp add: good_node_def complete_remove_loc)

context generator_libs
begin

lemma movement_of_pair:
  assumes "movable (lib_lodash D) ast fss d ig" and "complete ast"
    and "ASTNodeRemoveExtraAttributesDeep ast = ast"
    and "p \<in> set (insertableSpaces ig)" and "targetPropertyPath ins = propertyPath p"
    and "insertIndex ins = Fin (int (place_index p))"
    and "MovementM_fromMutation (lib_lodash D) ast d ins = Inr mov"
  shows "movement_fits (lib_lodash D) ast fss mov"
proof -
  obtain q i xs ast1 where t: "del_targetNodePath d = q @ [idx_key i]" "q \<noteq> []" "cwalk ast q = Some (JArr xs)"
      "i < length xs" "isASTNode (Some (xs ! i))"
    and ast1: "DeletionM_apply (lib_lodash D) d ast = Inr ast1"
      "list_all (\<lambda>x. place_of ast1 x \<and> plain_path (propertyPath x)) (insertableSpaces ig)"
    and mem: "del_targetNodePath d \<in> set fss" "plain_path (del_targetNodePath d)"
    using assms(1) by (auto simp: movable_def)
  have xs: "complete (JArr xs)" using complete_cwalk [OF assms(2) t(3)] by blast
  have "ast1 = put ast q (JArr (take i xs @ drop (Suc i) xs))"
    using ast1(1) DeletionM_apply_elem [OF t(1-4)] by simp
  moreover have "complete (put ast q (JArr (take i xs @ drop (Suc i) xs)))"
    using xs by (intro complete_put [OF assms(2)]) (auto dest: in_set_takeD in_set_dropD)
  ultimately have c1: "complete ast1" by simp
  have place: "place_of ast1 p" "plain_path (propertyPath p)" using ast1(2) assms(4) by (simp_all add: list_all_iff)
  have ins: "InsertionM_applicable ins ast1" by (rule place_insertion_applicable [OF place(1) assms(5,6)])
  have "canonical_path (targetPropertyPath ins)" "plain_path (targetPropertyPath ins)"
    using place complete_cwalk [OF c1] assms(5) by (auto simp: place_of_def)
  with fromMutation_applicable [OF t assms(3) ast1(1) ins _ assms(7)] mem xs t(4,5)
  show ?thesis using t(1,3) by (auto simp: movement_fits_def sound_mutation_def good_node_remove_loc cwalk_append)
qed

lemma movement_stock_removed:
  assumes "movement_stock L ast fss g" and "i < length (pair_deletionMInsertionMutationGen g)"
  shows "movement_stock L ast fss (g\<lparr>pair_deletionMInsertionMutationGen :=
      splice_remove (pair_deletionMInsertionMutationGen g) (Fin (int i))\<rparr>)"
  using assms by (auto simp: movement_stock_def splice_remove_in_range dest: in_set_takeD in_set_dropD)

lemma movement_stock_drawn:
  assumes "movement_stock L ast fss g" and "i < length (pair_deletionMInsertionMutationGen g)"
    and "pair_deletionMInsertionMutationGen g ! i = (m, ig)"
    and "set (insertableSpaces ig') \<subseteq> set (insertableSpaces ig)"
  shows "movement_stock L ast fss (g\<lparr>pair_deletionMInsertionMutationGen :=
      (pair_deletionMInsertionMutationGen g)[i := (m, ig')]\<rparr>)"
proof -
  have "(m, ig) \<in> set (pair_deletionMInsertionMutationGen g)"
    using nth_mem [OF assms(2)] assms(3) by simp
  then have "movable L ast fss m ig'"
    using assms(1) movable_mono [OF _ assms(4)] by (auto simp: movement_stock_def)
  with assms(1) show ?thesis
    by (auto simp: movement_stock_def dest!: subsetD [OF set_update_subset_insert])
qed

lemma movement_loop_fits:
  assumes "complete ast" and "ASTNodeRemoveExtraAttributesDeep ast = ast"
  shows "movement_stock (lib_lodash D) ast fss g \<Longrightarrow> movement_valid g \<Longrightarrow>
    movement_loop D n g r = Returned (x, g', r') \<Longrightarrow>
    movement_stock (lib_lodash D) ast fss g' \<and> (\<forall>m. x = Some m \<longrightarrow> movement_fits (lib_lodash D) ast fss m)"
proof (induction n arbitrary: g r)
  case (Suc n)
  let ?pairs = "pair_deletionMInsertionMutationGen g"
  show ?case
  proof (cases "?pairs = []")
    case True
    with Suc.prems show ?thesis by auto
  next
    case False
    obtain z r1 where z: "integer_between (lib_chance D) 0 (int (length ?pairs) - 1) r = (z, r1)" by fastforce
    note zl = movement_choice [OF False z]
    obtain m ig where mi: "?pairs ! nat z = (m, ig)" by fastforce
    have v: "insertion_valid ig" and mov: "movable (lib_lodash D) ast fss m ig"
      using Suc.prems(1,2) mi nth_mem [OF zl(1)] by (auto simp: movement_valid_def movement_stock_def)
    obtain y ig' r2 where t: "insertion_next D ig r1 = Returned (y, ig', r2)"
      using Suc.prems(3) False z mi by (auto simp: Let_def)
    note yields = insertion_next_yields [OF v t]
    show ?thesis
    proof (cases y)
      case None
      let ?g = "g\<lparr>pair_deletionMInsertionMutationGen := splice_remove ?pairs (Fin z)\<rparr>"
      have "movement_stock (lib_lodash D) ast fss ?g" "movement_valid ?g"
        using movement_stock_removed [OF Suc.prems(1) zl(1)] movement_valid_removed [OF Suc.prems(2) zl(1)] zl(2)
        by simp_all
      moreover have "movement_loop D n ?g r2 = Returned (x, g', r')"
        using Suc.prems(3) False z mi t None by (simp add: Let_def)
      ultimately show ?thesis by (rule Suc.IH)
    next
      case (Some ins)
      let ?g = "g\<lparr>pair_deletionMInsertionMutationGen := ?pairs[nat z := (m, ig')]\<rparr>"
      have g: "movement_stock (lib_lodash D) ast fss ?g" "movement_valid ?g"
        using movement_stock_drawn [OF Suc.prems(1) zl(1) mi] movement_valid_drawn [OF Suc.prems(2)] yields
        by simp_all
      show ?thesis
      proof (cases "lequal (lib_lodash D) (del_targetNodePath m) (insertion_location ins)")
        case True
        then have "movement_loop D n ?g r2 = Returned (x, g', r')"
          using Suc.prems(3) False z mi t Some by (simp add: Let_def)
        with g show ?thesis by (rule Suc.IH)
      next
        case neq: False
        obtain mv where mv: "MovementM_fromMutation (lib_lodash D) (mg_ast g) m ins = Inr mv" "x = Some mv" "g' = ?g"
          using Suc.prems(3) False z mi t Some neq by (auto simp: Let_def)
        obtain p where p: "p \<in> set (insertableSpaces ig)" "targetPropertyPath ins = propertyPath p"
          "insertIndex ins = Fin (int (place_index p))"
          using yields Some by auto
        have "mg_ast g = ast" using Suc.prems(1) by (simp add: movement_stock_def)
        with movement_of_pair [OF mov assms p] mv g show ?thesis by simp
      qed
    qed
  qed
qed simp

lemmas movement_next_fits = movement_loop_fits
  [of ast fss g "Suc (movements_left D g + length (pair_deletionMInsertionMutationGen g))" for ast fss g,
    folded movement_next_def]

lemma update_pairs_mem:
  assumes "map_result (update_pair D (Intersect fss)) xs = Inr ys" and "(m, ig') \<in> set ys"
  obtains ig where "(m, ig) \<in> set xs" "set (insertableSpaces ig') \<subseteq> set (insertableSpaces ig)"
proof -
  from map_result_mem [OF assms] obtain ig where "(m, ig) \<in> set xs"
    "insertion_updateFaultSpace D (Intersect fss) ig = Inr ig'"
    by (auto simp del: insertion_updateFaultSpace.simps)
  with insertion_update_narrows [of fss ig ig'] that show thesis by blast
qed

lemma movement_update_stock:
  assumes "movement_updateFaultSpace D (Intersect fss') g r = Returned (g', r')"
    and "movement_stock L ast fss g"
  shows "movement_stock L ast fss g'"
proof -
  obtain f ys where ys: "map_result (update_pair D (Intersect fss'))
      (filter f (pair_deletionMInsertionMutationGen g)) = Inr ys"
    and g': "g' = g\<lparr>pair_deletionMInsertionMutationGen := ys\<rparr>"
    using assms(1) by (auto simp: lodash_arrays.remove [OF pairs_ok])
  have "movable L ast fss m ig'" if mem: "(m, ig') \<in> set ys" for m ig'
  proof -
    obtain ig where "(m, ig) \<in> set (filter f (pair_deletionMInsertionMutationGen g))"
      "set (insertableSpaces ig') \<subseteq> set (insertableSpaces ig)"
      by (rule update_pairs_mem [OF ys mem])
    with assms(2) movable_mono show ?thesis by (auto simp: movement_stock_def)
  qed
  with assms(2) g' show ?thesis by (auto simp: movement_stock_def)
qed


text \<open>A deletable path, as an index of an array.\<close>

lemma deletable_element:
  assumes "deletableFaultSpace (lib_lodash D) ast fss (Some types) = Inr ds" and "t \<in> set ds"
    and "2 \<le> length t" and "complete ast"
  obtains p i xs where "t = p @ [idx_key i]" "p \<noteq> []" "cwalk ast p = Some (JArr xs)" "i < length xs"
    "list_ex (has_type (xs ! i)) types"
proof -
  note f = deletableFaultSpace_fits [OF lodash_ok assms(1-3)]
  then obtain xs node where w: "cwalk ast (butlast t) = Some (JArr xs)" "cwalk ast t = Some node"
    "list_ex (has_type node) types" by blast
  have t: "t = butlast t @ [last t]" "butlast t \<noteq> []" using assms(3) by (cases t rule: rev_cases; auto)+
  then have "cwalk ast (butlast t @ [last t]) = Some node" using w(2) by simp
  then have c: "child (JArr xs) (last t) = Some node" 
    using w(1) by (cases "child (JArr xs) (last t)") (simp_all add: cwalk_append del: child.simps)
  then obtain i where i: "arr_idx (last t) = Some i" by (cases "arr_idx (last t)") auto
  with c have "last t = idx_key i" "i < length xs" "xs ! i = node"
    by (simp_all add: arr_idx_Some_iff split: if_splits)
  with that [of "butlast t" i xs] w t show thesis by metis
qed

lemma movement_faultSpaces_subset:
  "movement_faultSpaces ast same fss m = Inr fss' \<Longrightarrow> set fss' \<subseteq> set fss"
  by (auto simp: movement_faultSpaces_def filter_result_set split: if_splits)

lemma place_in_plain:
  assumes "place_in ast fss x" and "ASTNodeRemoveExtraAttributesDeep ast = ast"
    and "fromFaultSpace x \<noteq> []" and "plain_path (fromFaultSpace x)"
  shows "plain_path (propertyPath x)"
proof -
  obtain k where p: "propertyPath x = fromFaultSpace x @ [k]"
    using assms(1) by (metis append_butlast_last_id place_in_def place_of_def)
  have "bare_path (propertyPath x)"
    using assms(1) path_of_stripped(1) [OF assms(2)] by (auto simp: place_in_def place_of_def)
  with assms(3,4) show ?thesis unfolding p by (cases "fromFaultSpace x") (auto simp: plain_path_append)
qed

lemma new_movement_gen_stock:
  assumes "new_movement_gen D ast fss same r = Returned (g, r')" and "complete ast"
    and stripped: "ASTNodeRemoveExtraAttributesDeep ast = ast"
    and fss: "\<forall>p \<in> set fss. 2 \<le> length p \<and> plain_path p"
  shows "movement_stock (lib_lodash D) ast fss g"
proof -
  obtain dg ms dg' r1 pairs where dg: "new_deletion_gen D ast fss = Inr dg"
    and ms: "drain (deletion_next D) (Suc (length (deletableSpace dg))) dg r = Returned (ms, dg', r1)"
    and p: "map_result (movement_pair D \<lparr>mg_ast = ast, onlySameFunction = same,
        pair_deletionMInsertionMutationGen = []\<rparr> fss) ms = Inr pairs"
    and g: "g = \<lparr>mg_ast = ast, onlySameFunction = same,
        pair_deletionMInsertionMutationGen = lunionWith (lib_pairs D) [] pairs (=)\<rparr>"
    using assms(1) by (auto simp: new_movement_gen_def simp del: drain.simps)
  obtain ds where ds: "deletableFaultSpace (lib_lodash D) ast fss (Some deletableNodeTypes) = Inr ds"
    "set (deletableSpace dg) = set ds" "distinct (deletableSpace dg)" "dg_forAST dg = ast"
    by (rule new_deletion_gen_space [OF dg])
  have "movable (lib_lodash D) ast fss m ig" if mi: "(m, ig) \<in> set pairs" for m ig
  proof -
    obtain m' where m': "m' \<in> set ms" and pair: "movement_pair D \<lparr>mg_ast = ast, onlySameFunction = same,
        pair_deletionMInsertionMutationGen = []\<rparr> fss m' = Inr (m, ig)"
      using map_result_mem [OF p mi] by auto
    then have m: "m' = m" by (auto simp: movement_pair_def Let_def split: option.splits)
    obtain fss' ast1 space where ast1: "DeletionM_apply (lib_lodash D) m ast = Inr ast1"
      and ig: "new_insertion_gen D ast1 (List.map_filter (DeletionM_updateASTPath (lib_lodash D) m ast) fss') space
        [''ExpressionStatement''] = Inr ig"
      and fss': "movement_faultSpaces ast same fss m = Inr fss'"
      using pair m by (auto simp: movement_pair_def Let_def split: option.splits)
    let ?t = "del_targetNodePath m"
    have mem: "?t \<in> set ds"
      using deletion_drain_mset [OF ms] ds(2) m m' by (metis image_eqI set_map set_mset_mset)
    then have t: "?t \<in> set fss" "2 \<le> length ?t" "plain_path ?t"
      using ds(1) fss by (auto simp: deletableFaultSpace_def filter_result_set)
    obtain p i xs where e: "?t = p @ [idx_key i]" "p \<noteq> []" "cwalk ast p = Some (JArr xs)" "i < length xs"
      and ty: "list_ex (has_type (xs ! i)) deletableNodeTypes"
      by (rule deletable_element [OF ds(1) mem t(2) assms(2)])
    have xs: "complete (JArr xs)" using complete_cwalk [OF assms(2) e(3)] by blast
    have put: "ast1 = put ast p (JArr (take i xs @ drop (Suc i) xs))"
      using ast1 DeletionM_apply_elem [OF e] by simp
    moreover have "complete (put ast p (JArr (take i xs @ drop (Suc i) xs)))"
      using xs by (intro complete_put [OF assms(2)]) (auto dest: in_set_takeD in_set_dropD)
    ultimately have c1: "wf_val ast1" by (simp add: complete_wf_val)
    have stripped1: "ASTNodeRemoveExtraAttributesDeep ast1 = ast1"
      unfolding put using path_of_stripped [OF stripped e(3)] e(2)
      by (intro put_stays_stripped [OF stripped]) (simp_all flip: take_map drop_map)
    let ?fss = "List.map_filter (DeletionM_updateASTPath (lib_lodash D) m ast) fss'"
    have plain: "q \<noteq> [] \<and> plain_path q" if "q \<in> set ?fss" for q
      using that movement_faultSpaces_subset [OF fss'] fss DeletionM_update_length DeletionM_update_plain
      by (fastforce simp: List.map_filter_def)
    then have "[] \<notin> set ?fss" by blast
    note places = new_insertion_gen_in [OF ig c1 this]
    have "list_all (\<lambda>x. place_of ast1 x \<and> plain_path (propertyPath x)) (insertableSpaces ig)"
      using places plain place_in_plain [OF _ stripped1] by (fastforce simp: list_all_iff place_in_def)
    moreover have "isASTNode (Some (xs ! i))"
      using ty type_prop_node by (auto simp: list_ex_iff has_type_def)
    ultimately show ?thesis
      using t e ast1 unfolding movable_def by blast
  qed
  then show ?thesis
    using lodash_arrays.unionWith_subset [OF pairs_ok, of "[]" pairs "(=)"]
    by (auto simp: movement_stock_def g)
qed

end

end
