(* ===== verification/DrawnMutations.thy ===== *)
theory DrawnMutations
  imports DrawnMoves
begin

text \<open>
  The mutations a \<open>RandomMutationGenerator\<close> offers fit the AST it was made for: each applies to
  it, changes a node of the fault spaces that are left to its type, and what it puts into the
  AST is a complete node without locations.
\<close>

section \<open>Fitting\<close>

text \<open>A movement was built by its constructor for this very AST.\<close>

fun made_for :: "lodash \<Rightarrow> jsval \<Rightarrow> mutation \<Rightarrow> bool" where
  "made_for L ast (Movement m) \<longleftrightarrow> mov_ast m = ast \<and> isASTNode (cwalk ast (fromNodePath m)) \<and>
     plain_path (fromNodePath m) \<and> isInteger (mov_insertIndex m) \<and>
     new_MovementM L ast (fromNodePath m) (toPropertyPath m) (mov_insertIndex m) = Inr m"
| "made_for L ast m = True"

definition mutation_fits :: "lodash \<Rightarrow> jsval \<Rightarrow> faultSpaceInfo list \<Rightarrow> mutation \<Rightarrow> bool" where
  "mutation_fits L ast infos m \<longleftrightarrow> applicable L m ast \<and>
     targetNodePath m \<in> set (spaces_for (mutationType m) infos) \<and> sound_mutation m \<and> made_for L ast m"

text \<open>The stock of a generator.\<close>

definition deletion_fits :: "jsval \<Rightarrow> faultSpaceInfo list \<Rightarrow> path \<Rightarrow> bool" where
  "deletion_fits ast infos p \<longleftrightarrow> p \<in> set (spaces_for ''DeletionM'' infos) \<and>
     DeletionM_applicable \<lparr>del_targetNodePath = p\<rparr> ast"

definition replacement_fits :: "jsval \<Rightarrow> faultSpaceInfo list \<Rightarrow> path \<Rightarrow> bool" where
  "replacement_fits ast infos p \<longleftrightarrow> p \<in> set (spaces_for ''ReplacementM'' infos) \<and> p \<noteq> [] \<and>
     isASTNode (cwalk ast p)"

definition gen_fits :: "'r libs \<Rightarrow> jsval \<Rightarrow> faultSpaceInfo list \<Rightarrow> 'r mutation_gen \<Rightarrow> bool" where
  "gen_fits D ast infos g \<longleftrightarrow>
     list_all (place_in ast (spaces_for ''InsertionM'' infos)) (insertableSpaces (insertionM_Gen g)) \<and>
     insertion_nodes D good_node (insertionM_Gen g) \<and>
     list_all (replacement_fits ast infos) (map rn_faultSpace (supportedReplaceableNodes (replacementM_Gen g))) \<and>
     replacement_nodes D good_node (replacementM_Gen g) \<and>
     list_all (deletion_fits ast infos) (deletableSpace (deletionM_Gen g)) \<and>
     movement_stock (lib_lodash D) ast (spaces_for ''MovementM'' infos) (movementM_Gen g)"

lemma gen_fits_update [simp]:
  "gen_fits D ast infos (g\<lparr>gen_rng := r\<rparr>) = gen_fits D ast infos g"
  "gen_fits D ast infos (g\<lparr>possibleMutationTypes := ts\<rparr>) = gen_fits D ast infos g"
  by (simp_all add: gen_fits_def)

context generator_libs
begin

section \<open>Drawing keeps to the stock\<close>

text \<open>What every draw keeps, every call keeps, and what is said of every drawn mutation holds of
  every mutation a call yields.\<close>

lemma mutation_gen_loop_keeps:
  assumes draws: "\<And>t g x g'. P g \<Longrightarrow> mutation_gen_valid g \<Longrightarrow> draw_mutation D (overriddenFaultSpace request) t g = Returned (x, g') \<Longrightarrow>
      P g' \<and> (\<forall>m. x = Some m \<longrightarrow> Q m)"
    and rng: "\<And>g r. P (g\<lparr>gen_rng := r\<rparr>) = P g" "\<And>g ts. P (g\<lparr>possibleMutationTypes := ts\<rparr>) = P g"
  shows "P g \<Longrightarrow> mutation_gen_valid g \<Longrightarrow> mutation_gen_loop D request n g = Returned (reply, g') \<Longrightarrow>
    P g' \<and> (\<forall>m. reply = NewMutation m \<longrightarrow> Q m)"
proof (induction n arbitrary: g)
  case (Suc n)
  show ?case
  proof (cases "possibleMutationTypes g = []")
    case True
    with Suc.prems show ?thesis by auto
  next
    case False
    show ?thesis
    proof (rule mutation_gen_round [OF Suc.prems(3) False])
      fix t r
      assume out: "Returned (reply, g') =
          bind_outcome (draw_mutation D (overriddenFaultSpace request) t (g\<lparr>gen_rng := r\<rparr>))
          (\<lambda>(newMutation, g'). case newMutation of
             None \<Rightarrow> mutation_gen_loop D request n
               (g'\<lparr>possibleMutationTypes := lpull (lib_names D) (possibleMutationTypes g') t\<rparr>)
           | Some m \<Rightarrow> Returned (NewMutation m, g'))"
      obtain x g1 where d: "draw_mutation D (overriddenFaultSpace request) t (g\<lparr>gen_rng := r\<rparr>) = Returned (x, g1)"
        using sym [OF out] by auto
      have v: "mutation_gen_valid g1"
        using draw_mutation_drawn [OF _ d] Suc.prems(2) by (simp add: drawn_def)
      have p: "P g1 \<and> (\<forall>m. x = Some m \<longrightarrow> Q m)"
        using Suc.prems(1,2) by (intro draws [OF _ _ d]) (simp_all add: rng)
      show ?thesis
      proof (cases x)
        case (Some m)
        with out d p show ?thesis by simp
      next
        case None
        let ?g = "g1\<lparr>possibleMutationTypes := lpull (lib_names D) (possibleMutationTypes g1) t\<rparr>"
        have "mutation_gen_loop D request n ?g = Returned (reply, g')" using out d None by simp
        then show ?thesis using p v by (intro Suc.IH [of ?g]) (simp_all add: rng)
      qed
    qed (use Suc.prems(1) in auto)
  qed
qed simp

text \<open>A draw of each type.\<close>

lemma insertion_draw_fits:
  assumes fits: "gen_fits D ast infos g" and valid: "mutation_gen_valid g"
    and draw: "draw_mutation D override ''InsertionM'' g = Returned (x, g')"
  shows "gen_fits D ast infos g' \<and> (\<forall>m. x = Some m \<longrightarrow> mutation_fits (lib_lodash D) ast infos m)"
proof -
  obtain ig m ig' r where ig: "narrowed (insertion_updateFaultSpace D) override (insertionM_Gen g) = Inr ig"
    and m: "insertion_next D ig (gen_rng g) = Returned (m, ig', r)"
    and g': "x = map_option Insertion m" "g' = g\<lparr>insertionM_Gen := ig', gen_rng := r\<rparr>"
    using draw by (auto simp: draw_mutation_def)
  have n: "insertion_valid ig \<and> set (insertableSpaces ig) \<subseteq> set (insertableSpaces (insertionM_Gen g))"
    using narrowed_insertion [OF ig] valid by (simp add: mutation_gen_valid_def)
  have "insertion_nodes D good_node ig"
    using fits narrowed_insertion_nodes [OF ig] by (simp add: gen_fits_def)
  note nodes = insertion_next_nodes [OF this conjunct1 [OF n] m]
  note y = insertion_next_yields [OF conjunct1 [OF n] m]
  have "mutation_fits (lib_lodash D) ast infos (Insertion i)" if i: "m = Some i" for i
  proof -
    obtain p where p: "p \<in> set (insertableSpaces ig)" "targetPropertyPath i = propertyPath p"
      "insertIndex i = Fin (int (place_index p))"
      using y i by auto
    then have "place_in ast (spaces_for ''InsertionM'' infos) p"
      using n fits by (auto simp: gen_fits_def list_all_iff)
    with p nodes i place_insertion_applicable [of ast p i] show ?thesis
      by (simp add: mutation_fits_def sound_mutation_def place_in_def InsertionM_targetNodePath_def)
  qed
  moreover have "gen_fits D ast infos g'"
    using fits y n nodes by (auto simp: gen_fits_def g' list_all_iff)
  ultimately show ?thesis using g' by auto
qed

lemma replacement_draw_fits:
  assumes fits: "gen_fits D ast infos g" and valid: "mutation_gen_valid g"
    and draw: "draw_mutation D override ''ReplacementM'' g = Returned (x, g')"
  shows "gen_fits D ast infos g' \<and> (\<forall>m. x = Some m \<longrightarrow> mutation_fits (lib_lodash D) ast infos m)"
proof -
  obtain m rg' r where m: "replacement_next D (replacementM_Gen g) (gen_rng g) = Returned (m, rg', r)"
    and g': "x = map_option Replacement m" "g' = g\<lparr>replacementM_Gen := rg', gen_rng := r\<rparr>"
    using draw by (auto simp: draw_mutation_def dest!: narrowed_replacement)
  have v: "replacement_valid (replacementM_Gen g)" using valid by (simp add: mutation_gen_valid_def)
  note y = replacement_next_yields [OF v m]
  have "replacement_nodes D good_node (replacementM_Gen g)" using fits by (simp add: gen_fits_def)
  note nodes = replacement_next_nodes [OF this m]
  have f: "replacement_fits ast infos p"
    if "p \<in> set (map rn_faultSpace (supportedReplaceableNodes (replacementM_Gen g)))" for p
    using fits that by (auto simp: gen_fits_def list_all_iff)
  have "mutation_fits (lib_lodash D) ast infos (Replacement i)" if i: "m = Some i" for i
    using y nodes f [of "rep_targetNodePath i"] i
    by (simp add: mutation_fits_def sound_mutation_def replacement_fits_def ReplacementM_applicable_def good_node_def)
  moreover have "gen_fits D ast infos g'"
    using fits nodes y f unfolding gen_fits_def g' list_all_iff by auto
  ultimately show ?thesis using g' by auto
qed

lemma deletion_draw_fits:
  assumes fits: "gen_fits D ast infos g"
    and draw: "draw_mutation D override ''DeletionM'' g = Returned (x, g')"
  shows "gen_fits D ast infos g' \<and> (\<forall>m. x = Some m \<longrightarrow> mutation_fits (lib_lodash D) ast infos m)"
proof -
  obtain m dg' r where m: "deletion_next D (deletionM_Gen g) (gen_rng g) = Returned (m, dg', r)"
    and g': "x = map_option Deletion m" "g' = g\<lparr>deletionM_Gen := dg', gen_rng := r\<rparr>"
    using draw by (auto simp: draw_mutation_def dest!: narrowed_deletion)
  show ?thesis
  proof (cases m)
    case None
    have "dg' = deletionM_Gen g" using deletion_next_done m None by blast
    with fits g' None show ?thesis by (simp add: gen_fits_def)
  next
    case (Some i)
    have "set (deletableSpace (deletionM_Gen g)) = insert (del_targetNodePath i) (set (deletableSpace dg'))"
      using deletion_next_takes(1) [of "deletionM_Gen g" "gen_rng g" i dg' r] m Some
      by (metis set_mset_add_mset_insert set_mset_mset)
    moreover obtain p where "i = \<lparr>del_targetNodePath = p\<rparr>" by (cases i)
    ultimately show ?thesis using fits g' Some
      by (auto simp: gen_fits_def list_all_iff deletion_fits_def mutation_fits_def sound_mutation_def)
  qed
qed

lemma movement_draw_fits:
  assumes fits: "gen_fits D ast infos g" and valid: "mutation_gen_valid g"
    and ast: "complete ast" "ASTNodeRemoveExtraAttributesDeep ast = ast"
    and draw: "draw_mutation D override ''MovementM'' g = Returned (x, g')"
  shows "gen_fits D ast infos g' \<and> (\<forall>m. x = Some m \<longrightarrow> mutation_fits (lib_lodash D) ast infos m)"
proof -
  obtain mg r0 m mg' r where mg: "(case override of None \<Rightarrow> Returned (movementM_Gen g, gen_rng g)
        | Some fss \<Rightarrow> movement_updateFaultSpace D (Intersect fss) (movementM_Gen g) (gen_rng g)) = Returned (mg, r0)"
    and m: "movement_next D mg r0 = Returned (m, mg', r)"
    and g': "x = map_option Movement m" "g' = g\<lparr>movementM_Gen := mg', gen_rng := r\<rparr>"
    using draw by (auto simp: draw_mutation_def simp del: movement_updateFaultSpace.simps)
  let ?fss = "spaces_for ''MovementM'' infos"
  have v: "movement_valid (movementM_Gen g)" and st: "movement_stock (lib_lodash D) ast ?fss (movementM_Gen g)"
    using valid fits by (simp_all add: mutation_gen_valid_def gen_fits_def)
  have n: "movement_valid mg \<and> movement_stock (lib_lodash D) ast ?fss mg"
  proof (cases override)
    case (Some fss)
    then have u: "movement_updateFaultSpace D (Intersect fss) (movementM_Gen g) (gen_rng g) = Returned (mg, r0)"
      using mg by simp
    show ?thesis using movement_update_narrows [OF u v] movement_update_stock [OF u st] by simp
  qed (use mg v st in simp)
  from movement_next_fits [OF ast conjunct2 [OF n] conjunct1 [OF n] m] fits g'
  show ?thesis by (auto simp: gen_fits_def mutation_fits_def movement_fits_def)
qed

lemma gen_fits_draw:
  assumes "gen_fits D ast infos g" and "mutation_gen_valid g"
    and "complete ast" and "ASTNodeRemoveExtraAttributesDeep ast = ast"
    and draw: "draw_mutation D override t g = Returned (x, g')"
  shows "gen_fits D ast infos g' \<and> (\<forall>m. x = Some m \<longrightarrow> mutation_fits (lib_lodash D) ast infos m)"
proof -
  consider "t = ''InsertionM''" | "t = ''ReplacementM''" | "t = ''DeletionM''" | "t = ''MovementM''"
    using draw by (auto simp: draw_mutation_def split: if_splits)
  then show ?thesis
  proof cases
    case 1
    show ?thesis by (rule insertion_draw_fits [OF assms(1,2) draw [unfolded 1]])
  next
    case 2
    show ?thesis by (rule replacement_draw_fits [OF assms(1,2) draw [unfolded 2]])
  next
    case 3
    show ?thesis by (rule deletion_draw_fits [OF assms(1) draw [unfolded 3]])
  next
    case 4
    show ?thesis by (rule movement_draw_fits [OF assms(1-4) draw [unfolded 4]])
  qed
qed

lemma mutation_gen_next_fits:
  assumes "gen_fits D ast infos g" and "mutation_gen_valid g"
    and "complete ast" and "ASTNodeRemoveExtraAttributesDeep ast = ast"
    and "mutation_gen_next D request g = Returned (reply, g')"
  shows "gen_fits D ast infos g' \<and> (\<forall>m. reply = NewMutation m \<longrightarrow> mutation_fits (lib_lodash D) ast infos m)"
proof -
  have draw: "gen_fits D ast infos g' \<and> (\<forall>m. x = Some m \<longrightarrow> mutation_fits (lib_lodash D) ast infos m)"
    if "gen_fits D ast infos g" "mutation_gen_valid g"
      "draw_mutation D (overriddenFaultSpace request) t g = Returned (x, g')" for g t x g'
    by (rule gen_fits_draw [OF that(1,2) assms(3,4) that(3)])
  from assms(5) have loop: "mutation_gen_loop D request (Suc (length (possibleMutationTypes g))) g = Returned (reply, g')"
    by (simp only: mutation_gen_next_def)
  show ?thesis
  proof (rule mutation_gen_loop_keeps [where P = "gen_fits D ast infos" and Q = "mutation_fits (lib_lodash D) ast infos"])
    show "gen_fits D ast infos g" "mutation_gen_valid g" by (fact assms(1,2))+
    show "mutation_gen_loop D request (Suc (length (possibleMutationTypes g))) g = Returned (reply, g')" by (fact loop)
  qed (use draw in \<open>simp_all del: mutation_gen_loop.simps\<close>)
qed

end

section \<open>A new generator\<close>

text \<open>The types of new nodes asked for: the template of identifiers yields no nodes. Those the
  space supports, which are the default, are without it.\<close>

definition node_types_ok :: "string list option \<Rightarrow> bool" where
  "node_types_ok types \<longleftrightarrow> (case types of None \<Rightarrow> True | Some ts \<Rightarrow> ''Identifier'' \<notin> set ts)"

lemma supported_no_identifier:
  assumes "supportedNodeTypes S = Inr ts" and "\<not> seeded S"
  shows "''Identifier'' \<notin> set ts"
proof
  assume "''Identifier'' \<in> set ts"
  then have "isNodeTypeSupported S ''Identifier'' = Inr True"
    using assms(1) by (simp add: supportedNodeTypes_def filter_result_set)
  with assms(2) show False
    by (simp add: isNodeTypeSupported_def node_space_def ASTNodeSpace_method_def Identifier_nodes_def)
qed

lemma node_walk_iff: "isASTNode (Some w) \<Longrightarrow> walk v p = Some w \<longleftrightarrow> cwalk v p = Some w"
  by (rule walk_container_iff) (cases w; simp)

context clean_libs
begin

lemma new_mutation_gen_fits:
  assumes new: "new_mutation_gen D ast infos possible types rts seed = Returned g"
    and "complete ast" and "list_all (\<lambda>x. 2 \<le> length (info_faultSpace x) \<and> plain_path (info_faultSpace x)) infos"
    and "node_types_ok types" and stripped: "ASTNodeRemoveExtraAttributesDeep ast = ast"
  shows "gen_fits D ast infos g"
proof -
  obtain space rts' nts r where space: "new_RandomASTNodeSpace (lib_nullCopy D) ast = Inr space"
    and ig: "new_insertion_gen D ast (spaces_for ''InsertionM'' infos) space [''ExpressionStatement'']
      = Inr (insertionM_Gen g)"
    and rg: "new_replacement_gen D ast (spaces_for ''ReplacementM'' infos) space rts' nts = Inr (replacementM_Gen g)"
    and dg: "new_deletion_gen D ast (spaces_for ''DeletionM'' infos) = Inr (deletionM_Gen g)"
    and mg: "new_movement_gen D ast (spaces_for ''MovementM'' infos) True r = Returned (movementM_Gen g, gen_rng g)"
    and nts: "(case types of None \<Rightarrow> supportedNodeTypes space | Some ts \<Rightarrow> Inr ts) = Inr nts"
    using new by (auto simp: new_mutation_gen_def Let_def getFaultSpaceInfoNodePair_fst)
  have "\<not> seeded space" by (rule RandomASTNodeSpace_complete(2) [OF nullCopy_ok assms(2) space])
  then have id: "''Identifier'' \<notin> set nts"
    using assms(4) nts supported_no_identifier by (auto simp: node_types_ok_def split: option.splits)
  have long: "2 \<le> length p \<and> plain_path p" if "p \<in> set (spaces_for t infos)" for t p
    using assms(3) that by (auto simp: spaces_for_def list_all_iff)
  then have ne: "[] \<notin> set (spaces_for t infos)" for t by fastforce
  have "deletion_fits ast infos p" if p: "p \<in> set (deletableSpace (deletionM_Gen g))" for p
  proof -
    obtain ds where ds: "deletableFaultSpace (lib_lodash D) ast (spaces_for ''DeletionM'' infos)
        (Some deletableNodeTypes) = Inr ds"
      "set (deletableSpace (deletionM_Gen g)) = set ds" "distinct (deletableSpace (deletionM_Gen g))"
      "dg_forAST (deletionM_Gen g) = ast"
      by (rule new_deletion_gen_space [OF dg])
    have "p \<in> set ds" using p ds(2) by simp
    then have "p \<in> set (spaces_for ''DeletionM'' infos)"
      using ds(1) by (auto simp: deletableFaultSpace_def filter_result_set)
    with deletableFaultSpace_fits [OF lodash_ok ds(1) \<open>p \<in> set ds\<close>] long show ?thesis
      by (auto simp: deletion_fits_def)
  qed
  moreover have "replacement_fits ast infos (rn_faultSpace e)"
    if "e \<in> set (supportedReplaceableNodes (replacementM_Gen g))" for e
    using new_replacement_gen_targets [OF rg ne that] ne node_walk_iff
    by (fastforce simp: replaceable_in_def replacement_fits_def)
  moreover have "place_in ast (spaces_for ''InsertionM'' infos) p"
    if "p \<in> set (insertableSpaces (insertionM_Gen g))" for p
    by (rule new_insertion_gen_in [OF ig complete_wf_val [OF assms(2)] ne that])
  ultimately show ?thesis
    using new_insertion_gen_nodes [OF ig assms(2) space] new_replacement_gen_nodes [OF rg assms(2) ne space id]
      new_movement_gen_stock [OF mg assms(2) stripped] long
    by (auto simp: gen_fits_def list_all_iff)
qed

end

end
