(* ===== verification/Compile.thy ===== *)
theory Compile
  imports AstUtils MutationJson
begin

text \<open>
  Compiling an AST: printing it (\<open>a2S\<close>, \<open>utils/SRCUtils.ts\<close>), the call of the Solidity compiler
  and the reading of its answer (\<open>compile\<close>, \<open>lib/utils/index.ts\<close>), and the comparison of binaries
  without the metadata hash the compiler appends (\<open>stripSwarmMetadata\<close>). The printer and the
  compiler are third party and parameters of the model; nothing is assumed of them.
\<close>

section \<open>JSON texts\<close>

text \<open>
  \<open>JSON.stringify\<close> of an AST. The text is represented by the value it denotes, which
  \<open>JSON.parse\<close> gives back: functions are dropped from objects and null in arrays, and numbers
  that are not finite are null.
\<close>

fun is_function_value :: "jsval \<Rightarrow> bool" where
  "is_function_value (JGen _) = True"
| "is_function_value _ = False"

fun json_text :: "jsval \<Rightarrow> jsval" where
  "json_text (JNum n) = json_num n"
| "json_text (JArr xs) = JArr (map json_text xs)"
| "json_text (JObj kvs) =
     JObj (map (\<lambda>(k, v). (k, json_text v)) (filter (\<lambda>(k, v). \<not> is_function_value v) kvs))"
| "json_text (JGen xs) = JNull"
| "json_text v = v"

lemma json_num_is_json [simp]: "is_json (json_num n)"
  by (cases n) simp_all

lemma function_not_json: "is_json v \<Longrightarrow> \<not> is_function_value v"
  by (cases v) simp_all

lemma json_text_is_json: "is_json (json_text v)"
  by (induction v rule: json_text.induct) (auto simp: list_all_iff)

lemma json_text_of_json: "is_json v \<Longrightarrow> json_text v = v"
proof (induction v rule: json_text.induct)
  case (3 kvs)
  have "filter (\<lambda>(k, v). \<not> is_function_value v) kvs = kvs"
    using 3(2) by (intro filter_True) (auto simp: list_all_iff dest: function_not_json)
  moreover have "map (\<lambda>(k, v). (k, json_text v)) kvs = kvs"
    using 3 calculation by (intro map_idI) (auto simp: list_all_iff)
  ultimately show ?case by simp
qed (auto simp: list_all_iff intro: map_idI elim: is_json.elims)

section \<open>Third parties\<close>

text \<open>The answer of the compiler: the types of the reported errors (undefined when there is no
  \<open>errors\<close> property), and the bytecode of each contract of \<open>main.sol\<close> (undefined when there is
  none).\<close>

record compiler_output =
  out_errors :: "string list option"
  out_contracts :: "(string \<times> string) list option"

text \<open>\<open>print_ast\<close> is the formatter of prettier with its Solidity plugin (given undefined where
  there is no AST); \<open>solc\<close> is compiler
  0.4.24 on a source, with the optimizer switched on or off and its number of runs.\<close>

record toolchain =
  print_ast :: "jsval option \<Rightarrow> string result"
  solc :: "string \<Rightarrow> bool \<Rightarrow> int \<Rightarrow> compiler_output"

text \<open>Any exception of the printer is reported and wrapped in an \<open>Error\<close>.\<close>

definition a2S :: "toolchain \<Rightarrow> jsval option \<Rightarrow> string result" where
  "a2S T ast = (case print_ast T ast of Inl e \<Rightarrow> Inl GenericError | Inr src \<Rightarrow> Inr src)"

section \<open>The compiler's answer\<close>

datatype optimize = OptimizeFlag bool | OptimizeRuns int

datatype compiled = CompileFailed | Compiled | Binaries "(string \<times> string) list"

definition optimizer_enabled :: "optimize \<Rightarrow> bool" where
  "optimizer_enabled optimize = (case optimize of OptimizeFlag b \<Rightarrow> b | OptimizeRuns _ \<Rightarrow> True)"

definition optimizer_runs :: "optimize \<Rightarrow> int" where
  "optimizer_runs optimize = (case optimize of OptimizeFlag _ \<Rightarrow> 200 | OptimizeRuns n \<Rightarrow> n)"

text \<open>The loop over the errors: warnings are passed over; every other type, known or not, fails.\<close>

fun only_warnings :: "string list \<Rightarrow> bool" where
  "only_warnings [] = True"
| "only_warnings (ty # errors) =
     (if ty \<in> {''Warning'', ''DocstringParsingError''} then only_warnings errors
      else if ty \<in> {''ParserError'', ''SyntaxError'', ''DeclarationError'', ''TypeError''} then False
      else False)"

definition compile :: "toolchain \<Rightarrow> string \<Rightarrow> optimize \<Rightarrow> bool \<Rightarrow> compiled result" where
  "compile T contractSrcStr optimize retBin =
     (let compileOutput = solc T contractSrcStr (optimizer_enabled optimize) (optimizer_runs optimize) in
      if (case out_errors compileOutput of None \<Rightarrow> False | Some errors \<Rightarrow> \<not> only_warnings errors)
      then Inr CompileFailed
      else if \<not> retBin then Inr Compiled
      else case out_contracts compileOutput of
          None \<Rightarrow> Inl TypeError
        | Some bins \<Rightarrow> Inr (Binaries bins))"

lemma only_warnings_iff:
  "only_warnings errors \<longleftrightarrow> set errors \<subseteq> {''Warning'', ''DocstringParsingError''}"
  by (induction errors) auto

section \<open>Binaries without their metadata\<close>

definition is_hex_digit :: "char \<Rightarrow> bool" where
  "is_hex_digit c \<longleftrightarrow> c \<in> set ''0123456789abcdef''"

text \<open>The text the regular expression
  \<open>(a165627a7a72305820)([0-9a-f]{64})(0029)$\<close> matches.\<close>

definition is_swarm_metadata :: "string \<Rightarrow> bool" where
  "is_swarm_metadata s \<longleftrightarrow> length s = 86 \<and> take 18 s = ''a165627a7a72305820'' \<and>
     list_all is_hex_digit (take 64 (drop 18 s)) \<and> drop 82 s = ''0029''"

text \<open>All matches have 86 characters and end the string, so at most one suffix matches.\<close>

definition stripSwarmMetadata :: "string \<Rightarrow> string" where
  "stripSwarmMetadata bin =
     (let n = length bin - 86 in if 86 \<le> length bin \<and> is_swarm_metadata (drop n bin) then take n bin else bin)"

lemma stripSwarmMetadata_append [simp]:
  "is_swarm_metadata meta \<Longrightarrow> stripSwarmMetadata (code @ meta) = code"
  by (simp add: stripSwarmMetadata_def is_swarm_metadata_def)

lemma stripSwarmMetadata_cases:
  "stripSwarmMetadata bin = bin \<or>
   (\<exists>meta. is_swarm_metadata meta \<and> bin = stripSwarmMetadata bin @ meta)"
  by (auto simp: stripSwarmMetadata_def Let_def intro: exI [of _ "drop (length bin - 86) bin"])

text \<open>The key under which the binaries of an AST are remembered.\<close>

definition strip_binaries :: "(string \<times> string) list \<Rightarrow> (string \<times> string) list" where
  "strip_binaries bins = map (\<lambda>(contract, bin). (contract, stripSwarmMetadata bin)) bins"

end
