(* ===== verification/SequenceGen.thy ===== *)
theory SequenceGen
  imports MutationGen Compile ModifiedLocations
begin

text \<open>
  The generator of mutation sequences (\<open>RandomMutationSequenceGenerator\<close>,
  \<open>lib/RandomMutationSequenceGenerator.ts\<close>). It remembers every AST it has seen with its
  distance (the number of mutations from the original AST), and keeps, by distance, the ASTs that
  may be mutated further, each with the sequence that made it, its fault spaces and a generator
  of mutations. A call takes such an AST, draws a mutation, and adds the new AST; it answers with
  the sequence when the new AST is new, compiles to a new binary, and has the mutations asked
  for.

  The Maps of the program are association lists in insertion order. A serialized AST is the
  value its JSON text denotes.
\<close>

section \<open>State\<close>

text \<open>The readonly fields, set by the constructor. \<open>faultSpace_oriAST\<close> are the fault spaces
  given for the original AST.\<close>

record seq_config =
  oriAST :: jsval
  minDistance :: jsnum
  maxDistance :: jsnum
  faultSpace_oriAST :: "path list"
  allowedTypes :: "string list"
  newNodeTypes :: "string list option"
  must_include_mutation_types :: "string list option"
  replaceableNodeType :: "string list option"
  only_compilable :: bool
  skip_same_bin :: bool

definition faultSpaceInfo_oriAST :: "seq_config \<Rightarrow> faultSpaceInfo list" where
  "faultSpaceInfo_oriAST cfg =
     map (\<lambda>x. faultSpaceToFaultSpaceInfo x (allowedTypes cfg)) (faultSpace_oriAST cfg)"

record 'r ast_info =
  faultspaceInfo :: "faultSpaceInfo list"
  mutationGen :: "'r mutation_gen"
  mutationSeq :: mutationSequence

record 'r seq_gen =
  sg_rng :: 'r
  bins :: "(string \<times> string) list list"
  dist_ast_infoMap :: "(jsnum \<times> (jsval \<times> 'r ast_info) list) list"
  ast_DistMap :: "(jsval \<times> jsnum) list"

definition distance :: "mutationSequence \<Rightarrow> jsnum" where
  "distance ms = Fin (int (length ms))"

section \<open>Adding an AST\<close>

datatype addKnownAST_result = SUCCESS | ALREADY_SEEN_AST | ALREADY_SEEN_BIN | NOT_COMPILABLE

text \<open>The optional third argument: fault spaces without or with their remaining types.\<close>

datatype known_spaces = NoSpaces | PlainSpaces "path list" | SpaceInfos "faultSpaceInfo list"

text \<open>Without fault spaces, those of the original AST are carried along the sequence.\<close>

definition carried_from_oriAST ::
  "lodash \<Rightarrow> seq_config \<Rightarrow> mutationSequence \<Rightarrow> faultSpaceInfo list result" where
  "carried_from_oriAST L cfg ms =
     (let infos = faultSpaceInfo_oriAST cfg in
      bind_result (updatePath_oriAST L ms (oriAST cfg) (map info_faultSpace infos)) (\<lambda>paths.
        Inr (List.map_filter (\<lambda>(nodePath, x). map_option (\<lambda>p. x\<lparr>info_faultSpace := p\<rparr>) nodePath)
          (zip paths infos))))"

definition known_infos ::
  "lodash \<Rightarrow> seq_config \<Rightarrow> mutationSequence \<Rightarrow> known_spaces \<Rightarrow> faultSpaceInfo list result" where
  "known_infos L cfg ms spaces =
     (case spaces of
        NoSpaces \<Rightarrow> carried_from_oriAST L cfg ms
      | PlainSpaces fss \<Rightarrow> Inr (map (\<lambda>x. faultSpaceToFaultSpaceInfo x (allowedTypes cfg)) fss)
      | SpaceInfos infos \<Rightarrow> Inr infos)"

text \<open>The maps of a distance; a missing one is made when an AST is added to it.\<close>

definition infoMap_at :: "'r seq_gen \<Rightarrow> jsnum \<Rightarrow> (jsval \<times> 'r ast_info) list" where
  "infoMap_at st dist = (case map_of (dist_ast_infoMap st) dist of None \<Rightarrow> [] | Some m \<Rightarrow> m)"

definition add_base ::
  "'r libs \<Rightarrow> seq_config \<Rightarrow> jsval \<Rightarrow> jsval \<Rightarrow> mutationSequence \<Rightarrow> faultSpaceInfo list \<Rightarrow> 'r seq_gen \<Rightarrow>
   'r seq_gen outcome" where
  "add_base D cfg ASTCopy serializedNewAST ms infos st =
     (let newDist = distance ms; ast_infoMap = infoMap_at st newDist in
      bind_outcome (outcome_of (js_assert (map_of ast_infoMap serializedNewAST = None))) (\<lambda>_.
      let (z, r) = rnd_integer (lib_chance D) (sg_rng st) in
      bind_outcome (new_mutation_gen D ASTCopy infos (allowedTypes cfg) (newNodeTypes cfg)
          (replaceableNodeType cfg) (SeedNumber z)) (\<lambda>gen.
        Returned (st\<lparr>sg_rng := r, dist_ast_infoMap := AList.update newDist
          (AList.update serializedNewAST
             \<lparr>faultspaceInfo = infos, mutationGen = gen, mutationSeq = ms\<rparr> ast_infoMap)
          (dist_ast_infoMap st)\<rparr>))))"

text \<open>The checks on the compiled AST; the binaries are remembered without their metadata.\<close>

definition check_compiled ::
  "toolchain \<Rightarrow> seq_config \<Rightarrow> jsval \<Rightarrow> 'r seq_gen \<Rightarrow> (addKnownAST_result \<times> 'r seq_gen) result" where
  "check_compiled T cfg ASTCopy st =
     (if \<not> only_compilable cfg then Inr (SUCCESS, st)
      else
        bind_result (a2S T (Some ASTCopy)) (\<lambda>src.
        bind_result (compile T src (OptimizeFlag True) (skip_same_bin cfg)) (\<lambda>compileOut.
          case compileOut of
            CompileFailed \<Rightarrow> Inr (NOT_COMPILABLE, st)
          | Compiled \<Rightarrow> Inr (SUCCESS, st)
          | Binaries bs \<Rightarrow>
              let bins_without_swarm = strip_binaries bs in
              if bins_without_swarm \<in> set (bins st) then Inr (ALREADY_SEEN_BIN, st)
              else Inr (SUCCESS, st\<lparr>bins := bins st @ [bins_without_swarm]\<rparr>))))"

text \<open>
  \<open>addKnownAST\<close>: the AST without tokens and locations is the one that counts. It is recorded as
  seen, and as a base when it is closer than \<open>maxDistance\<close> and has fault spaces left, before it is
  compiled.
\<close>

definition addKnownAST ::
  "'r libs \<Rightarrow> toolchain \<Rightarrow> seq_config \<Rightarrow> jsval \<Rightarrow> mutationSequence \<Rightarrow> known_spaces \<Rightarrow> 'r seq_gen \<Rightarrow>
   (addKnownAST_result \<times> 'r seq_gen) outcome" where
  "addKnownAST D T cfg ast ms spaces st =
     (let ASTCopy = ASTNodeRemoveExtraAttributesDeep ast; serializedNewAST = json_text ASTCopy in
      if map_of (ast_DistMap st) serializedNewAST \<noteq> None then Returned (ALREADY_SEEN_AST, st)
      else
        let st1 = st\<lparr>ast_DistMap := AList.update serializedNewAST (distance ms) (ast_DistMap st)\<rparr> in
        bind_outcome
          (if distance ms < maxDistance cfg then
             bind_outcome (outcome_of (known_infos (lib_lodash D) cfg ms spaces)) (\<lambda>infos.
               if infos \<noteq> [] then add_base D cfg ASTCopy serializedNewAST ms infos st1
               else Returned st1)
           else Returned st1)
          (\<lambda>st2. outcome_of (check_compiled T cfg ASTCopy st2)))"

text \<open>The constructor.\<close>

definition new_seq_gen ::
  "'r libs \<Rightarrow> toolchain \<Rightarrow> seq_config \<Rightarrow> seed \<Rightarrow> 'r seq_gen outcome" where
  "new_seq_gen D T cfg seed =
     bind_outcome (outcome_of (js_assert (case must_include_mutation_types cfg of None \<Rightarrow> True
         | Some types \<Rightarrow> list_all (\<lambda>ty. ty \<in> set (allowedTypes cfg)) types))) (\<lambda>_.
     bind_outcome (addKnownAST D T cfg (oriAST cfg) [] (SpaceInfos (faultSpaceInfo_oriAST cfg))
         \<lparr>sg_rng = new_chance (lib_chance D) seed, bins = [], dist_ast_infoMap = [], ast_DistMap = []\<rparr>)
       (\<lambda>(result, st).
     bind_outcome (outcome_of (js_assert (result = SUCCESS))) (\<lambda>_. Returned st)))"

section \<open>Choosing a base\<close>

record seq_request =
  requestAST :: "jsval option"
  mutation_request :: gen_request

text \<open>The distance, the serialized AST, the AST and what is kept of it.\<close>

datatype 'r base_choice = AllDone | RequestExhausted | Base jsnum jsval jsval "'r ast_info"

definition pickable :: "seq_config \<Rightarrow> 'r seq_gen \<Rightarrow> (jsnum \<times> (jsval \<times> 'r ast_info) list) list" where
  "pickable cfg st = filter (\<lambda>(dist, m). dist < maxDistance cfg \<and> m \<noteq> []) (dist_ast_infoMap st)"

definition pick_base ::
  "'r libs \<Rightarrow> seq_config \<Rightarrow> 'r seq_gen \<Rightarrow> ('r base_choice \<times> 'r seq_gen) outcome" where
  "pick_base D cfg st =
     (let maps = pickable cfg st in
      if maps = [] then Returned (AllDone, st)
      else
        let (i, r1) = pickone (lib_chance D) (length maps) (sg_rng st);
            (dist, ast_infoMap) = maps ! i; keys = map fst ast_infoMap in
        bind_outcome (outcome_of (js_assert (keys \<noteq> []))) (\<lambda>_.
        let (j, r2) = pickone (lib_chance D) (length keys) r1; serializedAST = keys ! j in
        case map_of ast_infoMap serializedAST of
          None \<Rightarrow> Thrown AssertionError
        | Some info \<Rightarrow> Returned (Base dist serializedAST serializedAST info, st\<lparr>sg_rng := r2\<rparr>)))"

definition requested_base :: "seq_config \<Rightarrow> jsval \<Rightarrow> 'r seq_gen \<Rightarrow> 'r base_choice result" where
  "requested_base cfg ast st =
     (let serializedAST = json_text ast in
      case map_of (ast_DistMap st) serializedAST of
        None \<Rightarrow> Inl AssertionError
      | Some dist \<Rightarrow>
          bind_result (js_assert (dist < maxDistance cfg)) (\<lambda>_.
          if num_eq dist (maxDistance cfg) then Inr RequestExhausted
          else case map_of (dist_ast_infoMap st) dist of
              None \<Rightarrow> Inr RequestExhausted
            | Some ast_infoMap \<Rightarrow> (case map_of ast_infoMap serializedAST of
                None \<Rightarrow> Inr RequestExhausted
              | Some info \<Rightarrow> Inr (Base dist serializedAST ast info))))"

definition choose_base ::
  "'r libs \<Rightarrow> seq_config \<Rightarrow> seq_request \<Rightarrow> 'r seq_gen \<Rightarrow> ('r base_choice \<times> 'r seq_gen) outcome" where
  "choose_base D cfg request st =
     (case requestAST request of
        None \<Rightarrow> pick_base D cfg st
      | Some ast \<Rightarrow> bind_outcome (outcome_of (requested_base cfg ast st)) (\<lambda>choice. Returned (choice, st)))"

text \<open>The generator of a base is an object: what a draw does to it stays in the map.\<close>

definition store_gen :: "jsnum \<Rightarrow> jsval \<Rightarrow> 'r mutation_gen \<Rightarrow> 'r seq_gen \<Rightarrow> 'r seq_gen" where
  "store_gen dist serializedAST gen st = st\<lparr>dist_ast_infoMap :=
     AList.map_entry dist (AList.map_entry serializedAST (\<lambda>info. info\<lparr>mutationGen := gen\<rparr>))
       (dist_ast_infoMap st)\<rparr>"

text \<open>An exhausted base is taken out of the map of its distance.\<close>

definition drop_base :: "jsval \<Rightarrow> mutationSequence \<Rightarrow> 'r seq_gen \<Rightarrow> 'r seq_gen result" where
  "drop_base serializedAST baseMutationSeq st =
     bind_result (js_assert (map_of (ast_DistMap st) serializedAST \<noteq> None)) (\<lambda>_.
     bind_result (js_assert (map_of (dist_ast_infoMap st) (distance baseMutationSeq) \<noteq> None)) (\<lambda>_.
       Inr (st\<lparr>dist_ast_infoMap := AList.map_entry (distance baseMutationSeq)
         (AList.delete serializedAST) (dist_ast_infoMap st)\<rparr>)))"

definition isAllASTDone :: "seq_config \<Rightarrow> 'r seq_gen \<Rightarrow> bool" where
  "isAllASTDone cfg st \<longleftrightarrow>
     \<not> list_ex (\<lambda>(dist, m). dist < maxDistance cfg \<and> m \<noteq> []) (dist_ast_infoMap st)"

section \<open>A new AST\<close>

text \<open>The fault spaces of the new AST: the target of the mutation loses the type of the mutation,
  which it must have had.\<close>

definition carry_faultSpace ::
  "'r libs \<Rightarrow> mutation \<Rightarrow> jsval \<Rightarrow> faultSpaceInfo \<Rightarrow> faultSpaceInfo option result" where
  "carry_faultSpace D m beforeAST x =
     (case updateASTPath (lib_lodash D) m beforeAST (info_faultSpace x) of
        None \<Rightarrow> Inr None
      | Some newNodePath \<Rightarrow>
          if lequal (lib_lodash D) (info_faultSpace x) (targetNodePath m) then
            bind_result (js_assert (mutationType m \<in> set (remainingMutation x))) (\<lambda>_.
            let newRemaining = lwithout (lib_names D) (remainingMutation x) (mutationType m) in
            Inr (if newRemaining \<noteq> []
              then Some \<lparr>info_faultSpace = newNodePath, remainingMutation = newRemaining\<rparr> else None))
          else Inr (Some (x\<lparr>info_faultSpace := newNodePath\<rparr>)))"

definition carry_faultSpaces ::
  "'r libs \<Rightarrow> mutation \<Rightarrow> jsval \<Rightarrow> faultSpaceInfo list \<Rightarrow> faultSpaceInfo list result" where
  "carry_faultSpaces D m beforeAST infos =
     bind_result (map_result (carry_faultSpace D m beforeAST) infos)
       (\<lambda>xs. Inr (List.map_filter id xs))"

definition extend_base ::
  "'r libs \<Rightarrow> toolchain \<Rightarrow> seq_config \<Rightarrow> jsval \<Rightarrow> 'r ast_info \<Rightarrow> mutation \<Rightarrow> 'r seq_gen \<Rightarrow>
   (addKnownAST_result \<times> mutationSequence \<times> 'r seq_gen) outcome" where
  "extend_base D T cfg beforeAST info newMutation st =
     (let L = lib_lodash D in
      bind_outcome (outcome_of (mutation_modifiedLocations L (lib_values D) newMutation beforeAST [])) (\<lambda>_.
      bind_outcome (outcome_of (apply_mutation L newMutation beforeAST)) (\<lambda>newAST.
      bind_outcome (outcome_of (carry_faultSpaces D newMutation beforeAST (faultspaceInfo info))) (\<lambda>infos.
      let newMutationSeq = mutationSeq info @ [newMutation] in
      bind_outcome (addKnownAST D T cfg newAST newMutationSeq (SpaceInfos infos) st) (\<lambda>(result, st').
        Returned (result, newMutationSeq, st'))))))"

definition pass_must_include :: "lodash_names \<Rightarrow> seq_config \<Rightarrow> mutationSequence \<Rightarrow> bool" where
  "pass_must_include N cfg ms =
     (case must_include_mutation_types cfg of
        None \<Rightarrow> True
      | Some required \<Rightarrow> let types = luniq N (map mutationType ms) in
          list_all (\<lambda>x. x \<in> set types) required)"

section \<open>The iterator\<close>

text \<open>The new sequence is answered when its AST was added and it has the types it must include;
  otherwise the loop goes on.\<close>

definition answers_new ::
  "lodash_names \<Rightarrow> seq_config \<Rightarrow> addKnownAST_result \<Rightarrow> mutationSequence \<Rightarrow> bool" where
  [simp]: "answers_new N cfg addASTRst ms \<longleftrightarrow> addASTRst = SUCCESS \<and> pass_must_include N cfg ms"

text \<open>The values of \<open>next\<close>: undefined with \<open>done\<close>, the two values of
  \<open>RandomMutationGenerator_Result\<close>, or a sequence.\<close>

datatype seq_reply =
  Finished | ExhaustedForRequestedAST | TerminateRequested | NewSequence mutationSequence

text \<open>\<open>signals i\<close> tells whether the i-th round of the call finds a request to terminate (the
  global flag or the file).\<close>

fun seq_gen_loop ::
  "'r libs \<Rightarrow> toolchain \<Rightarrow> (nat \<Rightarrow> bool) \<Rightarrow> seq_config \<Rightarrow> seq_request \<Rightarrow> nat \<Rightarrow> nat \<Rightarrow> 'r seq_gen \<Rightarrow>
   (seq_reply \<times> 'r seq_gen) outcome" where
  "seq_gen_loop D T signals cfg request 0 i st = Unfinished"
| "seq_gen_loop D T signals cfg request (Suc fuel) i st =
     (if signals i then Returned (TerminateRequested, st)
      else bind_outcome (choose_base D cfg request st) (\<lambda>(choice, st1).
        case choice of
          AllDone \<Rightarrow> Returned (Finished, st1)
        | RequestExhausted \<Rightarrow> Returned (ExhaustedForRequestedAST, st1)
        | Base dist serializedAST ast info \<Rightarrow>
            bind_outcome (mutation_gen_next D (mutation_request request) (mutationGen info)) (\<lambda>(reply, gen).
            let st2 = store_gen dist serializedAST gen st1 in
            case reply of
              NoMutation \<Rightarrow>
                bind_outcome (outcome_of (drop_base serializedAST (mutationSeq info) st2)) (\<lambda>st3.
                if requestAST request \<noteq> None
                then Returned (if isAllASTDone cfg st3 then Finished else ExhaustedForRequestedAST, st3)
                else seq_gen_loop D T signals cfg request fuel (Suc i) st3)
            | RequestNotFulfilled \<Rightarrow> Returned (ExhaustedForRequestedAST, st2)
            | NewMutation newMutation \<Rightarrow>
                bind_outcome (extend_base D T cfg ast info newMutation st2) (\<lambda>(result, ms, st3).
                if answers_new (lib_names D) cfg result ms
                then Returned (NewSequence ms, st3)
                else seq_gen_loop D T signals cfg request fuel (Suc i) st3))))"

definition seq_gen_next ::
  "'r libs \<Rightarrow> toolchain \<Rightarrow> (nat \<Rightarrow> bool) \<Rightarrow> seq_config \<Rightarrow> seq_request \<Rightarrow> nat \<Rightarrow> 'r seq_gen \<Rightarrow>
   (seq_reply \<times> 'r seq_gen) outcome" where
  "seq_gen_next D T signals cfg request fuel st =
     bind_outcome (outcome_of (js_assert
         (overriddenFaultSpace (mutation_request request) = None \<or> requestAST request \<noteq> None)))
       (\<lambda>_. seq_gen_loop D T signals cfg request fuel 0 st)"

section \<open>Lookup and simplification\<close>

text \<open>
  \<open>lodash_equal\<close> on two mutations. A replacement keeps a function (\<open>transformFunc\<close>), and two
  functions are equal only when they are the same object, so a replacement equals no other one
  however alike; \<open>same_object\<close> tells which mutations are the very objects kept.
\<close>

definition mutation_equal :: "(mutation \<Rightarrow> bool) \<Rightarrow> mutation \<Rightarrow> mutation \<Rightarrow> bool" where
  "mutation_equal same_object kept m \<longleftrightarrow>
     kept = m \<and> (same_object m \<or> mutationType m \<noteq> ''ReplacementM'')"

text \<open>The first AST of the distance whose sequence is deeply equal.\<close>

definition findASTByMutationSequence ::
  "(mutation \<Rightarrow> bool) \<Rightarrow> mutationSequence \<Rightarrow> 'r seq_gen \<Rightarrow> jsval option" where
  "findASTByMutationSequence same_object ms st =
     (case map_of (dist_ast_infoMap st) (distance ms) of
        None \<Rightarrow> None
      | Some ast_infoMap \<Rightarrow> map_option fst
          (find (\<lambda>(_, info). list_all2 (mutation_equal same_object) (mutationSeq info) ms) ast_infoMap))"

text \<open>\<open>isBodyEmpty\<close> of \<open>simplifyAST\<close>: a body that is undefined, or a block without
  statements, has no properties to read.\<close>

definition isBodyEmpty :: "jsval option \<Rightarrow> bool result" where
  "isBodyEmpty body =
     (if body = Some JNull then Inr True
      else bind_result (js_field body ''type'') (\<lambda>ty.
        if ty \<noteq> Some (JStr ''Block'') then Inr False
        else bind_result (js_field body ''statements'') (\<lambda>statements.
          bind_result (js_field statements ''length'') (\<lambda>n. Inr (n = Some (JNum (Fin 0)))))))"

text \<open>The visitor of conditionals with empty branches: the condition replaces them. A
  conditional has a condition.\<close>

definition simplify_visitor :: "mutationSequence list enter_fn" where
  "simplify_visitor node path seqs =
     (if \<not> has_type node ''IfStatement'' then Inr (seqs, True)
      else bind_result (isBodyEmpty (js_prop node ''trueBody'')) (\<lambda>b1.
        if \<not> b1 then Inr (seqs, True)
        else bind_result (isBodyEmpty (js_prop node ''falseBody'')) (\<lambda>b2.
          if \<not> b2 then Inr (seqs, True)
          else case js_prop node ''condition'' of
              None \<Rightarrow> Inl TypeError
            | Some condition \<Rightarrow>
                Inr (seqs @ [[Replacement \<lparr>rep_targetNodePath = path, rep_newNode = condition\<rparr>]], True))))"

fun index_of_longest :: "mutationSequence list \<Rightarrow> nat option" where
  "index_of_longest [] = None"
| "index_of_longest (ms # seqs) = (case index_of_longest seqs of
     None \<Rightarrow> Some 0
   | Some i \<Rightarrow> if length (seqs ! i) \<le> length ms then Some 0 else Some (Suc i))"

text \<open>\<open>simplifyAST\<close>: the ASTs of all simplifications are marked as seen, at distance infinity;
  the first of the longest is the answer, undefined when there is none.\<close>

definition simplifyAST ::
  "lodash \<Rightarrow> jsval \<Rightarrow> 'r seq_gen \<Rightarrow> (jsval option \<times> 'r seq_gen) result" where
  "simplifyAST L ast st =
     bind_result (visitWithPath simplify_visitor (\<lambda>_ _ s. Inr s) ast [] []) (\<lambda>seqs.
     bind_result (map_result (\<lambda>ms. mutateAST L ms ast) seqs) (\<lambda>simplifiedAST.
       Inr (map_option (\<lambda>i. simplifiedAST ! i) (index_of_longest seqs),
         st\<lparr>ast_DistMap := fold (\<lambda>dup. AList.update (json_text dup) PosInf) simplifiedAST (ast_DistMap st)\<rparr>)))"

end
