(* ===== verification/SequenceInvariant.thy ===== *)
theory SequenceInvariant
  imports SequenceGen
begin

text \<open>
  What the generator of sequences keeps: every base is an AST seen before, filed under the
  length of its sequence, closer than the maximal distance, and made from the original AST by
  its sequence. The key of an AST is its text without tokens and locations.
\<close>

section \<open>Keys\<close>

definition ast_key :: "jsval \<Rightarrow> jsval" where
  "ast_key ast = json_text (ASTNodeRemoveExtraAttributesDeep ast)"

lemma json_text_idem [simp]: "json_text (json_text v) = json_text v"
  by (rule json_text_of_json [OF json_text_is_json])

lemma RemoveLoc_function [simp]: "is_function_value (ASTNodeRemoveLocDeep v) = is_function_value v"
  by (cases v) simp_all

lemma json_text_function: "\<not> is_function_value (json_text v)"
proof (cases v)
  case (JNum n)
  then show ?thesis by (cases n) simp_all
qed simp_all

lemma filter_no_function [simp]:
  "filter (\<lambda>(k, v). \<not> is_function_value v) (map (\<lambda>(k, v). (k, json_text v)) kvs)
   = map (\<lambda>(k, v). (k, json_text v)) kvs"
  by (induction kvs) (auto simp: json_text_function)

lemma json_num_RemoveLoc [simp]: "ASTNodeRemoveLocDeep (json_num n) = json_num n"
  by (cases n) simp_all

text \<open>Removing attributes and writing to text commute.\<close>

lemma filtered_properties:
  assumes "\<And>k v. (k, v) \<in> set kvs \<Longrightarrow> json_text (f v) = f (json_text v)"
    and "\<And>v. is_function_value (f v) = is_function_value v"
  shows "map (\<lambda>(k, v). (k, json_text v)) (filter (\<lambda>(k, v). \<not> is_function_value v)
      (filter (\<lambda>(k, _). k \<notin> X) (map (\<lambda>(k, v). (k, f v)) kvs)))
    = filter (\<lambda>(k, _). k \<notin> X) (map (\<lambda>(k, v). (k, f v))
      (map (\<lambda>(k, v). (k, json_text v)) (filter (\<lambda>(k, v). \<not> is_function_value v) kvs)))"
  using assms by (induction kvs) auto

lemma json_text_RemoveLoc: "json_text (ASTNodeRemoveLocDeep v) = ASTNodeRemoveLocDeep (json_text v)"
proof (induction v rule: ASTNodeRemoveLocDeep.induct)
  case (1 kvs)
  then show ?case
    using filtered_properties [of kvs ASTNodeRemoveLocDeep "{''range'', ''loc''}"]
    by (simp del: insert_iff map_map filter_filter)
qed (auto simp: comp_def)

text \<open>The attributes of the root are removed before those below.\<close>

lemma RemoveAttrsDeep_obj:
  "ASTNodeRemoveAttrsDeep (JObj kvs) names =
   JObj (filter (\<lambda>(k, _). k \<notin> set names) (map (\<lambda>(k, v). (k, ASTNodeRemoveLocDeep v)) kvs))"
  by (simp add: filter_map comp_def case_prod_unfold)

lemma json_text_RemoveAttrsDeep:
  "json_text (ASTNodeRemoveAttrsDeep v names) = ASTNodeRemoveAttrsDeep (json_text v) names"
proof (cases v)
  case (JNum n)
  then show ?thesis by (cases n) simp_all
next
  case (JObj kvs)
  then show ?thesis
    using filtered_properties [of kvs ASTNodeRemoveLocDeep "set names"]
    by (simp add: RemoveAttrsDeep_obj json_text_RemoveLoc
        del: ASTNodeRemoveAttrsDeep.simps map_map filter_filter)
qed (simp_all add: comp_def json_text_RemoveLoc)

lemma RemoveAttrsDeep_idem:
  "ASTNodeRemoveAttrsDeep (ASTNodeRemoveAttrsDeep v names) names = ASTNodeRemoveAttrsDeep v names"
proof (cases v)
  case (JObj kvs)
  then show ?thesis
    by (simp add: RemoveAttrsDeep_obj filter_map comp_def case_prod_unfold del: ASTNodeRemoveAttrsDeep.simps)
qed (simp_all add: comp_def)

lemma ast_key_json [simp]: "ast_key (json_text v) = ast_key v"
  by (simp only: ast_key_def ASTNodeRemoveExtraAttributesDeep_def json_text_RemoveAttrsDeep json_text_idem)

lemma ast_key_stripped [simp]: "ast_key (ASTNodeRemoveExtraAttributesDeep v) = ast_key v"
  by (simp add: ast_key_def ASTNodeRemoveExtraAttributesDeep_def RemoveAttrsDeep_idem
      del: ASTNodeRemoveAttrsDeep.simps)

lemma ast_key_idem [simp]: "ast_key (ast_key v) = ast_key v"
proof -
  have "ast_key (ast_key v) = ast_key (json_text (ASTNodeRemoveExtraAttributesDeep v))"
    by (simp only: ast_key_def [of v])
  then show ?thesis by simp
qed

section \<open>The invariant\<close>

text \<open>
  \<open>derives L ori ms k\<close>: applying the sequence to the original AST, where tokens and locations
  may be dropped or added before every step, ends at an AST with key \<open>k\<close>.
\<close>

inductive derives :: "lodash \<Rightarrow> jsval \<Rightarrow> mutationSequence \<Rightarrow> jsval \<Rightarrow> bool" for L ori where
  start: "derives L ori [] (ast_key ori)"
| step: "derives L ori ms (ast_key b) \<Longrightarrow> apply_mutation L m b = Inr a \<Longrightarrow>
    derives L ori (ms @ [m]) (ast_key a)"

inductive_simps derives_Nil: "derives L ori [] k"

inductive_cases derives_snocE: "derives L ori (ms @ [m]) k"

lemma derives_key: "derives L ori ms k \<Longrightarrow> ast_key k = k"
  by (induction rule: derives.induct) simp_all

lemma apply_all_derives:
  "apply_all (apply_mutation L) ms ori = Inr a \<Longrightarrow> derives L ori ms (ast_key a)"
proof (induction ms arbitrary: a rule: rev_induct)
  case Nil
  then show ?case by (simp add: derives.start)
next
  case (snoc m ms)
  then obtain b where b: "apply_all (apply_mutation L) ms ori = Inr b" "apply_mutation L m b = Inr a"
    by (auto simp: apply_all_append)
  from derives.step [OF snoc.IH [OF b(1)] b(2)] show ?case .
qed

text \<open>The bases with their distances.\<close>

definition bases :: "'r seq_gen \<Rightarrow> (jsnum \<times> jsval \<times> 'r ast_info) set" where
  "bases st = {(d, k, info). \<exists>m. (d, m) \<in> set (dist_ast_infoMap st) \<and> (k, info) \<in> set m}"

definition base_ok :: "lodash \<Rightarrow> seq_config \<Rightarrow> (jsval \<times> jsnum) list \<Rightarrow> jsnum \<times> jsval \<times> mutationSequence \<Rightarrow> bool" where
  "base_ok L cfg known b = (case b of (d, k, ms) \<Rightarrow>
     d = distance ms \<and> d < maxDistance cfg \<and> k \<in> fst ` set known \<and> derives L (oriAST cfg) ms k)"

definition seq_inv :: "lodash \<Rightarrow> seq_config \<Rightarrow> 'r seq_gen \<Rightarrow> bool" where
  "seq_inv L cfg st \<longleftrightarrow>
     (\<forall>(d, k, info) \<in> bases st. base_ok L cfg (ast_DistMap st) (d, k, mutationSeq info))"

lemma seq_invD:
  "seq_inv L cfg st \<Longrightarrow> (d, k, info) \<in> bases st \<Longrightarrow> d = distance (mutationSeq info) \<and> d < maxDistance cfg \<and>
   k \<in> fst ` set (ast_DistMap st) \<and> derives L (oriAST cfg) (mutationSeq info) k"
  by (auto simp: seq_inv_def base_ok_def)

lemma map_of_base:
  "map_of (dist_ast_infoMap st) d = Some m \<Longrightarrow> map_of m k = Some info \<Longrightarrow> (d, k, info) \<in> bases st"
  by (auto simp: bases_def dest: map_of_SomeD)

text \<open>What the operations on the maps do to the bases.\<close>

lemma map_entry_mem:
  "(k', v') \<in> set (AList.map_entry k f al) \<Longrightarrow> (k', v') \<in> set al \<or> (k' = k \<and> (\<exists>v. (k, v) \<in> set al \<and> v' = f v))"
  by (induction al) (auto split: if_splits)

lemma infoMap_at_base: "(k, info) \<in> set (infoMap_at st d) \<Longrightarrow> (d, k, info) \<in> bases st"
  by (cases "map_of (dist_ast_infoMap st) d") (auto simp: infoMap_at_def bases_def dest: map_of_SomeD)

lemma bases_add:
  "bases (st\<lparr>sg_rng := r, dist_ast_infoMap := AList.update d (AList.update k info (infoMap_at st d)) (dist_ast_infoMap st)\<rparr>)
   \<subseteq> insert (d, k, info) (bases st)"
proof
  fix b assume "b \<in> bases (st\<lparr>sg_rng := r, dist_ast_infoMap := AList.update d (AList.update k info (infoMap_at st d)) (dist_ast_infoMap st)\<rparr>)"
  then obtain d' k' i m where b: "b = (d', k', i)"
    "(d', m) \<in> set (AList.update d (AList.update k info (infoMap_at st d)) (dist_ast_infoMap st))" "(k', i) \<in> set m"
    by (auto simp: bases_def)
  show "b \<in> insert (d, k, info) (bases st)"
  proof (cases "(d', m) \<in> set (dist_ast_infoMap st)")
    case True
    with b show ?thesis by (auto simp: bases_def)
  next
    case False
    with b(2) have "d' = d" "m = AList.update k info (infoMap_at st d)"
      using set_update_subset by fast+
    with b(1,3) show ?thesis using set_update_subset [of k info "infoMap_at st d"] infoMap_at_base by fast
  qed
qed

lemma bases_store:
  "(d', k', i) \<in> bases (store_gen d k gen st) \<Longrightarrow>
   \<exists>i'. (d', k', i') \<in> bases st \<and> mutationSeq i = mutationSeq i'"
  by (fastforce simp: bases_def store_gen_def dest: map_entry_mem)

lemma store_gen_fields [simp]:
  "ast_DistMap (store_gen d k gen st) = ast_DistMap st" "bins (store_gen d k gen st) = bins st"
  by (simp_all add: store_gen_def)

lemma seq_inv_store: "seq_inv L cfg st \<Longrightarrow> seq_inv L cfg (store_gen d k gen st)"
  by (fastforce simp: seq_inv_def dest: bases_store)

lemma seq_inv_subset:
  "seq_inv L cfg st \<Longrightarrow> bases st' \<subseteq> bases st \<Longrightarrow> fst ` set (ast_DistMap st) \<subseteq> fst ` set (ast_DistMap st') \<Longrightarrow>
   seq_inv L cfg st'"
  by (fastforce simp: seq_inv_def base_ok_def)

lemma drop_base_Inr:
  assumes "drop_base k ms st = Inr st'"
  shows "bases st' \<subseteq> bases st" and "ast_DistMap st' = ast_DistMap st"
proof -
  have st': "st' = st\<lparr>dist_ast_infoMap := AList.map_entry (distance ms) (AList.delete k) (dist_ast_infoMap st)\<rparr>"
    using assms by (auto simp: drop_base_def)
  have sub: "set (AList.delete k m) \<subseteq> set m" for m by (auto simp: AList.delete_eq)
  show "bases st' \<subseteq> bases st"
    using sub by (fastforce simp: bases_def st' dest!: map_entry_mem)
  show "ast_DistMap st' = ast_DistMap st" by (simp add: st')
qed

section \<open>Adding an AST\<close>

lemma check_compiled_maps:
  assumes "check_compiled T cfg ast st = Inr (result, st')"
  shows "dist_ast_infoMap st' = dist_ast_infoMap st" and "ast_DistMap st' = ast_DistMap st"
    and "bases st' = bases st" and "result \<noteq> ALREADY_SEEN_AST"
proof -
  have *: "(\<exists>b. st' = st\<lparr>bins := b\<rparr>) \<and> result \<noteq> ALREADY_SEEN_AST"
  proof (cases "only_compilable cfg")
    case True
    with assms obtain c where "(case c of
            CompileFailed \<Rightarrow> Inr (NOT_COMPILABLE, st)
          | Compiled \<Rightarrow> Inr (SUCCESS, st)
          | Binaries bs \<Rightarrow>
              let bins_without_swarm = strip_binaries bs in
              if bins_without_swarm \<in> set (bins st) then Inr (ALREADY_SEEN_BIN, st)
              else Inr (SUCCESS, st\<lparr>bins := bins st @ [bins_without_swarm]\<rparr>))
        = (Inr (result, st') :: (addKnownAST_result \<times> 'a seq_gen) result)"
      by (auto simp: check_compiled_def)
    then show ?thesis
      by (cases c) (auto simp: Let_def intro: exI [of _ "bins st"] split: if_splits)
  qed (use assms in \<open>auto simp: check_compiled_def intro: exI [of _ "bins st"]\<close>)
  then show d: "dist_ast_infoMap st' = dist_ast_infoMap st" and "ast_DistMap st' = ast_DistMap st"
    and "result \<noteq> ALREADY_SEEN_AST"
    by auto
  show "bases st' = bases st" by (simp add: bases_def d)
qed

lemma add_base_Returned:
  assumes "add_base D cfg ASTCopy k ms infos st = Returned st'"
  obtains gen r seed where "new_mutation_gen D ASTCopy infos (allowedTypes cfg) (newNodeTypes cfg)
      (replaceableNodeType cfg) seed = Returned gen"
    and "st' = st\<lparr>sg_rng := r, dist_ast_infoMap := AList.update (distance ms)
      (AList.update k \<lparr>faultspaceInfo = infos, mutationGen = gen, mutationSeq = ms\<rparr> (infoMap_at st (distance ms)))
      (dist_ast_infoMap st)\<rparr>"
  using assms by (auto simp: add_base_def Let_def split: prod.splits)

lemma addKnownAST_key:
  "addKnownAST D T cfg ast ms spaces st =
     (if map_of (ast_DistMap st) (ast_key ast) \<noteq> None then Returned (ALREADY_SEEN_AST, st)
      else
        let st1 = st\<lparr>ast_DistMap := AList.update (ast_key ast) (distance ms) (ast_DistMap st)\<rparr> in
        bind_outcome
          (if distance ms < maxDistance cfg then
             bind_outcome (outcome_of (known_infos (lib_lodash D) cfg ms spaces)) (\<lambda>infos.
               if infos \<noteq> [] then add_base D cfg (ASTNodeRemoveExtraAttributesDeep ast) (ast_key ast) ms infos st1
               else Returned st1)
           else Returned st1)
          (\<lambda>st2. outcome_of (check_compiled T cfg (ASTNodeRemoveExtraAttributesDeep ast) st2)))"
  by (simp only: addKnownAST_def ast_key_def Let_def)

text \<open>The base made of an AST, and what \<open>addKnownAST\<close> does to one it has not seen.\<close>

definition base_made_of ::
  "'r libs \<Rightarrow> seq_config \<Rightarrow> jsval \<Rightarrow> mutationSequence \<Rightarrow> known_spaces \<Rightarrow> 'r ast_info \<Rightarrow> bool" where
  "base_made_of D cfg ast ms spaces info \<longleftrightarrow> mutationSeq info = ms \<and>
     known_infos (lib_lodash D) cfg ms spaces = Inr (faultspaceInfo info) \<and>
     (\<exists>seed. new_mutation_gen D (ASTNodeRemoveExtraAttributesDeep ast) (faultspaceInfo info) (allowedTypes cfg)
        (newNodeTypes cfg) (replaceableNodeType cfg) seed = Returned (mutationGen info))"

lemma addKnownAST_new:
  assumes "addKnownAST D T cfg ast ms spaces st = Returned (result, st')"
    and "map_of (ast_DistMap st) (ast_key ast) = None"
  shows "result \<noteq> ALREADY_SEEN_AST"
    and "ast_DistMap st' = AList.update (ast_key ast) (distance ms) (ast_DistMap st)"
    and "(d, k, info) \<in> bases st' \<Longrightarrow> (d, k, info) \<in> bases st \<or>
      d = distance ms \<and> distance ms < maxDistance cfg \<and> k = ast_key ast \<and> base_made_of D cfg ast ms spaces info"
proof -
  let ?copy = "ASTNodeRemoveExtraAttributesDeep ast"
  let ?st1 = "st\<lparr>ast_DistMap := AList.update (ast_key ast) (distance ms) (ast_DistMap st)\<rparr>"
  obtain st2 where two: "(if distance ms < maxDistance cfg then
             bind_outcome (outcome_of (known_infos (lib_lodash D) cfg ms spaces)) (\<lambda>infos.
               if infos \<noteq> [] then add_base D cfg ?copy (ast_key ast) ms infos ?st1
               else Returned ?st1)
           else Returned ?st1) = Returned st2"
    and c: "check_compiled T cfg ?copy st2 = Inr (result, st')"
    using assms by (auto simp: addKnownAST_key Let_def)
  have known: "ast_DistMap st2 = ast_DistMap ?st1"
    using two by (auto elim!: add_base_Returned split: if_splits)
  have b: "bases st2 \<subseteq> {(d, k, info). (d, k, info) \<in> bases st \<or>
      d = distance ms \<and> distance ms < maxDistance cfg \<and> k = ast_key ast \<and> base_made_of D cfg ast ms spaces info}"
  proof (cases "st2 = ?st1")
    case True
    then show ?thesis by (auto simp: bases_def)
  next
    case False
    with two obtain infos where close: "distance ms < maxDistance cfg"
      and infos: "known_infos (lib_lodash D) cfg ms spaces = Inr infos"
      and a: "add_base D cfg ?copy (ast_key ast) ms infos ?st1 = Returned st2"
      by (auto split: if_splits)
    obtain gen r seed where gen: "new_mutation_gen D ?copy infos (allowedTypes cfg) (newNodeTypes cfg)
        (replaceableNodeType cfg) seed = Returned gen"
      and st2: "st2 = ?st1\<lparr>sg_rng := r, dist_ast_infoMap := AList.update (distance ms)
        (AList.update (ast_key ast) \<lparr>faultspaceInfo = infos, mutationGen = gen, mutationSeq = ms\<rparr>
          (infoMap_at ?st1 (distance ms))) (dist_ast_infoMap ?st1)\<rparr>"
      by (rule add_base_Returned [OF a])
    have "bases st2 \<subseteq> insert (distance ms, ast_key ast, \<lparr>faultspaceInfo = infos, mutationGen = gen, mutationSeq = ms\<rparr>)
        (bases ?st1)"
      unfolding st2 by (rule bases_add)
    moreover have "bases ?st1 = bases st" by (simp add: bases_def)
    moreover have "base_made_of D cfg ast ms spaces \<lparr>faultspaceInfo = infos, mutationGen = gen, mutationSeq = ms\<rparr>"
      using infos gen by (auto simp: base_made_of_def)
    ultimately show ?thesis using close by auto
  qed
  note m = check_compiled_maps [OF c]
  show "result \<noteq> ALREADY_SEEN_AST" by (rule m(4))
  show "ast_DistMap st' = AList.update (ast_key ast) (distance ms) (ast_DistMap st)"
    using m(2) known by simp
  show "(d, k, info) \<in> bases st \<or>
      d = distance ms \<and> distance ms < maxDistance cfg \<and> k = ast_key ast \<and> base_made_of D cfg ast ms spaces info"
    if "(d, k, info) \<in> bases st'"
    using that b m(3) by blast
qed

lemma addKnownAST_seen:
  "map_of (ast_DistMap st) (ast_key ast) \<noteq> None \<Longrightarrow>
   addKnownAST D T cfg ast ms spaces st = Returned (ALREADY_SEEN_AST, st)"
  by (simp add: addKnownAST_key)

lemma addKnownAST_inv:
  assumes "seq_inv L cfg st" and "derives L (oriAST cfg) ms (ast_key ast)"
    and "addKnownAST D T cfg ast ms spaces st = Returned (result, st')"
  shows "seq_inv L cfg st' \<and> fst ` set (ast_DistMap st') = insert (ast_key ast) (fst ` set (ast_DistMap st))"
proof (cases "map_of (ast_DistMap st) (ast_key ast) = None")
  case True
  note n = addKnownAST_new [OF assms(3) True]
  have dom: "fst ` set (ast_DistMap st') = insert (ast_key ast) (fst ` set (ast_DistMap st))"
    by (simp add: n(2) dom_update)
  have "base_ok L cfg (ast_DistMap st') (d, k, mutationSeq info)" if "(d, k, info) \<in> bases st'" for d k info
    using n(3) [OF that] seq_invD [OF assms(1)] assms(2) dom by (auto simp: base_ok_def base_made_of_def)
  with dom show ?thesis by (auto simp: seq_inv_def)
next
  case False
  then have "st' = st" using assms(3) addKnownAST_seen by fastforce
  moreover have "ast_key ast \<in> fst ` set (ast_DistMap st)" using False by (simp add: map_of_eq_None_iff)
  ultimately show ?thesis using assms(1) by (simp add: insert_absorb)
qed

section \<open>The iterator\<close>

text \<open>A sequence answered by a call: its AST was not known, and is now, at its distance.\<close>

definition fresh_sequence ::
  "lodash \<Rightarrow> seq_config \<Rightarrow> (jsval \<times> jsnum) list \<Rightarrow> (jsval \<times> jsnum) list \<Rightarrow> mutationSequence \<Rightarrow> bool" where
  "fresh_sequence L cfg known known' ms \<longleftrightarrow> ms \<noteq> [] \<and> distance ms \<le> maxDistance cfg \<and>
     (\<exists>k. map_of known k = None \<and> map_of known' k = Some (distance ms) \<and> derives L (oriAST cfg) ms k)"

lemma distance_snoc: "distance ms < d \<Longrightarrow> distance (ms @ [m]) \<le> d"
  by (cases d) (auto simp: distance_def)

lemma requested_base_Base:
  assumes "requested_base cfg ast st = Inr (Base d k a info)"
  shows "(d, k, info) \<in> bases st" and "a = ast" and "k = json_text ast"
    and "map_of (dist_ast_infoMap st) d \<noteq> None"
    and "map_of (ast_DistMap st) k = Some d" and "d < maxDistance cfg"
    and "map_of (the (map_of (dist_ast_infoMap st) d)) k = Some info"
  using assms
  by (auto simp: requested_base_def Let_def split: option.split_asm if_split_asm intro: map_of_base)

text \<open>How many rounds a call with a requested AST can take: one per mutation its generator has
  left.\<close>

definition requested_valid :: "seq_config \<Rightarrow> jsval \<Rightarrow> 'r seq_gen \<Rightarrow> bool" where
  "requested_valid cfg ast st \<longleftrightarrow> (case requested_base cfg ast st of
     Inr (Base d k a info) \<Rightarrow> mutation_gen_valid (mutationGen info) | _ \<Rightarrow> True)"

definition requested_left :: "'r libs \<Rightarrow> seq_config \<Rightarrow> jsval \<Rightarrow> 'r seq_gen \<Rightarrow> nat" where
  "requested_left D cfg ast st = (case requested_base cfg ast st of
     Inr (Base d k a info) \<Rightarrow> mutations_left D (mutationGen info) | _ \<Rightarrow> 0)"

context generator_libs
begin

lemma pick_base_Base:
  assumes "pick_base D cfg st = Returned (Base d k a info, st')"
  shows "(d, k, info) \<in> bases st" and "a = k" and "\<exists>r. st' = st\<lparr>sg_rng := r\<rparr>"
proof -
  let ?maps = "pickable cfg st"
  obtain i r1 where i: "pickone (lib_chance D) (length ?maps) (sg_rng st) = (i, r1)" by fastforce
  obtain dist m where m: "?maps ! i = (dist, m)" by fastforce
  obtain j r2 where j: "pickone (lib_chance D) (length (map fst m)) r1 = (j, r2)" by fastforce
  have ne: "?maps \<noteq> []" using assms by (auto simp: pick_base_def)
  then have "i < length ?maps" using pickone_range [of "length ?maps" "sg_rng st"] i by simp
  then have mem: "(dist, m) \<in> set (dist_ast_infoMap st)"
    using nth_mem [of i ?maps] m by (auto simp: pickable_def)
  have "case map_of m (map fst m ! j) of None \<Rightarrow> False | Some info' \<Rightarrow>
      d = dist \<and> k = map fst m ! j \<and> a = k \<and> info = info' \<and> st' = st\<lparr>sg_rng := r2\<rparr>"
    using assms ne i m j by (auto simp: pick_base_def Let_def split: option.splits)
  then show "(d, k, info) \<in> bases st" "a = k" "\<exists>r. st' = st\<lparr>sg_rng := r\<rparr>"
    using mem by (auto simp: bases_def split: option.splits dest: map_of_SomeD)
qed

lemma pick_base_other:
  "pick_base D cfg st = Returned (choice, st') \<Longrightarrow> (\<exists>r. st' = st\<lparr>sg_rng := r\<rparr>)"
  by (auto simp: pick_base_def Let_def intro: exI [of _ "sg_rng st"]
      split: if_split_asm prod.split_asm option.split_asm)

lemma choose_base_state:
  assumes "choose_base D cfg request st = Returned (choice, st')"
  obtains r where "st' = st\<lparr>sg_rng := r\<rparr>"
  using assms pick_base_other [of cfg st choice st']
  by (auto simp: choose_base_def split: option.splits) (metis seq_gen.surjective seq_gen.update_convs(1))

lemma choose_base_Base:
  assumes "choose_base D cfg request st = Returned (Base d k a info, st')" and "seq_inv L cfg st"
  shows "(d, k, info) \<in> bases st" and "ast_key a = k"
proof -
  show mem: "(d, k, info) \<in> bases st"
    using assms(1) pick_base_Base(1) requested_base_Base(1)
    by (auto simp: choose_base_def split: option.split_asm)
  then have key: "ast_key k = k" using derives_key seq_invD [OF assms(2)] by blast
  show "ast_key a = k"
  proof (cases "requestAST request")
    case None
    with assms(1) have "a = k" using pick_base_Base(2) by (simp add: choose_base_def)
    with key show ?thesis by simp
  next
    case (Some ast)
    with assms(1) have "requested_base cfg ast st = Inr (Base d k a info)" by (auto simp: choose_base_def)
    from requested_base_Base(2,3) [OF this] key show ?thesis by (metis ast_key_json)
  qed
qed

lemma extend_base_inv:
  assumes "extend_base D T cfg ast info m st = Returned (result, ms, st')"
    and "seq_inv (lib_lodash D) cfg st" and "derives (lib_lodash D) (oriAST cfg) (mutationSeq info) (ast_key ast)"
  shows "seq_inv (lib_lodash D) cfg st'" and "fst ` set (ast_DistMap st) \<subseteq> fst ` set (ast_DistMap st')"
    and "ms = mutationSeq info @ [m]"
    and "result = SUCCESS \<Longrightarrow> distance (mutationSeq info) < maxDistance cfg \<Longrightarrow>
      fresh_sequence (lib_lodash D) cfg (ast_DistMap st) (ast_DistMap st') ms"
proof -
  obtain a infos where a: "apply_mutation (lib_lodash D) m ast = Inr a"
    and ms: "ms = mutationSeq info @ [m]"
    and add: "addKnownAST D T cfg a ms (SpaceInfos infos) st = Returned (result, st')"
    using assms(1) by (auto simp: extend_base_def Let_def)
  have d: "derives (lib_lodash D) (oriAST cfg) ms (ast_key a)"
    unfolding ms by (rule derives.step [OF assms(3) a])
  note inv = addKnownAST_inv [OF assms(2) d add]
  then show "seq_inv (lib_lodash D) cfg st'" "fst ` set (ast_DistMap st) \<subseteq> fst ` set (ast_DistMap st')"
    by auto
  show "ms = mutationSeq info @ [m]" by (rule ms)
  assume s: "result = SUCCESS" and close: "distance (mutationSeq info) < maxDistance cfg"
  have new: "map_of (ast_DistMap st) (ast_key a) = None"
  proof (rule ccontr)
    assume "map_of (ast_DistMap st) (ast_key a) \<noteq> None"
    from addKnownAST_seen [OF this] add s show False by simp
  qed
  with addKnownAST_new(2) [OF add new] d distance_snoc [OF close, of m] ms
  show "fresh_sequence (lib_lodash D) cfg (ast_DistMap st) (ast_DistMap st') ms"
    by (auto simp: fresh_sequence_def update_conv')
qed

text \<open>One round, as the cases of its answer.\<close>

lemma seq_gen_round:
  assumes "seq_gen_loop D T signals cfg request (Suc n) i st = Returned (reply, st')"
  obtains (quit) "reply = TerminateRequested" "st' = st"
  | (stop) choice where "choose_base D cfg request st = Returned (choice, st')"
      "reply = Finished \<or> reply = ExhaustedForRequestedAST"
  | (base) d k a info st1 r gen where "choose_base D cfg request st = Returned (Base d k a info, st1)"
      "mutation_gen_next D (mutation_request request) (mutationGen info) = Returned (r, gen)"
      "(case r of
          NoMutation \<Rightarrow>
            bind_outcome (outcome_of (drop_base k (mutationSeq info) (store_gen d k gen st1))) (\<lambda>st3.
            if requestAST request \<noteq> None
            then Returned (if isAllASTDone cfg st3 then Finished else ExhaustedForRequestedAST, st3)
            else seq_gen_loop D T signals cfg request n (Suc i) st3)
        | RequestNotFulfilled \<Rightarrow> Returned (ExhaustedForRequestedAST, store_gen d k gen st1)
        | NewMutation m \<Rightarrow>
            bind_outcome (extend_base D T cfg a info m (store_gen d k gen st1)) (\<lambda>(result, ms, st3).
            if answers_new (lib_names D) cfg result ms then Returned (NewSequence ms, st3)
            else seq_gen_loop D T signals cfg request n (Suc i) st3)) = Returned (reply, st')"
proof (cases "signals i")
  case False
  with assms obtain choice st1 where c: "choose_base D cfg request st = Returned (choice, st1)" by auto
  show thesis
  proof (cases choice)
    case (Base d k a info)
    with assms False c obtain r gen where g: "mutation_gen_next D (mutation_request request) (mutationGen info)
      = Returned (r, gen)" by auto
    show thesis by (rule base [OF c [unfolded Base] g]) (use assms False c Base g in \<open>simp add: Let_def\<close>)
  qed (use assms False c stop in auto)
qed (use assms quit in simp)

lemma seq_gen_loop_inv:
  "seq_inv (lib_lodash D) cfg st \<Longrightarrow> seq_gen_loop D T signals cfg request n i st = Returned (reply, st') \<Longrightarrow>
   seq_inv (lib_lodash D) cfg st' \<and> fst ` set (ast_DistMap st) \<subseteq> fst ` set (ast_DistMap st') \<and>
   (\<forall>ms. reply = NewSequence ms \<longrightarrow>
      fresh_sequence (lib_lodash D) cfg (ast_DistMap st) (ast_DistMap st') ms \<and>
      pass_must_include (lib_names D) cfg ms)"
proof (induction n arbitrary: i st)
  case (Suc n)
  let ?L = "lib_lodash D"
  show ?case
  proof (rule seq_gen_round [OF Suc.prems(2)])
    fix choice
    assume c: "choose_base D cfg request st = Returned (choice, st')"
      and r: "reply = Finished \<or> reply = ExhaustedForRequestedAST"
    obtain r where "st' = st\<lparr>sg_rng := r\<rparr>" by (rule choose_base_state [OF c])
    with r Suc.prems(1) seq_inv_subset [OF Suc.prems(1), of st'] show ?thesis by (auto simp: bases_def)
  next
    fix d k a info st1 r gen
    assume c: "choose_base D cfg request st = Returned (Base d k a info, st1)"
      and out: "(case r of
          NoMutation \<Rightarrow>
            bind_outcome (outcome_of (drop_base k (mutationSeq info) (store_gen d k gen st1))) (\<lambda>st3.
            if requestAST request \<noteq> None
            then Returned (if isAllASTDone cfg st3 then Finished else ExhaustedForRequestedAST, st3)
            else seq_gen_loop D T signals cfg request n (Suc i) st3)
        | RequestNotFulfilled \<Rightarrow> Returned (ExhaustedForRequestedAST, store_gen d k gen st1)
        | NewMutation m \<Rightarrow>
            bind_outcome (extend_base D T cfg a info m (store_gen d k gen st1)) (\<lambda>(result, ms, st3).
            if answers_new (lib_names D) cfg result ms then Returned (NewSequence ms, st3)
            else seq_gen_loop D T signals cfg request n (Suc i) st3)) = Returned (reply, st')"
    obtain rr where st1: "st1 = st\<lparr>sg_rng := rr\<rparr>" by (rule choose_base_state [OF c])
    let ?st2 = "store_gen d k gen st1"
    have inv2: "seq_inv ?L cfg ?st2"
      using seq_inv_subset [OF Suc.prems(1), of st1] by (intro seq_inv_store) (simp add: st1 bases_def)
    have known2: "ast_DistMap ?st2 = ast_DistMap st" by (simp add: st1)
    note b = choose_base_Base [OF c Suc.prems(1)]
    have der: "derives ?L (oriAST cfg) (mutationSeq info) (ast_key a)" and close: "distance (mutationSeq info) < maxDistance cfg"
      using seq_invD [OF Suc.prems(1) b(1)] b(2) by auto
    show ?thesis
    proof (cases r)
      case NoMutation
      with out obtain st3 where st3: "drop_base k (mutationSeq info) ?st2 = Inr st3"
        and rest: "(if requestAST request \<noteq> None
            then Returned (if isAllASTDone cfg st3 then Finished else ExhaustedForRequestedAST, st3)
            else seq_gen_loop D T signals cfg request n (Suc i) st3) = Returned (reply, st')"
        by auto
      note db = drop_base_Inr [OF st3]
      have inv3: "seq_inv ?L cfg st3" using seq_inv_subset [OF inv2 db(1)] db(2) by simp
      show ?thesis
      proof (cases "requestAST request = None")
        case True
        with rest have "seq_gen_loop D T signals cfg request n (Suc i) st3 = Returned (reply, st')" by simp
        from Suc.IH [OF inv3 this] db(2) known2 show ?thesis by simp
      qed (use rest inv3 db(2) known2 in \<open>auto split: if_splits\<close>)
    next
      case RequestNotFulfilled
      with out inv2 known2 show ?thesis by simp
    next
      case (NewMutation m)
      with out obtain result ms st3 where e: "extend_base D T cfg a info m ?st2 = Returned (result, ms, st3)"
        and rest: "(if answers_new (lib_names D) cfg result ms then Returned (NewSequence ms, st3)
            else seq_gen_loop D T signals cfg request n (Suc i) st3) = Returned (reply, st')"
        by auto
      note x = extend_base_inv [OF e inv2 der]
      show ?thesis
      proof (cases "answers_new (lib_names D) cfg result ms")
        case True
        with rest x close known2 show ?thesis by auto
      next
        case False
        with rest have "seq_gen_loop D T signals cfg request n (Suc i) st3 = Returned (reply, st')" by (simp del: answers_new_def)
        note ih = Suc.IH [OF x(1) this]
        have "fst ` set (ast_DistMap st) \<subseteq> fst ` set (ast_DistMap st3)" using x(2) known2 by simp
        moreover have "fresh_sequence ?L cfg (ast_DistMap st) (ast_DistMap st') ms'"
          if "fresh_sequence ?L cfg (ast_DistMap st3) (ast_DistMap st') ms'" for ms'
          using that calculation by (auto simp: fresh_sequence_def map_of_eq_None_iff)
        ultimately show ?thesis using ih by blast
      qed
    qed
  qed (use Suc.prems(1) in auto)
qed simp

lemma seq_gen_next_inv:
  assumes "seq_inv (lib_lodash D) cfg st" and "seq_gen_next D T signals cfg request n st = Returned (reply, st')"
  shows "seq_inv (lib_lodash D) cfg st'"
    and "fst ` set (ast_DistMap st) \<subseteq> fst ` set (ast_DistMap st')"
    and "reply = NewSequence ms \<Longrightarrow> fresh_sequence (lib_lodash D) cfg (ast_DistMap st) (ast_DistMap st') ms \<and>
      pass_must_include (lib_names D) cfg ms"
proof -
  have "seq_gen_loop D T signals cfg request n 0 st = Returned (reply, st')"
    using assms(2) by (auto simp: seq_gen_next_def)
  note inv = seq_gen_loop_inv [OF assms(1) this]
  then show "seq_inv (lib_lodash D) cfg st'" "fst ` set (ast_DistMap st) \<subseteq> fst ` set (ast_DistMap st')"
    by blast+
  show "reply = NewSequence ms \<Longrightarrow> fresh_sequence (lib_lodash D) cfg (ast_DistMap st) (ast_DistMap st') ms \<and>
      pass_must_include (lib_names D) cfg ms"
    using inv by blast
qed

text \<open>The other operations.\<close>

lemma new_seq_gen_inv:
  assumes "new_seq_gen D T cfg seed = Returned st"
  shows "seq_inv (lib_lodash D) cfg st" and "fst ` set (ast_DistMap st) = {ast_key (oriAST cfg)}"
proof -
  let ?st0 = "\<lparr>sg_rng = new_chance (lib_chance D) seed, bins = [], dist_ast_infoMap = [], ast_DistMap = []\<rparr>"
  obtain result where add: "addKnownAST D T cfg (oriAST cfg) [] (SpaceInfos (faultSpaceInfo_oriAST cfg)) ?st0
      = Returned (result, st)"
    using assms by (auto simp: new_seq_gen_def)
  have "seq_inv (lib_lodash D) cfg ?st0" by (simp add: seq_inv_def bases_def)
  from addKnownAST_inv [OF this derives.start add]
  show "seq_inv (lib_lodash D) cfg st" "fst ` set (ast_DistMap st) = {ast_key (oriAST cfg)}" by simp_all
qed

lemma fold_update_dom:
  "fst ` set (fold (\<lambda>x. AList.update (f x) v) xs al) = fst ` set al \<union> f ` set xs"
  by (induction xs arbitrary: al) (auto simp: dom_update)

lemma simplifyAST_inv:
  assumes "seq_inv L cfg st" and "simplifyAST L ast st = Inr (simplified, st')"
  shows "seq_inv L cfg st'"
proof -
  obtain dups where "st' = st\<lparr>ast_DistMap := fold (\<lambda>dup. AList.update (json_text dup) PosInf) dups (ast_DistMap st)\<rparr>"
    using assms(2) by (auto simp: simplifyAST_def)
  then show ?thesis
    using seq_inv_subset [OF assms(1), of st'] fold_update_dom [of json_text PosInf dups "ast_DistMap st"]
    by (simp add: bases_def)
qed

section \<open>A requested AST\<close>

lemma new_mutation_gen_returns: "new_mutation_gen D ast infos possible nts rts seed \<noteq> Unfinished"
proof -
  have "new_movement_gen D ast fss b r \<noteq> Unfinished" for fss b r
    using deletions.drain_returns by (auto simp: new_movement_gen_def Let_def simp del: drain.simps)
  then show ?thesis by (auto simp: new_mutation_gen_def Let_def)
qed

lemma addKnownAST_returns: "addKnownAST D T cfg ast ms spaces st \<noteq> Unfinished"
  by (auto simp: addKnownAST_def add_base_def Let_def new_mutation_gen_returns split: prod.splits)

lemma extend_base_returns: "extend_base D T cfg ast info m st \<noteq> Unfinished"
  by (auto simp: extend_base_def Let_def addKnownAST_returns)

text \<open>Adding an AST of another distance leaves a base alone.\<close>

lemma addKnownAST_apart:
  assumes "addKnownAST D T cfg ast ms spaces st = Returned (result, st')"
    and "d \<noteq> distance ms" and "map_of (ast_DistMap st) k \<noteq> None"
  shows "map_of (dist_ast_infoMap st') d = map_of (dist_ast_infoMap st) d"
    and "map_of (ast_DistMap st') k = map_of (ast_DistMap st) k"
proof -
  have *: "map_of (dist_ast_infoMap st') d = map_of (dist_ast_infoMap st) d \<and>
      map_of (ast_DistMap st') k = map_of (ast_DistMap st) k"
  proof (cases "map_of (ast_DistMap st) (ast_key ast) = None")
    case True
    then have "k \<noteq> ast_key ast" using assms(3) by auto
    then have "map_of (ast_DistMap st') k = map_of (ast_DistMap st) k"
      using addKnownAST_new(2) [OF assms(1) True] by (simp add: update_conv')
    moreover have "map_of (dist_ast_infoMap st') d = map_of (dist_ast_infoMap st) d"
      using assms(1,2) True
      by (auto simp: addKnownAST_key Let_def update_conv' elim!: add_base_Returned
          split: if_split_asm dest!: check_compiled_maps(1))
    ultimately show ?thesis by simp
  next
    case False
    with assms(1) addKnownAST_seen [OF False] show ?thesis by simp
  qed
  then show "map_of (dist_ast_infoMap st') d = map_of (dist_ast_infoMap st) d"
    and "map_of (ast_DistMap st') k = map_of (ast_DistMap st) k" by simp_all
qed

lemma requested_base_stays:
  assumes "requested_base cfg ast st = Inr (Base d k a info)" and "map_of (ast_DistMap st') k = Some d"
    and "map_of (dist_ast_infoMap st') d = Some m" and "map_of m k = Some info'"
  shows "requested_base cfg ast st' = Inr (Base d k a info')"
  using assms
  by (auto simp: requested_base_def Let_def split: option.split_asm if_split_asm)

lemma store_gen_lookup:
  assumes "requested_base cfg ast st = Inr (Base d k a info)"
  obtains m where "map_of (dist_ast_infoMap (store_gen d k gen st)) d = Some m"
    and "map_of m k = Some (info\<lparr>mutationGen := gen\<rparr>)"
  using requested_base_Base(4,7) [OF assms]
  by (auto simp: store_gen_def AList.map_of_map_entry split: option.splits)

lemma requested_after_round:
  assumes base: "requested_base cfg ast st = Inr (Base d k a info)" and inv: "seq_inv (lib_lodash D) cfg st"
    and e: "extend_base D T cfg a info m (store_gen d k gen st) = Returned (result, ms, st3)"
  shows "requested_base cfg ast st3 = Inr (Base d k a (info\<lparr>mutationGen := gen\<rparr>))"
proof -
  let ?st2 = "store_gen d k gen st"
  obtain newAST infos where ms: "ms = mutationSeq info @ [m]"
    and add: "addKnownAST D T cfg newAST ms (SpaceInfos infos) ?st2 = Returned (result, st3)"
    using e by (auto simp: extend_base_def Let_def)
  have d: "d = distance (mutationSeq info)" using seq_invD [OF inv requested_base_Base(1) [OF base]] by simp
  then have ne: "d \<noteq> distance ms" by (simp add: distance_def ms)
  have known: "map_of (ast_DistMap ?st2) k = Some d" using requested_base_Base(5) [OF base] by simp
  obtain mp where mp: "map_of (dist_ast_infoMap ?st2) d = Some mp"
    "map_of mp k = Some (info\<lparr>mutationGen := gen\<rparr>)"
    by (rule store_gen_lookup [OF base])
  have "map_of (dist_ast_infoMap st3) d = Some mp" "map_of (ast_DistMap st3) k = Some d"
    using addKnownAST_apart [OF add ne, of k] known mp(1) by simp_all
  then show ?thesis using mp(2) by (intro requested_base_stays [OF base])
qed

lemma seq_gen_loop_returns:
  assumes "requestAST request = Some ast"
  shows "seq_inv (lib_lodash D) cfg st \<Longrightarrow> requested_valid cfg ast st \<Longrightarrow> requested_left D cfg ast st < n \<Longrightarrow>
    seq_gen_loop D T signals cfg request n i st \<noteq> Unfinished"
proof (induction n arbitrary: i st)
  case (Suc n)
  show ?case
  proof (cases "requested_base cfg ast st")
    case (Inr choice)
    show ?thesis
    proof (cases choice)
      case (Base d k a info)
      with Inr have base: "requested_base cfg ast st = Inr (Base d k a info)" by simp
      have v: "mutation_gen_valid (mutationGen info)"
        and left: "mutations_left D (mutationGen info) < Suc n"
        using Suc.prems(2,3) base by (simp_all add: requested_valid_def requested_left_def)
      have step: "seq_gen_loop D T signals cfg request n (Suc i) st3 \<noteq> Unfinished"
        if g: "mutation_gen_next D (mutation_request request) (mutationGen info) = Returned (NewMutation m, gen)"
          and e: "extend_base D T cfg a info m (store_gen d k gen st) = Returned (result, ms, st3)" for m gen result ms st3
      proof (rule Suc.IH)
        note y = mutation_gen_next_yields [OF v g]
        note after = requested_after_round [OF base Suc.prems(1) e]
        show "requested_valid cfg ast st3" using y by (simp add: requested_valid_def after)
        show "requested_left D cfg ast st3 < n" using y left by (simp add: requested_left_def after)
        have b: "(d, k, info) \<in> bases st" "ast_key a = k"
          using choose_base_Base [of cfg request st d k a info st] base Suc.prems(1) assms
          by (auto simp: choose_base_def)
        show "seq_inv (lib_lodash D) cfg st3"
          using seq_invD [OF Suc.prems(1) b(1)] b(2)
          by (intro extend_base_inv(1) [OF e seq_inv_store [OF Suc.prems(1)]]) simp
      qed
      show ?thesis
        using base assms mutation_gen_next_returns [OF v] step
        by (auto simp: choose_base_def Let_def extend_base_returns split: gen_reply.splits if_splits)
    qed (use Inr assms in \<open>auto simp: choose_base_def\<close>)
  qed (use assms in \<open>auto simp: choose_base_def\<close>)
qed simp

lemma seq_gen_next_returns:
  assumes "requestAST request = Some ast" and "seq_inv (lib_lodash D) cfg st" and "requested_valid cfg ast st"
    and "requested_left D cfg ast st < n"
  shows "seq_gen_next D T signals cfg request n st \<noteq> Unfinished"
  using seq_gen_loop_returns [OF assms] by (auto simp: seq_gen_next_def)

end

end
