(* ===== verification/Driver.thy ===== *)
theory Driver
  imports SequenceInvariant FaultSpaces SpecifierParser
begin

text \<open>
  The iterative driver: the arguments of the command line (\<open>utils/bin.ts\<close>), the start of the
  generator and the handling of the requests of the client (\<open>utils/GenMutations.ts\<close>), and the
  one-shot mutation of a source (\<open>lib/mutate.ts\<close>, \<open>utils/Mutate.ts\<close>).

  Requests are handled one after the other. The handlers are asynchronous functions, but between
  their pauses every step on the shared state is synchronous. Files written are recorded in the
  state; reading the contract and parsing it are the caller's.
\<close>

section \<open>The command line\<close>

text \<open>What yargs hands over. An option without a default may be undefined;
  \<open>max-mutation-sequences-length\<close> is no declared option, and the strict mode refuses it, so it
  is always undefined.\<close>

record cli_args =
  arg_for_node_types :: "string list option"
  arg_replaceable_node_types :: "string list option"
  arg_mutation_types :: "string list"
  arg_must_include :: "string list option"
  arg_only_compilable :: bool
  arg_simplify :: bool
  arg_patched_src_dir :: "string option"
  arg_output_mutation :: bool
  arg_seed :: seed
  arg_mutation_space :: "string option"
  arg_max_length :: "jsnum option"

text \<open>The defaults of the options; the directory is demanded.\<close>

definition default_args :: "string \<Rightarrow> cli_args" where
  "default_args dir = \<lparr>arg_for_node_types = None, arg_replaceable_node_types = None,
     arg_mutation_types = allMutationTypes, arg_must_include = None, arg_only_compilable = True,
     arg_simplify = False, arg_patched_src_dir = Some dir, arg_output_mutation = False,
     arg_seed = SeedString ''lucky-seed'', arg_mutation_space = None, arg_max_length = None\<rparr>"

definition genMutations_common_args_check :: "cli_args \<Rightarrow> bool" where
  "genMutations_common_args_check argv \<longleftrightarrow>
     (\<not> arg_output_mutation argv \<or> arg_patched_src_dir argv \<noteq> None) \<and>
     (case arg_for_node_types argv of None \<Rightarrow> True
      | Some types \<Rightarrow> list_all (\<lambda>x. x \<in> set astNodeTypeStrings) types)"

text \<open>The parameters of \<open>genMutations\<close>, in its order; the first two are fixed.\<close>

record gen_params =
  gp_only_compilable :: bool
  gp_mutation_types :: "string list"
  maxMutationDistance :: "jsnum option"
  patched_src_dir :: "string option"
  gp_seed :: seed
  gp_skip_same_bin :: bool
  interested_space_specifier :: "string option"
  ASTNewNodeTypes :: "string list option"
  gp_must_include :: "string list option"
  gp_replaceableNodeType :: "string list option"
  simplify :: bool
  output_mutation :: bool

definition iter_gen_mutations :: "cli_args \<Rightarrow> gen_params" where
  "iter_gen_mutations x = \<lparr>gp_only_compilable = arg_only_compilable x,
     gp_mutation_types = arg_mutation_types x,
     maxMutationDistance = arg_max_length x,
     patched_src_dir = arg_patched_src_dir x,
     gp_seed = arg_seed x,
     gp_skip_same_bin = True,
     interested_space_specifier = arg_mutation_space x,
     ASTNewNodeTypes = arg_for_node_types x,
     gp_must_include = Some (arg_mutation_types x),
     gp_replaceableNodeType = arg_replaceable_node_types x,
     simplify = arg_simplify x,
     output_mutation = arg_output_mutation x\<rparr>"

section \<open>The start\<close>

definition seq_config_of :: "gen_params \<Rightarrow> jsval \<Rightarrow> path list \<Rightarrow> seq_config" where
  "seq_config_of x ast fss = \<lparr>oriAST = ast, minDistance = Fin 1,
     maxDistance = (case maxMutationDistance x of None \<Rightarrow> PosInf | Some d \<Rightarrow> d),
     faultSpace_oriAST = fss, allowedTypes = gp_mutation_types x, newNodeTypes = ASTNewNodeTypes x,
     must_include_mutation_types = gp_must_include x, replaceableNodeType = gp_replaceableNodeType x,
     only_compilable = gp_only_compilable x, skip_same_bin = gp_skip_same_bin x\<rparr>"

text \<open>What is written to a file: a source, or a value as JSON.\<close>

datatype file_content = Source string | JsonText jsval

record 'r driver =
  mutationSeqGen :: "'r seq_gen"
  numProcessed :: nat
  written :: "(string \<times> file_content) list"

text \<open>The configuration and the first state, from the parsed contract.\<close>

definition genMutations ::
  "'r libs \<Rightarrow> toolchain \<Rightarrow> gen_params \<Rightarrow> jsval \<Rightarrow> (seq_config \<times> 'r driver) outcome" where
  "genMutations D T x ast =
     bind_outcome (outcome_of (InterestedSpaceSpecifierParser (interested_space_specifier x)))
       (\<lambda>interestedSpace.
     bind_outcome (outcome_of (generateFaultSpace (lib_lodash D) ast interestedSpace)) (\<lambda>fss.
     let cfg = seq_config_of x ast fss in
     bind_outcome (new_seq_gen D T cfg (gp_seed x)) (\<lambda>gen.
       Returned (cfg, \<lparr>mutationSeqGen = gen, numProcessed = 0, written = []\<rparr>))))"

section \<open>Drawing sequences\<close>

text \<open>\<open>genMutations_genSeqs\<close>: undefined (\<open>None\<close>) when the whole space is exhausted; the loop ends
  early at an exhausted AST or a request to terminate. The fault space of the specifier is
  computed and not used. \<open>signals j i\<close> is for round \<open>i\<close> of the j-th call of the generator.\<close>

fun genSeqs_loop ::
  "'r libs \<Rightarrow> toolchain \<Rightarrow> (nat \<Rightarrow> nat \<Rightarrow> bool) \<Rightarrow> nat \<Rightarrow> seq_config \<Rightarrow> jsval option \<Rightarrow> nat \<Rightarrow> nat \<Rightarrow> 'r seq_gen \<Rightarrow>
   (mutationSequence list option \<times> 'r seq_gen) outcome" where
  "genSeqs_loop D T signals fuel cfg ast j 0 st = Returned (Some [], st)"
| "genSeqs_loop D T signals fuel cfg ast j (Suc n) st =
     bind_outcome (seq_gen_next D T (signals j) cfg
         \<lparr>requestAST = ast, mutation_request = \<lparr>allowedMutationTypes = None, overriddenFaultSpace = None\<rparr>\<rparr>
         fuel st)
       (\<lambda>(mutationSeq, st').
         case mutationSeq of
           Finished \<Rightarrow> Returned (None, st')
         | ExhaustedForRequestedAST \<Rightarrow> Returned (Some [], st')
         | TerminateRequested \<Rightarrow> Returned (Some [], st')
         | NewSequence ms \<Rightarrow>
             bind_outcome (genSeqs_loop D T signals fuel cfg ast (Suc j) n st') (\<lambda>(rest, st'').
               Returned (map_option (Cons ms) rest, st'')))"

definition genMutations_genSeqs ::
  "'r libs \<Rightarrow> toolchain \<Rightarrow> (nat \<Rightarrow> nat \<Rightarrow> bool) \<Rightarrow> nat \<Rightarrow> seq_config \<Rightarrow> nat \<Rightarrow> 'r seq_gen \<Rightarrow> jsval option \<Rightarrow>
   string option \<Rightarrow> (mutationSequence list option \<times> 'r seq_gen) outcome" where
  "genMutations_genSeqs D T signals fuel cfg num st ast overridenFaultSpaceSpecifier =
     bind_outcome (outcome_of (case overridenFaultSpaceSpecifier of
          None \<Rightarrow> Inr None
        | Some specifier \<Rightarrow>
            bind_result (InterestedSpaceSpecifierParser (Some specifier)) (\<lambda>interestedSpace.
            case ast of None \<Rightarrow> Inl TypeError
            | Some v \<Rightarrow> bind_result (generateFaultSpace (lib_lodash D) v interestedSpace) (\<lambda>fss. Inr (Some fss)))))
       (\<lambda>overridenFaultSpace. genSeqs_loop D T signals fuel cfg ast 0 num st)"

section \<open>Requests\<close>

text \<open>\<open>IterJSONRequest\<close>, by its \<open>type\<close>; the driver handles the first two.\<close>

datatype iter_request =
    RandomRequest nat
  | MutateRequest jsval "string option"
  | OtherRequest string

datatype iter_response =
    AllSpaceExhasuted
  | SpaceExhasutedForAST
  | Success "mutationSequence list" "string list" "locations list"

text \<open>The fault spaces of a base sequence the generator does not know: as in the generator, but
  without the assertion.\<close>

definition driver_carry ::
  "'r libs \<Rightarrow> mutation \<Rightarrow> jsval \<Rightarrow> faultSpaceInfo \<Rightarrow> faultSpaceInfo option" where
  "driver_carry D m beforeAST x =
     (case updateASTPath (lib_lodash D) m beforeAST (info_faultSpace x) of
        None \<Rightarrow> None
      | Some newNodePath \<Rightarrow>
          if lequal (lib_lodash D) (info_faultSpace x) (targetNodePath m) then
            let newRemaining = lwithout (lib_names D) (remainingMutation x) (mutationType m) in
            if newRemaining \<noteq> []
            then Some \<lparr>info_faultSpace = newNodePath, remainingMutation = newRemaining\<rparr> else None
          else Some (x\<lparr>info_faultSpace := newNodePath\<rparr>))"

definition driver_carry_visitor :: "'r libs \<Rightarrow> faultSpaceInfo list ast_visitor" where
  "driver_carry_visitor D beforeAST justApplied nextMutation idx infos =
     (case nextMutation of
        None \<Rightarrow> Inr (infos, True)
      | Some m \<Rightarrow> Inr (List.map_filter (driver_carry D m beforeAST) infos, True))"

text \<open>A base sequence of the client: its AST is added when it is not known.\<close>

definition ensure_base ::
  "'r libs \<Rightarrow> toolchain \<Rightarrow> seq_config \<Rightarrow> mutationSequence \<Rightarrow> jsval \<Rightarrow> 'r seq_gen \<Rightarrow> 'r seq_gen outcome" where
  "ensure_base D T cfg baseMutationSeq baseAST st =
     (if findASTByMutationSequence (\<lambda>_. False) baseMutationSeq st \<noteq> None then Returned st
      else
        let infos = map (\<lambda>x. faultSpaceToFaultSpaceInfo x (allowedTypes cfg)) (faultSpace_oriAST cfg) in
        bind_outcome (outcome_of (mutateAST_visit (lib_lodash D) (driver_carry_visitor D) baseMutationSeq
            (oriAST cfg) infos)) (\<lambda>(_, original_faultSpace_Path).
        bind_outcome (addKnownAST D T cfg baseAST baseMutationSeq (SpaceInfos original_faultSpace_Path) st)
          (\<lambda>(_, st'). Returned st')))"

definition is_array_of :: "jsval \<Rightarrow> jsval list result" where
  "is_array_of v = (case v of JArr xs \<Rightarrow> Inr xs | _ \<Rightarrow> Inl AssertionError)"

text \<open>The sequences of a request, before they are written: \<open>Inl\<close> a failure to report at once.\<close>

definition request_sequences ::
  "'r libs \<Rightarrow> toolchain \<Rightarrow> (nat \<Rightarrow> nat \<Rightarrow> bool) \<Rightarrow> nat \<Rightarrow> seq_config \<Rightarrow> iter_request \<Rightarrow> 'r seq_gen \<Rightarrow>
   ((iter_response + mutationSequence list) \<times> 'r seq_gen) outcome" where
  "request_sequences D T signals fuel cfg request st =
     (case request of
        RandomRequest num_mutations \<Rightarrow>
          bind_outcome (genMutations_genSeqs D T signals fuel cfg num_mutations st None None)
            (\<lambda>(rst, st').
              Returned (case rst of None \<Rightarrow> Inl AllSpaceExhasuted | Some seqs \<Rightarrow> Inr seqs, st'))
      | MutateRequest baseMutationSeqObj overridenFaultSpaceSpecifier \<Rightarrow>
          bind_outcome (outcome_of (is_array_of baseMutationSeqObj)) (\<lambda>objs.
          bind_outcome (outcome_of (map_result (objToMutation (lib_lodash D)) objs)) (\<lambda>baseMutationSeq.
          bind_outcome (outcome_of (mutateAST (lib_lodash D) baseMutationSeq (oriAST cfg))) (\<lambda>mutated.
          let baseAST = ASTNodeRemoveExtraAttributesDeep mutated in
          bind_outcome (ensure_base D T cfg baseMutationSeq baseAST st) (\<lambda>st1.
          bind_outcome (genMutations_genSeqs D T signals fuel cfg 1 st1 (Some baseAST) overridenFaultSpaceSpecifier)
            (\<lambda>(rst, st').
              Returned (case rst of
                  None \<Rightarrow> Inl AllSpaceExhasuted
                | Some seqs \<Rightarrow> if seqs = [] then Inl SpaceExhasutedForAST else Inr seqs, st'))))))
      | OtherRequest _ \<Rightarrow> Thrown GenericError)"

section \<open>Writing\<close>

text \<open>\<open>path.format\<close> of a directory, a name and an extension.\<close>

definition path_format :: "string \<Rightarrow> string \<Rightarrow> string \<Rightarrow> string" where
  "path_format dir name ext = (if dir = '''' then name @ ext else dir @ ''/'' @ name @ ext)"

definition mutationSequence_toJSON :: "mutationSequence \<Rightarrow> jsval" where
  "mutationSequence_toJSON ms = JArr (map (\<lambda>m. json_text (mutation_toJSON m)) ms)"

text \<open>Writing a sequence: its number, its source, and its mutations when asked for.\<close>

definition write_sequence ::
  "'r libs \<Rightarrow> toolchain \<Rightarrow> gen_params \<Rightarrow> seq_config \<Rightarrow> string \<Rightarrow> nat \<Rightarrow> mutationSequence \<Rightarrow> 'r driver \<Rightarrow>
   (string \<times> 'r driver) outcome" where
  "write_sequence D T x cfg dir num ms s =
     (let outPath = path_format dir (idx_key num) ''.sol'' in
      bind_outcome (outcome_of (mutateAST (lib_lodash D) ms (oriAST cfg))) (\<lambda>newAST.
      bind_outcome (outcome_of (if simplify x then simplifyAST (lib_lodash D) newAST (mutationSeqGen s)
          else Inr (Some newAST, mutationSeqGen s))) (\<lambda>(finalNewAST, gen).
      bind_outcome (outcome_of (a2S T finalNewAST)) (\<lambda>newSRC.
        Returned (outPath, s\<lparr>mutationSeqGen := gen, written := written s @ (outPath, Source newSRC) #
          (if output_mutation x
           then [(path_format dir (idx_key num @ ''.sol.mutation'') ''.json'', JsonText (mutationSequence_toJSON ms))]
           else [])\<rparr>)))))"

fun write_sequences ::
  "'r libs \<Rightarrow> toolchain \<Rightarrow> gen_params \<Rightarrow> seq_config \<Rightarrow> string \<Rightarrow> nat \<Rightarrow> mutationSequence list \<Rightarrow> 'r driver \<Rightarrow>
   (string list \<times> 'r driver) outcome" where
  "write_sequences D T x cfg dir num [] s = Returned ([], s)"
| "write_sequences D T x cfg dir num (ms # seqs) s =
     bind_outcome (write_sequence D T x cfg dir num ms s) (\<lambda>(outPath, s').
     bind_outcome (write_sequences D T x cfg dir (Suc num) seqs s') (\<lambda>(outPaths, s'').
       Returned (outPath # outPaths, s'')))"

text \<open>The response to a request whose sequences are written.\<close>

definition success_response ::
  "'r libs \<Rightarrow> seq_config \<Rightarrow> iter_request \<Rightarrow> mutationSequence list \<Rightarrow> string list \<Rightarrow> iter_response result" where
  [simp]: "success_response D cfg request newMutationSequences outPaths =
     bind_result (js_assert (case request of
         MutateRequest _ _ \<Rightarrow> length newMutationSequences = 1 | _ \<Rightarrow> True)) (\<lambda>_.
     bind_result (map_result
         (\<lambda>ms. modifiedLocations (lib_lodash D) (lib_values D) ms (oriAST cfg)) newMutationSequences) (\<lambda>locs.
       Inr (Success newMutationSequences outPaths locs)))"

text \<open>The handler of a line of input.\<close>

definition handle_request ::
  "'r libs \<Rightarrow> toolchain \<Rightarrow> (nat \<Rightarrow> nat \<Rightarrow> bool) \<Rightarrow> nat \<Rightarrow> gen_params \<Rightarrow> seq_config \<Rightarrow> iter_request \<Rightarrow> 'r driver \<Rightarrow>
   (iter_response \<times> 'r driver) outcome" where
  "handle_request D T signals fuel x cfg request s =
     bind_outcome (request_sequences D T signals fuel cfg request (mutationSeqGen s)) (\<lambda>(rst, gen).
     let s1 = s\<lparr>mutationSeqGen := gen\<rparr> in
     case rst of
       Inl failure \<Rightarrow> Returned (failure, s1)
     | Inr newMutationSequences \<Rightarrow>
         (case patched_src_dir x of
            None \<Rightarrow> Thrown AssertionError
          | Some dir \<Rightarrow>
              bind_outcome (write_sequences D T x cfg dir (numProcessed s1) newMutationSequences s1)
                (\<lambda>(outPaths, s2).
              let s3 = s2\<lparr>numProcessed := numProcessed s2 + length newMutationSequences\<rparr> in
              bind_outcome (outcome_of (success_response D cfg request newMutationSequences outPaths))
                (\<lambda>response. Returned (response, s3)))))"

section \<open>One source\<close>

text \<open>The catch block of \<open>mutateFromAST\<close> prints the mutated AST, which applies the mutations
  again, and rethrows; \<open>parser\<close> is third party.\<close>

definition mutateFromAST :: "lodash \<Rightarrow> toolchain \<Rightarrow> jsval \<Rightarrow> mutationSequence \<Rightarrow> string result" where
  "mutateFromAST L T ast ms = bind_result (mutateAST L ms ast) (\<lambda>newAST. a2S T (Some newAST))"

definition mutateSrc ::
  "lodash \<Rightarrow> toolchain \<Rightarrow> (string \<Rightarrow> jsval result) \<Rightarrow> string \<Rightarrow> mutationSequence \<Rightarrow> string result" where
  "mutateSrc L T parser str_src ms = bind_result (parser str_src) (\<lambda>ast. mutateFromAST L T ast ms)"

end
