(* ===== verification/DriverInvariant.thy ===== *)
theory DriverInvariant
  imports Driver
begin

text \<open>
  The generator of sequences as a state machine: its states under the driver, their invariant,
  and what the driver adds: no file is written twice, and the arguments of the command line ask
  for all types of mutations at once.
\<close>

section \<open>Reachable generators\<close>

text \<open>The constructor, a call of \<open>next\<close>, a base of the client, and a simplification.\<close>

inductive reachable :: "'r libs \<Rightarrow> toolchain \<Rightarrow> seq_config \<Rightarrow> 'r seq_gen \<Rightarrow> bool" for D T cfg where
  constructed: "new_seq_gen D T cfg seed = Returned st \<Longrightarrow> reachable D T cfg st"
| next_called: "reachable D T cfg st \<Longrightarrow> seq_gen_next D T signals cfg request n st = Returned (reply, st') \<Longrightarrow>
    reachable D T cfg st'"
| base_added: "reachable D T cfg st \<Longrightarrow> mutateAST (lib_lodash D) ms (oriAST cfg) = Inr ast \<Longrightarrow>
    ensure_base D T cfg ms (ASTNodeRemoveExtraAttributesDeep ast) st = Returned st' \<Longrightarrow> reachable D T cfg st'"
| simplified: "reachable D T cfg st \<Longrightarrow> simplifyAST (lib_lodash D) ast st = Inr (r, st') \<Longrightarrow>
    reachable D T cfg st'"

inductive_cases reachableE: "reachable D T cfg st"

context generator_libs
begin

lemma ensure_base_inv:
  assumes "seq_inv (lib_lodash D) cfg st" and "mutateAST (lib_lodash D) ms (oriAST cfg) = Inr ast"
    and "ensure_base D T cfg ms (ASTNodeRemoveExtraAttributesDeep ast) st = Returned st'"
  shows "seq_inv (lib_lodash D) cfg st'"
proof (cases "findASTByMutationSequence (\<lambda>_. False) ms st = None")
  case True
  then obtain infos result where add: "addKnownAST D T cfg (ASTNodeRemoveExtraAttributesDeep ast) ms (SpaceInfos infos) st
      = Returned (result, st')"
    using assms(3) by (auto simp: ensure_base_def Let_def)
  have "derives (lib_lodash D) (oriAST cfg) ms (ast_key (ASTNodeRemoveExtraAttributesDeep ast))"
    using apply_all_derives assms(2) by (simp add: mutateAST_def)
  with addKnownAST_inv [OF assms(1) _ add] show ?thesis by simp
qed (use assms in \<open>simp add: ensure_base_def\<close>)

lemma reachable_inv: "reachable D T cfg st \<Longrightarrow> seq_inv (lib_lodash D) cfg st"
  by (induction rule: reachable.induct)
    (auto intro: new_seq_gen_inv(1) seq_gen_next_inv(1) ensure_base_inv simplifyAST_inv)

end

section \<open>The handler\<close>

lemma genSeqs_loop_reachable:
  "reachable D T cfg st \<Longrightarrow> genSeqs_loop D T signals fuel cfg ast j n st = Returned (seqs, st') \<Longrightarrow>
   reachable D T cfg st'"
proof (induction n arbitrary: j st seqs)
  case (Suc n)
  then obtain reply st1 where r: "seq_gen_next D T (signals j) cfg
      \<lparr>requestAST = ast, mutation_request = \<lparr>allowedMutationTypes = None, overriddenFaultSpace = None\<rparr>\<rparr> fuel st
      = Returned (reply, st1)" by auto
  have "reachable D T cfg st1" by (rule reachable.next_called [OF Suc.prems(1) r])
  with Suc r show ?case by (auto split: seq_reply.split_asm)
qed auto

lemma genMutations_genSeqs_reachable:
  "reachable D T cfg st \<Longrightarrow> genMutations_genSeqs D T signals fuel cfg num st ast spec = Returned (seqs, st') \<Longrightarrow>
   reachable D T cfg st'"
  using genSeqs_loop_reachable by (auto simp: genMutations_genSeqs_def)

lemma request_sequences_reachable:
  assumes "reachable D T cfg st" and "request_sequences D T signals fuel cfg request st = Returned (rst, st')"
  shows "reachable D T cfg st'"
proof (cases request)
  case (RandomRequest n)
  with assms genMutations_genSeqs_reachable show ?thesis by (fastforce simp: request_sequences_def)
next
  case (MutateRequest obj spec)
  then obtain ms ast st1 seqs where "mutateAST (lib_lodash D) ms (oriAST cfg) = Inr ast"
    and "ensure_base D T cfg ms (ASTNodeRemoveExtraAttributesDeep ast) st = Returned st1"
    and "genMutations_genSeqs D T signals fuel cfg 1 st1 (Some (ASTNodeRemoveExtraAttributesDeep ast)) spec
      = Returned (seqs, st')"
    using assms(2) by (auto simp: request_sequences_def Let_def)
  with assms(1) show ?thesis by (blast intro: reachable.base_added genMutations_genSeqs_reachable)
qed (use assms(2) in \<open>simp add: request_sequences_def\<close>)

lemma write_sequence_parts:
  assumes "write_sequence D T x cfg dir num ms s = Returned (outPath, s')"
  shows "outPath = path_format dir (idx_key num) ''.sol''" and "numProcessed s' = numProcessed s"
    and "map fst (written s') = map fst (written s) @ outPath #
      (if output_mutation x then [path_format dir (idx_key num @ ''.sol.mutation'') ''.json''] else [])"
    and "mutationSeqGen s' = mutationSeqGen s \<or>
      (\<exists>ast r. simplifyAST (lib_lodash D) ast (mutationSeqGen s) = Inr (r, mutationSeqGen s'))"
  using assms
  by (auto simp: write_sequence_def Let_def split: if_split_asm)

lemma write_sequences_reachable:
  "reachable D T cfg (mutationSeqGen s) \<Longrightarrow>
   write_sequences D T x cfg dir num seqs s = Returned (paths, s') \<Longrightarrow> reachable D T cfg (mutationSeqGen s')"
proof (induction seqs arbitrary: num s paths)
  case (Cons ms seqs)
  then obtain p s1 ps where w: "write_sequence D T x cfg dir num ms s = Returned (p, s1)"
    and rest: "write_sequences D T x cfg dir (Suc num) seqs s1 = Returned (ps, s')" by auto
  have "reachable D T cfg (mutationSeqGen s1)"
    using Cons.prems(1) write_sequence_parts(4) [OF w] by (metis reachable.simplified)
  from Cons.IH [OF this rest] show ?case .
qed auto

text \<open>A handled request: a failure, or the sequences written.\<close>

lemma handle_request_parts:
  assumes "handle_request D T signals fuel x cfg request s = Returned (resp, s')"
  obtains (failure) gen where "request_sequences D T signals fuel cfg request (mutationSeqGen s) = Returned (Inl resp, gen)"
    and "s' = s\<lparr>mutationSeqGen := gen\<rparr>"
  | (success) gen seqs dir paths s2 locs where
      "request_sequences D T signals fuel cfg request (mutationSeqGen s) = Returned (Inr seqs, gen)"
    and "patched_src_dir x = Some dir"
    and "write_sequences D T x cfg dir (numProcessed s) seqs (s\<lparr>mutationSeqGen := gen\<rparr>) = Returned (paths, s2)"
    and "s' = s2\<lparr>numProcessed := numProcessed s2 + length seqs\<rparr>" and "resp = Success seqs paths locs"
proof -
  obtain rst gen where r: "request_sequences D T signals fuel cfg request (mutationSeqGen s) = Returned (rst, gen)"
    using assms by (auto simp: handle_request_def Let_def)
  show thesis
  proof (cases rst)
    case (Inl f)
    with assms r failure show thesis by (auto simp: handle_request_def Let_def)
  next
    case (Inr seqs)
    show thesis
    proof (cases "patched_src_dir x")
      case (Some dir)
      with assms r Inr success show thesis by (auto simp: handle_request_def Let_def)
    qed (use assms r Inr in \<open>auto simp: handle_request_def Let_def\<close>)
  qed
qed

lemma handle_request_reachable:
  assumes "reachable D T cfg (mutationSeqGen s)" and "handle_request D T signals fuel x cfg request s = Returned (resp, s')"
  shows "reachable D T cfg (mutationSeqGen s')"
  using assms(2)
proof (cases rule: handle_request_parts)
  case (failure gen)
  with request_sequences_reachable [OF assms(1)] show ?thesis by simp
next
  case (success gen seqs dir paths s2 locs)
  have "reachable D T cfg (mutationSeqGen (s\<lparr>mutationSeqGen := gen\<rparr>))"
    using request_sequences_reachable [OF assms(1) success(1)] by simp
  from write_sequences_reachable [OF this success(3)] success(4) show ?thesis by simp
qed

section \<open>Files\<close>

text \<open>The files of a sequence with a number.\<close>

definition sequence_file :: "string \<Rightarrow> nat \<Rightarrow> string \<Rightarrow> bool" where
  "sequence_file dir i f \<longleftrightarrow> f = path_format dir (idx_key i) ''.sol'' \<or>
     f = path_format dir (idx_key i @ ''.sol.mutation'') ''.json''"

definition files_upto :: "string \<Rightarrow> nat \<Rightarrow> 'r driver \<Rightarrow> bool" where
  "files_upto dir n s \<longleftrightarrow> distinct (map fst (written s)) \<and>
     (\<forall>f \<in> set (map fst (written s)). \<exists>i < n. sequence_file dir i f)"

lemma idx_key_inject [simp]: "idx_key i = idx_key j \<longleftrightarrow> i = j"
  by (metis arr_idx_key option.inject)

lemma path_format_eq: "path_format dir n e = path_format dir n' e' \<longleftrightarrow> n @ e = n' @ e'"
  by (simp add: path_format_def)

lemma source_not_json: "x @ ''.sol'' \<noteq> y @ ''.sol.mutation'' @ ''.json''"
proof
  assume "x @ ''.sol'' = y @ ''.sol.mutation'' @ ''.json''"
  then have "last (x @ ''.sol'') = last (y @ ''.sol.mutation'' @ ''.json'')" by (rule arg_cong)
  then show False by simp
qed

lemma sequence_file_unique: "sequence_file dir i f \<Longrightarrow> sequence_file dir j f \<Longrightarrow> i = j"
  using source_not_json [of "idx_key i" "idx_key j"] source_not_json [of "idx_key j" "idx_key i"]
  by (auto simp: sequence_file_def path_format_eq simp flip: append_assoc)

lemma write_sequence_files:
  assumes "write_sequence D T x cfg dir n ms s = Returned (outPath, s')" and "files_upto dir n s"
  shows "files_upto dir (Suc n) s'"
proof -
  note w = write_sequence_parts [OF assms(1)]
  have new: "sequence_file dir n f" if "f \<in> set (map fst (written s'))" "f \<notin> set (map fst (written s))" for f
    using that w(1,3) by (auto simp: sequence_file_def split: if_splits)
  have old: "\<exists>i < n. sequence_file dir i f" if "f \<in> set (map fst (written s))" for f
    using that assms(2) by (auto simp: files_upto_def)
  have apart: "sequence_file dir n f \<Longrightarrow> f \<notin> set (map fst (written s))" for f
    using old sequence_file_unique by fastforce
  have "outPath \<noteq> path_format dir (idx_key n @ ''.sol.mutation'') ''.json''"
    using source_not_json [of "idx_key n" "idx_key n"] by (simp add: w(1) path_format_eq)
  moreover have "sequence_file dir n outPath" "sequence_file dir n (path_format dir (idx_key n @ ''.sol.mutation'') ''.json'')"
    by (simp_all add: sequence_file_def w(1))
  ultimately have "distinct (map fst (written s'))"
    using assms(2) apart w(3) by (auto simp: files_upto_def)
  moreover have "\<exists>i < Suc n. sequence_file dir i f" if "f \<in> set (map fst (written s'))" for f
    using that new old less_SucI by (cases "f \<in> set (map fst (written s))") blast+
  ultimately show ?thesis by (simp add: files_upto_def)
qed

lemma write_sequences_files:
  "write_sequences D T x cfg dir n seqs s = Returned (paths, s') \<Longrightarrow> files_upto dir n s \<Longrightarrow>
   files_upto dir (n + length seqs) s' \<and> numProcessed s' = numProcessed s \<and> length paths = length seqs"
proof (induction seqs arbitrary: n s paths)
  case (Cons ms seqs)
  then obtain p s1 ps where w: "write_sequence D T x cfg dir n ms s = Returned (p, s1)"
    and rest: "write_sequences D T x cfg dir (Suc n) seqs s1 = Returned (ps, s')" "paths = p # ps" by auto
  from Cons.IH [OF rest(1) write_sequence_files [OF w Cons.prems(2)]] write_sequence_parts(2) [OF w] rest(2)
  show ?case by simp
qed simp

lemma handle_request_files:
  assumes "handle_request D T signals fuel x cfg request s = Returned (resp, s')"
    and "patched_src_dir x = Some dir" and "files_upto dir (numProcessed s) s"
  shows "files_upto dir (numProcessed s') s'"
  using assms(1)
proof (cases rule: handle_request_parts)
  case (failure gen)
  with assms(3) show ?thesis by (simp add: files_upto_def)
next
  case (success gen seqs dir' paths s2 locs)
  with assms(2) have w: "write_sequences D T x cfg dir (numProcessed s) seqs (s\<lparr>mutationSeqGen := gen\<rparr>) = Returned (paths, s2)"
    by simp
  have "files_upto dir (numProcessed s) (s\<lparr>mutationSeqGen := gen\<rparr>)" using assms(3) by (simp add: files_upto_def)
  from write_sequences_files [OF w this] success(4) show ?thesis by (simp add: files_upto_def)
qed

section \<open>The overriding fault space and the required types\<close>

lemma override_unused:
  assumes "genMutations_genSeqs D T signals fuel cfg num st ast (Some specifier) = Returned out"
  shows "genMutations_genSeqs D T signals fuel cfg num st ast None = Returned out"
  using assms by (auto simp: genMutations_genSeqs_def)

text \<open>Required types take one mutation each.\<close>

context lodash_name_lib
begin

lemma pass_must_include_types:
  "pass_must_include N cfg ms \<Longrightarrow> must_include_mutation_types cfg = Some required \<Longrightarrow>
   set required \<subseteq> mutationType ` set ms"
  by (auto simp: pass_must_include_def Let_def uniq list_all_iff)

end

lemma types_need_mutations:
  "set required \<subseteq> mutationType ` set ms \<Longrightarrow> card (set required) \<le> length ms"
  by (metis card_image_le card_length card_mono finite_imageI finite_set le_trans)

end
