(* ===== verification/ResentMutations.thy ===== *)
theory ResentMutations
  imports DrawnMutations MutationJson Compile
begin

text \<open>
  Mutations that went to the client and come back: the JSON form of a drawn mutation gives it
  back, a movement with an AST that has lost the location of its root too, and what comes back
  does the same.
\<close>

section \<open>Complete values are JSON\<close>

lemma complete_is_json: "complete v \<Longrightarrow> is_json v"
proof (induction v rule: is_json.induct)
  case (5 kvs)
  then show ?case by (fastforce simp: list_all_iff)
qed (auto simp: list_all_iff)

lemma complete_stripped: "complete v \<Longrightarrow> complete (ASTNodeRemoveExtraAttributesDeep v)"
proof (cases v)
  case (JObj kvs)
  assume c: "complete v"
  have "distinct (map fst (filter (\<lambda>(k, _). k \<notin> {''tokens''}) (map (\<lambda>(k, v). (k, ASTNodeRemoveLocDeep v)) kvs)))"
    using c JObj by (simp add: distinct_map_filter comp_def case_prod_unfold)
  with c JObj show ?thesis by (fastforce simp: stripped_obj complete_remove_loc)
qed (auto simp: ASTNodeRemoveExtraAttributesDeep_def complete_remove_loc)

section \<open>What comes back\<close>

fun resent :: "mutation \<Rightarrow> mutation" where
  "resent (Movement m) = Movement (m\<lparr>mov_ast := ASTNodeRemoveLocDeep (mov_ast m)\<rparr>)"
| "resent m = m"

definition decodes :: "lodash \<Rightarrow> mutation \<Rightarrow> mutation \<Rightarrow> bool" where
  "decodes L m m' \<longleftrightarrow> objToMutation L (json_text (mutation_toJSON m)) = Inr m' \<and>
     wf_val (json_text (mutation_toJSON m))"

lemma mutation_toJSON_resent [simp]: "mutation_toJSON (resent m) = mutation_toJSON m"
  by (cases m) simp_all

lemma resent_idem [simp]: "resent (resent m) = resent m"
  by (cases m) simp_all

lemma resent_applicable [simp]: "applicable L (resent m) ast = applicable L m ast"
proof (cases m)
  case (Movement mv)
  have "MovementM_applicable L (mv\<lparr>mov_ast := v\<rparr>) ast = MovementM_applicable L mv ast" for v
    unfolding MovementM_applicable_def by (simp split: sum.split)
  with Movement show ?thesis by simp
qed simp_all

lemma resent_sound [simp]: "sound_mutation (resent m) = sound_mutation m"
  unfolding sound_mutation_def by (cases m) simp_all

lemma json_path_is_json [simp]: "is_json (json_path p)" "wf_val (json_path p)"
  by (auto simp: json_path_def list_all_iff)

lemma json_num_wf [simp]: "wf_val (json_num n)"
  by (cases n) simp_all

context lodash_lib
begin

lemma resent_apply:
  assumes "accepted_on L ast m" and "accepted_on L ast (resent m)"
  shows "apply_mutation L (resent m) ast = apply_mutation L m ast"
  using assms by (cases m) (auto simp: MovementM_apply_def)

lemma drawn_decodes:
  assumes fits: "applicable L m ast" "sound_mutation m" "made_for L ast m" and c: "complete ast"
    and stripped: "ASTNodeRemoveExtraAttributesDeep ast = ast"
  shows "decodes L m (resent m)"
proof (cases m)
  case (Insertion i)
  then have "is_json (newNode i)" "wf_val (newNode i)"
    using fits(2) complete_is_json complete_wf_val by (auto simp: sound_mutation_def good_node_def)
  moreover obtain z where "insertIndex i = Fin z" using fits(1) Insertion by (auto elim: InsertionM_applicableE)
  ultimately have "json_text (mutation_toJSON m) = mutation_toJSON m" "wf_val (mutation_toJSON m)"
    using Insertion by (simp_all add: json_text_of_json function_not_json)
  with \<open>insertIndex i = Fin z\<close> Insertion show ?thesis
    by (cases i) (simp add: decodes_def objToMutation_def allMutationTypes_def)
next
  case (Replacement r)
  then have "is_json (rep_newNode r)" "wf_val (rep_newNode r)"
    using fits(2) complete_is_json complete_wf_val by (auto simp: sound_mutation_def good_node_def)
  then have "json_text (mutation_toJSON m) = mutation_toJSON m" "wf_val (mutation_toJSON m)"
    using Replacement by (simp_all add: json_text_of_json function_not_json)
  with Replacement show ?thesis
    by (cases r) (simp add: decodes_def objToMutation_def allMutationTypes_def)
next
  case (Deletion d)
  then have "json_text (mutation_toJSON m) = mutation_toJSON m" "wf_val (mutation_toJSON m)"
    using Deletion by (simp_all add: json_text_of_json function_not_json)
  with Deletion show ?thesis
    by (cases d) (simp add: decodes_def objToMutation_def allMutationTypes_def)
next
  case (Movement mv)
  obtain z where z: "mov_insertIndex mv = Fin z"
    using fits(3) Movement by (auto simp: isInteger_def split: jsnum.splits)
  have "is_json (ASTNodeRemoveLocDeep (mov_ast mv))" "wf_val (ASTNodeRemoveLocDeep (mov_ast mv))"
    using fits(3) Movement complete_is_json complete_wf_val complete_remove_loc [OF c] by simp_all
  then have "json_text (mutation_toJSON m) = mutation_toJSON m" "wf_val (mutation_toJSON m)"
    using Movement z by (simp_all add: json_text_of_json function_not_json)
  moreover have "MovementM_applicable L mv ast" using fits(1) Movement by simp
  then have "2 \<le> length (fromNodePath mv)"
    by (elim MovementM_applicableE) (simp add: DeletionM_applicable_def Let_def)
  moreover have "new_MovementM L ast (fromNodePath mv) (toPropertyPath mv) (Fin z) = Inr mv"
    "plain_path (fromNodePath mv)" "isASTNode (cwalk ast (fromNodePath mv))"
    using fits(3) Movement z by simp_all
  ultimately show ?thesis
    using Movement Movement_roundtrip [of ast "fromNodePath mv" "toPropertyPath mv" z mv]
    by (simp add: decodes_def)
qed

text \<open>Both are accepted by the AST of which the mutation's AST is the stripped copy.\<close>

lemma drawn_accepted:
  assumes "made_for L (ASTNodeRemoveExtraAttributesDeep a) m" and "wf_val a"
  shows "accepted_on L a m" and "accepted_on L a (resent m)"
proof -
  have "same_program a (ASTNodeRemoveLocDeep (ASTNodeRemoveExtraAttributesDeep a))"
  proof (cases a)
    case (JObj kvs)
    have "ASTNodeRemoveLocDeep (ASTNodeRemoveExtraAttributesDeep a) = JObj (map (\<lambda>(k, v). (k, ASTNodeRemoveLocDeep v))
        (filter (\<lambda>(attr, _). attr \<notin> set [''range'', ''loc'', ''tokens'']) kvs))"
      by (simp add: JObj ASTNodeRemoveExtraAttributesDeep_def filter_map comp_def case_prod_unfold conj_ac)
    moreover have "same_program v (ASTNodeRemoveLocDeep v)" if "(k, v) \<in> set kvs" for k v
      using assms(2) JObj that by (auto simp: list_all_iff intro: same_program_remove_loc)
    moreover have "distinct (map fst kvs)" using assms(2) JObj by simp
    ultimately show ?thesis
      by (simp only: JObj) (rule same_program_stripped; simp add: nonFunctionalRelatedAttributes_def)
  next
    case (JArr xs)
    with same_program_remove_loc [OF assms(2)] show ?thesis
      by (simp add: ASTNodeRemoveExtraAttributesDeep_def comp_def)
  qed (simp_all add: ASTNodeRemoveExtraAttributesDeep_def)
  with assms show "accepted_on L a m" "accepted_on L a (resent m)"
    by (cases m; simp add: functional_equal_iff same_program_remove_extra)+
qed

end

end
