(* ===== verification/CarriedSpaces.thy ===== *)
theory CarriedSpaces
  imports DriverInvariant ResentMutations
begin

text \<open>
  Fault spaces carried along a sequence: they stay distinct paths to nodes, in the AST and in
  its stripped copy, and the assertion on the type of a mutation drawn for them holds.
\<close>

section \<open>Spaces of an AST\<close>

definition spaces_at :: "jsval \<Rightarrow> faultSpaceInfo list \<Rightarrow> bool" where
  "spaces_at ast infos \<longleftrightarrow> distinct (map info_faultSpace infos) \<and>
     list_all (\<lambda>x. isASTNode (cwalk ast (info_faultSpace x)) \<and> plain_path (info_faultSpace x) \<and>
       2 \<le> length (info_faultSpace x)) infos"

definition seq_sound :: "lodash \<Rightarrow> mutationSequence \<Rightarrow> jsval \<Rightarrow> bool" where
  "seq_sound L ms ast \<longleftrightarrow> seq_applicable L ms ast \<and> list_all sound_mutation ms"

lemma spaces_at_strip:
  assumes "spaces_at ast infos"
  shows "spaces_at (ASTNodeRemoveExtraAttributesDeep ast) infos"
proof -
  have "isASTNode (cwalk (ASTNodeRemoveExtraAttributesDeep ast) p)"
    if "isASTNode (cwalk ast p)" "plain_path p" "2 \<le> length p" for p
    using that cwalk_stripped [OF plain_bare [OF that(2)], of ast] by (cases "cwalk ast p"; cases p) auto
  with assms show ?thesis by (auto simp: spaces_at_def list_all_iff)
qed

lemma isASTNode_cwalk: "isASTNode (cwalk v p) \<Longrightarrow> \<exists>w. cwalk v p = Some w"
  by (cases "cwalk v p") auto

lemma distinct_map_filter_keys:
  assumes "distinct (map key xs)"
    and "\<And>x y x' y'. x \<in> set xs \<Longrightarrow> y \<in> set xs \<Longrightarrow> g x = Some x' \<Longrightarrow> g y = Some y' \<Longrightarrow> key x' = key y' \<Longrightarrow> key x = key y"
  shows "distinct (map key (List.map_filter g xs))"
  using assms
proof (induction xs)
  case (Cons x xs)
  have IH: "distinct (map key (List.map_filter g xs))"
    using Cons.prems by (intro Cons.IH) auto
  show ?case
  proof (cases "g x")
    case (Some x')
    have "key x' \<noteq> key y'" if y: "y \<in> set xs" "g y = Some y'" for y y'
    proof
      assume "key x' = key y'"
      with Cons.prems(2) [of x y x' y'] Some y have "key x = key y" by simp
      with Cons.prems(1) y(1) show False by auto
    qed
    then have "key x' \<notin> key ` set (List.map_filter g xs)" by (force simp: List.map_filter_def)
    with IH Some show ?thesis by (simp add: map_filter_simps)
  qed (use IH in \<open>simp add: map_filter_simps\<close>)
qed (simp add: map_filter_simps)

context generator_libs
begin

section \<open>Carrying\<close>

lemma driver_carry_path:
  "driver_carry D m a x = Some y \<Longrightarrow>
   updateASTPath (lib_lodash D) m a (info_faultSpace x) = Some (info_faultSpace y)"
  by (auto simp: driver_carry_def Let_def split: option.splits if_splits)

text \<open>The generator carries as the driver does, with an assertion on top.\<close>

lemma carry_faultSpace_eq:
  "carry_faultSpace D m a x =
     (if updateASTPath (lib_lodash D) m a (info_faultSpace x) \<noteq> None \<and> info_faultSpace x = targetNodePath m \<and>
        mutationType m \<notin> set (remainingMutation x)
      then Inl AssertionError else Inr (driver_carry D m a x))"
  by (auto simp: carry_faultSpace_def driver_carry_def equal_paths Let_def split: option.split)

lemma carry_spaces:
  assumes sp: "spaces_at a infos" and c: "complete a" and m: "applicable (lib_lodash D) m a" "sound_mutation m"
    and ap: "apply_mutation (lib_lodash D) m a = Inr a'"
  shows "spaces_at a' (List.map_filter (driver_carry D m a) infos)"
proof -
  have x: "isASTNode (cwalk a (info_faultSpace x))" "plain_path (info_faultSpace x)" "2 \<le> length (info_faultSpace x)"
    "canonical_path (info_faultSpace x)" if "x \<in> set infos" for x
    using sp that complete_cwalk [OF c] isASTNode_cwalk [of a "info_faultSpace x"]
    by (auto simp: spaces_at_def list_all_iff)
  have y: "isASTNode (cwalk a' (info_faultSpace y)) \<and> plain_path (info_faultSpace y) \<and> 2 \<le> length (info_faultSpace y)"
    if "x \<in> set infos" "driver_carry D m a x = Some y" for x y
  proof -
    note up = driver_carry_path [OF that(2)] and xx = x [OF that(1)]
    show ?thesis
      using mutation_alive [OF m(1) ap up xx(1)] updateASTPath_plain [OF m(1) _ xx(2) up] m(2)
        updateASTPath_long [OF m(1) xx(3) up]
      by (simp add: sound_mutation_def)
  qed
  have "distinct (map info_faultSpace (List.map_filter (driver_carry D m a) infos))"
  proof (rule distinct_map_filter_keys)
    show "distinct (map info_faultSpace infos)" using sp by (simp add: spaces_at_def)
    show "info_faultSpace x = info_faultSpace z"
      if "x \<in> set infos" "z \<in> set infos" "driver_carry D m a x = Some x'" "driver_carry D m a z = Some z'"
        "info_faultSpace x' = info_faultSpace z'" for x z x' z'
      using mutation.update_path_inj [OF m(1) x(4) [OF that(1)] x(4) [OF that(2)]
          driver_carry_path [OF that(3)]] driver_carry_path [OF that(4)] that(5) by simp
  qed
  with y show ?thesis by (auto simp: spaces_at_def list_all_iff List.map_filter_def)
qed

lemma fitting_carry:
  assumes "spaces_at a infos" and "mutation_fits (lib_lodash D) a infos m"
  shows "carry_faultSpaces D m a infos = Inr (List.map_filter (driver_carry D m a) infos)"
proof -
  have type: "mutationType m \<in> set (remainingMutation x)"
    if "x \<in> set infos" "info_faultSpace x = targetNodePath m" for x
  proof -
    obtain y where "y \<in> set infos" "info_faultSpace y = targetNodePath m" "mutationType m \<in> set (remainingMutation y)"
      using assms(2) by (auto simp: mutation_fits_def spaces_for_def)
    moreover from this that have "x = y"
      using assms(1) inj_onD [of info_faultSpace "set infos" x y] by (simp add: spaces_at_def distinct_map)
    ultimately show ?thesis by simp
  qed
  have "map_result (carry_faultSpace D m a) xs = Inr (map (driver_carry D m a) xs)"
    if "set xs \<subseteq> set infos" for xs
    using that type by (induction xs) (auto simp: carry_faultSpace_eq)
  then have "map_result (carry_faultSpace D m a) infos = Inr (map (driver_carry D m a) infos)" by simp
  then show ?thesis
    by (simp add: carry_faultSpaces_def) (simp add: List.map_filter_def filter_map comp_def)
qed

section \<open>Sequences\<close>

lemma all_applicable_snoc:
  "all_applicable fits app (ms @ [m]) ast \<longleftrightarrow> all_applicable fits app ms ast \<and>
     (\<forall>b. apply_all app ms ast = Inr b \<longrightarrow> all_applicable fits app [m] b)"
  by (induction ms arbitrary: ast) (auto split: sum.splits)

lemma seq_sound_snoc:
  assumes "seq_sound (lib_lodash D) ms ast" and "mutateAST (lib_lodash D) ms ast = Inr b"
    and "applicable (lib_lodash D) m b" and "apply_mutation (lib_lodash D) m b = Inr c" and "sound_mutation m"
  shows "seq_sound (lib_lodash D) (ms @ [m]) ast" and "mutateAST (lib_lodash D) (ms @ [m]) ast = Inr c"
  using assms
  by (auto simp: seq_sound_def seq_applicable_def all_applicable_snoc mutateAST_def apply_all_append
      split: sum.splits)

lemma seq_sound_complete:
  "seq_sound (lib_lodash D) ms ast \<Longrightarrow> complete ast \<Longrightarrow> mutateAST (lib_lodash D) ms ast = Inr b \<Longrightarrow> complete b"
proof (induction ms arbitrary: ast)
  case (Cons m ms)
  then obtain a where a: "apply_mutation (lib_lodash D) m ast = Inr a" "mutateAST (lib_lodash D) ms a = Inr b"
    by (auto simp: mutateAST_def)
  have "complete a"
    using Cons.prems(1,2) a(1) by (intro sound_edit_complete [of m ast a]) (auto simp: seq_sound_def seq_applicable_def)
  moreover have "seq_sound (lib_lodash D) ms a"
    using Cons.prems(1) a(1) by (auto simp: seq_sound_def seq_applicable_def split: sum.splits)
  ultimately show ?case using Cons.IH a(2) by blast
qed (simp add: mutateAST_def)

text \<open>The visitor of the driver, along a sequence of the client.\<close>

lemma driver_carry_visitor_eq:
  "driver_carry_visitor D ast prev nextMutation j infos = Inr (case nextMutation of None \<Rightarrow> infos
     | Some m \<Rightarrow> List.map_filter (driver_carry D m ast) infos, True)"
  by (simp add: driver_carry_visitor_def split: option.split)

lemma driver_carry_loop:
  "seq_sound (lib_lodash D) ms ast \<Longrightarrow> complete ast \<Longrightarrow> spaces_at ast infos \<Longrightarrow>
   driver_carry_visitor D ast prev (mutation_at_0 ms) j infos = Inr (infos1, True) \<Longrightarrow>
   mutateAST_loop (lib_lodash D) (driver_carry_visitor D) ms i ast infos1 = Inr (ast', infos') \<Longrightarrow>
   mutateAST (lib_lodash D) ms ast = Inr ast' \<and> spaces_at ast' infos'"
proof (induction ms arbitrary: ast infos prev j infos1 i)
  case Nil
  then show ?case by (auto simp: driver_carry_visitor_eq mutateAST_def)
next
  case (Cons m ms)
  obtain a where a: "apply_mutation (lib_lodash D) m ast = Inr a"
    using Cons.prems(5) by (cases "apply_mutation (lib_lodash D) m ast") simp_all
  obtain infos2 where vis: "driver_carry_visitor D a (Some m) (mutation_at_0 ms) i infos1 = Inr (infos2, True)"
    by (simp add: driver_carry_visitor_eq)
  then have loop: "mutateAST_loop (lib_lodash D) (driver_carry_visitor D) ms (i + 1) a infos2 = Inr (ast', infos')"
    using Cons.prems(5) by (simp add: a)
  have m: "applicable (lib_lodash D) m ast" "sound_mutation m" and s: "seq_sound (lib_lodash D) ms a"
    using Cons.prems(1) a by (auto simp: seq_sound_def seq_applicable_def split: sum.splits)
  have "infos1 = List.map_filter (driver_carry D m ast) infos"
    using Cons.prems(4) by (simp add: driver_carry_visitor_eq)
  then have "spaces_at a infos1" using carry_spaces [OF Cons.prems(3,2) m a] by simp
  from Cons.IH [OF s sound_edit_complete [OF m Cons.prems(2) a] this vis loop] a
  show ?case by (simp add: mutateAST_def)
qed

lemma driver_carry_spaces:
  assumes "seq_sound (lib_lodash D) ms ast" and "complete ast" and "spaces_at ast infos"
    and "mutateAST_visit (lib_lodash D) (driver_carry_visitor D) ms ast infos = Inr (ast', infos')"
  shows "mutateAST (lib_lodash D) ms ast = Inr ast' \<and> spaces_at ast' infos'"
proof -
  obtain infos1 where v: "driver_carry_visitor D ast None (mutation_at_0 ms) (-1) infos = Inr (infos1, True)"
    and loop: "mutateAST_loop (lib_lodash D) (driver_carry_visitor D) ms 0 ast infos1 = Inr (ast', infos')"
    using assms(4) by (auto simp: mutateAST_visit_def driver_carry_visitor_eq)
  show ?thesis by (rule driver_carry_loop [OF assms(1-3) v loop])
qed

end

end
