(* ===== verification/ServedStates.thy ===== *)
theory ServedStates
  imports CarriedSpaces
begin

text \<open>
  The states of a generator of sequences that serves its driver: every base is the stripped
  copy of what its sequence makes of the original AST, its fault spaces are paths to nodes of
  it, and the mutations its generator will offer fit it. So what the generator answers applies
  to the original AST.
\<close>

section \<open>The invariant\<close>

text \<open>What the driver hands over: the AST of a parser, fault spaces in it, and no demand for
  identifiers as new nodes.\<close>

definition config_ok :: "seq_config \<Rightarrow> bool" where
  "config_ok cfg \<longleftrightarrow> complete (oriAST cfg) \<and> spaces_at (oriAST cfg) (faultSpaceInfo_oriAST cfg) \<and>
     node_types_ok (newNodeTypes cfg)"

text \<open>A sequence as it comes from the client: sound for the original AST, and already in the
  form that JSON gives back.\<close>

definition client_sequence :: "lodash \<Rightarrow> seq_config \<Rightarrow> mutationSequence \<Rightarrow> bool" where
  "client_sequence L cfg ms \<longleftrightarrow> seq_sound L ms (oriAST cfg) \<and> list_all (\<lambda>m. resent m = m \<and> decodes L m m) ms"

text \<open>A sequence that makes an AST with this stripped copy of the original one, and may be sent
  to the client and back.\<close>

definition makes :: "lodash \<Rightarrow> seq_config \<Rightarrow> mutationSequence \<Rightarrow> jsval \<Rightarrow> bool" where
  "makes L cfg ms k \<longleftrightarrow> seq_sound L ms (oriAST cfg) \<and> client_sequence L cfg (map resent ms) \<and>
     list_all (\<lambda>m. decodes L m (resent m)) ms \<and>
     (\<exists>a. mutateAST L ms (oriAST cfg) = Inr a \<and> mutateAST L (map resent ms) (oriAST cfg) = Inr a \<and>
        k = ASTNodeRemoveExtraAttributesDeep a)"

lemma client_sequence_makes:
  assumes "client_sequence L cfg ms" and "mutateAST L ms (oriAST cfg) = Inr a"
  shows "makes L cfg ms (ASTNodeRemoveExtraAttributesDeep a)"
proof -
  have "map resent ms = ms" using assms(1) by (intro map_idI) (simp add: client_sequence_def list_all_iff)
  with assms show ?thesis by (auto simp: makes_def client_sequence_def list_all_iff)
qed

definition base_fits :: "'r libs \<Rightarrow> seq_config \<Rightarrow> jsval \<Rightarrow> 'r ast_info \<Rightarrow> bool" where
  "base_fits D cfg k info \<longleftrightarrow> makes (lib_lodash D) cfg (mutationSeq info) k \<and> complete k \<and>
     spaces_at k (faultspaceInfo info) \<and> mutation_gen_valid (mutationGen info) \<and>
     gen_fits D k (faultspaceInfo info) (mutationGen info)"

definition maps_distinct :: "'r seq_gen \<Rightarrow> bool" where
  "maps_distinct st \<longleftrightarrow> distinct (map fst (dist_ast_infoMap st)) \<and>
     (\<forall>(d, m) \<in> set (dist_ast_infoMap st). distinct (map fst m))"

definition gen_ok :: "'r libs \<Rightarrow> seq_config \<Rightarrow> 'r seq_gen \<Rightarrow> bool" where
  "gen_ok D cfg st \<longleftrightarrow> seq_inv (lib_lodash D) cfg st \<and> maps_distinct st \<and>
     (\<forall>(d, k, info) \<in> bases st. base_fits D cfg k info)"

lemma base_fits_stripped: "base_fits D cfg k info \<Longrightarrow> ASTNodeRemoveExtraAttributesDeep k = k"
  by (auto simp: base_fits_def makes_def)

section \<open>The maps\<close>

lemma map_entry_keys [simp]: "map fst (AList.map_entry k f al) = map fst al"
  by (induction al) auto

lemma bases_unique:
  assumes "maps_distinct st" and "(d, k, i) \<in> bases st" and "(d, k, j) \<in> bases st"
  shows "i = j"
proof -
  obtain m n where m: "(d, m) \<in> set (dist_ast_infoMap st)" "(k, i) \<in> set m"
    and n: "(d, n) \<in> set (dist_ast_infoMap st)" "(k, j) \<in> set n"
    using assms(2,3) by (auto simp: bases_def)
  have "m = n" using m(1) n(1) assms(1) by (auto simp: maps_distinct_def dest: eq_key_imp_eq_value)
  with m n assms(1) show ?thesis by (auto simp: maps_distinct_def dest: eq_key_imp_eq_value)
qed

lemma bases_store_cases:
  assumes "(d', k', i) \<in> bases (store_gen d k gen st)"
  shows "(d', k', i) \<in> bases st \<or> d' = d \<and> k' = k \<and> (\<exists>j. (d, k, j) \<in> bases st \<and> i = j\<lparr>mutationGen := gen\<rparr>)"
  using assms by (fastforce simp: bases_def store_gen_def dest!: map_entry_mem)

lemma maps_distinct_store: "maps_distinct st \<Longrightarrow> maps_distinct (store_gen d k gen st)"
  by (fastforce simp: maps_distinct_def store_gen_def dest!: map_entry_mem)

lemma maps_distinct_drop: "maps_distinct st \<Longrightarrow> drop_base k ms st = Inr st' \<Longrightarrow> maps_distinct st'"
  by (fastforce simp: maps_distinct_def drop_base_def distinct_delete dest!: map_entry_mem)

lemma infoMap_at_distinct: "maps_distinct st \<Longrightarrow> distinct (map fst (infoMap_at st d))"
  by (auto simp: maps_distinct_def infoMap_at_def split: option.split dest: map_of_SomeD)

lemma maps_distinct_fields:
  "dist_ast_infoMap st' = dist_ast_infoMap st \<Longrightarrow> maps_distinct st' = maps_distinct st"
  by (simp add: maps_distinct_def)

lemma maps_distinct_add:
  assumes "maps_distinct st" and "add_base D cfg copy k ms infos st = Returned st'"
  shows "maps_distinct st'"
proof -
  obtain gen r seed where "new_mutation_gen D copy infos (allowedTypes cfg) (newNodeTypes cfg)
      (replaceableNodeType cfg) seed = Returned gen"
    and st': "st' = st\<lparr>sg_rng := r, dist_ast_infoMap := AList.update (distance ms)
      (AList.update k \<lparr>faultspaceInfo = infos, mutationGen = gen, mutationSeq = ms\<rparr> (infoMap_at st (distance ms)))
      (dist_ast_infoMap st)\<rparr>"
    by (rule add_base_Returned [OF assms(2)])
  show ?thesis
    using assms(1) infoMap_at_distinct [OF assms(1), of "distance ms"]
    by (fastforce simp: maps_distinct_def st' distinct_update dest!: in_set_update)
qed

lemma addKnownAST_maps_distinct:
  assumes "maps_distinct st" and "addKnownAST D T cfg ast ms spaces st = Returned (result, st')"
  shows "maps_distinct st'"
proof (cases "map_of (ast_DistMap st) (ast_key ast) = None")
  case True
  let ?st1 = "st\<lparr>ast_DistMap := AList.update (ast_key ast) (distance ms) (ast_DistMap st)\<rparr>"
  obtain st2 where two: "(if distance ms < maxDistance cfg then
             bind_outcome (outcome_of (known_infos (lib_lodash D) cfg ms spaces)) (\<lambda>infos.
               if infos \<noteq> [] then add_base D cfg (ASTNodeRemoveExtraAttributesDeep ast) (ast_key ast) ms infos ?st1
               else Returned ?st1)
           else Returned ?st1) = Returned st2"
    and c: "check_compiled T cfg (ASTNodeRemoveExtraAttributesDeep ast) st2 = Inr (result, st')"
    using assms(2) True by (auto simp: addKnownAST_key Let_def)
  have "maps_distinct ?st1" using assms(1) by (simp add: maps_distinct_def)
  then have "maps_distinct st2"
    using two by (auto split: if_splits dest: maps_distinct_add)
  with check_compiled_maps(1) [OF c] show ?thesis by (simp add: maps_distinct_def)
next
  case False
  with assms addKnownAST_seen [OF False] show ?thesis by simp
qed

section \<open>Keys of complete ASTs\<close>

lemma complete_key: "complete v \<Longrightarrow> ast_key v = ASTNodeRemoveExtraAttributesDeep v"
  by (simp add: ast_key_def json_text_of_json complete_is_json complete_stripped)

lemma makes_derives: "makes L cfg ms (ASTNodeRemoveExtraAttributesDeep ast) \<Longrightarrow> derives L (oriAST cfg) ms (ast_key ast)"
  using apply_all_derives by (fastforce simp: makes_def mutateAST_def ast_key_def)

section \<open>New sequences\<close>

text \<open>The ASTs seen so far, and sequences whose ASTs are new and different from each other.\<close>

definition known :: "'r seq_gen \<Rightarrow> jsval set" where
  "known st = fst ` set (ast_DistMap st)"

definition makes_new :: "lodash \<Rightarrow> seq_config \<Rightarrow> jsval set \<Rightarrow> jsval set \<Rightarrow> mutationSequence list \<Rightarrow> bool" where
  "makes_new L cfg K K' mss \<longleftrightarrow> K \<subseteq> K' \<and>
     (\<exists>ks. list_all2 (makes L cfg) mss ks \<and> distinct ks \<and> set ks \<subseteq> K' - K)"

fun replied :: "seq_reply \<Rightarrow> mutationSequence list" where
  "replied (NewSequence ms) = [ms]"
| "replied _ = []"

lemma makes_new_Nil [simp]: "makes_new L cfg K K' [] \<longleftrightarrow> K \<subseteq> K'"
  by (simp add: makes_new_def)

lemma makes_new_one: "makes_new L cfg K K' [ms] \<longleftrightarrow> K \<subseteq> K' \<and> (\<exists>k. makes L cfg ms k \<and> k \<in> K' - K)"
  by (auto simp: makes_new_def list_all2_Cons1)

lemma makes_new_append:
  assumes "makes_new L cfg K K1 xs" and "makes_new L cfg K1 K2 ys"
  shows "makes_new L cfg K K2 (xs @ ys)"
proof -
  obtain ks ls where ks: "list_all2 (makes L cfg) xs ks" "distinct ks" "set ks \<subseteq> K1 - K"
    and ls: "list_all2 (makes L cfg) ys ls" "distinct ls" "set ls \<subseteq> K2 - K1" and K: "K \<subseteq> K1" "K1 \<subseteq> K2"
    using assms by (auto simp: makes_new_def)
  have "list_all2 (makes L cfg) (xs @ ys) (ks @ ls)" using ks(1) ls(1) by (rule list_all2_appendI)
  moreover have "distinct (ks @ ls)" using ks ls by auto
  moreover have "set (ks @ ls) \<subseteq> K2 - K" using ks(3) ls(3) K by auto
  ultimately show ?thesis using K unfolding makes_new_def by blast
qed

lemma makes_new_later: "makes_new L cfg K1 K2 mss \<Longrightarrow> K \<subseteq> K1 \<Longrightarrow> makes_new L cfg K K2 mss"
  using makes_new_append [of L cfg K K1 "[]" K2 mss] by simp

lemma makes_new_more: "makes_new L cfg K K1 mss \<Longrightarrow> K1 \<subseteq> K2 \<Longrightarrow> makes_new L cfg K K2 mss"
  using makes_new_append [of L cfg K K1 mss K2 "[]"] by simp

lemma makes_new_mono: "makes_new L cfg K K' mss \<Longrightarrow> K \<subseteq> K'"
  by (simp add: makes_new_def)

lemma makes_new_all: "makes_new L cfg K K' mss \<Longrightarrow> list_all (\<lambda>ms. \<exists>k. makes L cfg ms k) mss"
  unfolding makes_new_def by (auto simp: list_all_iff dest: list_all2_in_left)

lemma makes_new_distinct:
  assumes "makes_new L cfg K K' mss"
  shows "distinct (map (\<lambda>ms. map_sum id ASTNodeRemoveExtraAttributesDeep (mutateAST L ms (oriAST cfg))) mss)"
    and "list_all (\<lambda>ms. \<exists>k. map_sum id ASTNodeRemoveExtraAttributesDeep (mutateAST L ms (oriAST cfg)) = Inr k \<and> k \<notin> K \<and> k \<in> K') mss"
proof -
  obtain ks where ks: "list_all2 (makes L cfg) mss ks" "distinct ks" "set ks \<subseteq> K' - K"
    using assms by (auto simp: makes_new_def)
  have "map (\<lambda>ms. map_sum id ASTNodeRemoveExtraAttributesDeep (mutateAST L ms (oriAST cfg))) mss = map Inr ks"
    using ks(1) by (induction rule: list_all2_induct) (auto simp: makes_def)
  with ks(2) show "distinct (map (\<lambda>ms. map_sum id ASTNodeRemoveExtraAttributesDeep (mutateAST L ms (oriAST cfg))) mss)"
    by (simp add: distinct_map)
  have "\<exists>k \<in> set ks. makes L cfg ms k" if "ms \<in> set mss" for ms
    using list_all2_in_left [OF ks(1) that] by blast
  with ks(3) show "list_all (\<lambda>ms. \<exists>k. map_sum id ASTNodeRemoveExtraAttributesDeep (mutateAST L ms (oriAST cfg)) = Inr k \<and> k \<notin> K \<and> k \<in> K') mss"
    by (fastforce simp: list_all_iff makes_def)
qed

lemma known_store [simp]: "known (store_gen d k gen st) = known st"
  by (simp add: known_def)

lemma known_rng [simp]: "known (st\<lparr>sg_rng := r\<rparr>) = known st"
  by (simp add: known_def)

context clean_libs
begin

section \<open>Adding a base\<close>

lemma gen_ok_add:
  assumes ok: "gen_ok D cfg st" and cfg: "config_ok cfg"
    and ms: "makes (lib_lodash D) cfg ms (ASTNodeRemoveExtraAttributesDeep ast)"
    and ast: "complete ast" and sp: "spaces_at (ASTNodeRemoveExtraAttributesDeep ast) infos"
    and add: "addKnownAST D T cfg ast ms (SpaceInfos infos) st = Returned (result, st')"
  shows "gen_ok D cfg st'"
proof -
  let ?k = "ASTNodeRemoveExtraAttributesDeep ast"
  have inv: "seq_inv (lib_lodash D) cfg st'"
    using ok addKnownAST_inv [OF _ makes_derives [OF ms] add] by (simp add: gen_ok_def)
  have dist: "maps_distinct st'" using ok addKnownAST_maps_distinct [OF _ add] by (simp add: gen_ok_def)
  have k: "complete ?k" by (rule complete_stripped [OF ast])
  have "base_fits D cfg k info" if b: "(d, k, info) \<in> bases st'" for d k info
  proof (cases "(d, k, info) \<in> bases st")
    case True
    with ok show ?thesis by (auto simp: gen_ok_def)
  next
    case False
    have new: "map_of (ast_DistMap st) (ast_key ast) = None"
    proof (rule ccontr)
      assume "map_of (ast_DistMap st) (ast_key ast) \<noteq> None"
      from addKnownAST_seen [OF this, of D T cfg ms "SpaceInfos infos"] add b False show False by simp
    qed
    from addKnownAST_new(3) [OF add new b] False have kk: "k = ?k"
      and made: "base_made_of D cfg ast ms (SpaceInfos infos) info"
      by (auto simp: complete_key [OF ast])
    then obtain seed where i: "mutationSeq info = ms" "faultspaceInfo info = infos"
      and gen: "new_mutation_gen D ?k infos (allowedTypes cfg) (newNodeTypes cfg) (replaceableNodeType cfg) seed
        = Returned (mutationGen info)"
      by (auto simp: base_made_of_def known_infos_def)
    have long: "list_all (\<lambda>x. 2 \<le> length (info_faultSpace x) \<and> plain_path (info_faultSpace x)) infos"
      using sp by (auto simp: spaces_at_def list_all_iff)
    then have "[] \<notin> set (map info_faultSpace infos)" by (auto simp: list_all_iff)
    with new_mutation_gen_valid(1) [OF gen k] new_mutation_gen_fits [OF gen k long] cfg ms sp i kk k show ?thesis
      by (simp add: base_fits_def config_ok_def)
  qed
  with inv dist show ?thesis by (auto simp: gen_ok_def)
qed

lemma gen_ok_start:
  assumes "config_ok cfg" and "new_seq_gen D T cfg seed = Returned st"
  shows "gen_ok D cfg st"
proof -
  let ?st0 = "\<lparr>sg_rng = new_chance (lib_chance D) seed, bins = [], dist_ast_infoMap = [], ast_DistMap = []\<rparr>"
  obtain result where add: "addKnownAST D T cfg (oriAST cfg) [] (SpaceInfos (faultSpaceInfo_oriAST cfg)) ?st0
      = Returned (result, st)"
    using assms(2) by (auto simp: new_seq_gen_def)
  have "gen_ok D cfg ?st0" by (simp add: gen_ok_def seq_inv_def bases_def maps_distinct_def)
  moreover have "makes (lib_lodash D) cfg [] (ASTNodeRemoveExtraAttributesDeep (oriAST cfg))"
    by (simp add: makes_def client_sequence_def seq_sound_def seq_applicable_def mutateAST_def)
  ultimately show ?thesis
    using assms(1) by (intro gen_ok_add [OF _ assms(1) _ _ _ add]) (simp_all add: config_ok_def spaces_at_strip)
qed

text \<open>A drawn mutation makes a sound sequence.\<close>

lemma decodes_resent: "decodes L m (resent m) \<Longrightarrow> decodes L (resent m) (resent m)"
  by (simp add: decodes_def)

lemma makes_snoc:
  assumes cfg: "config_ok cfg" and ms: "makes (lib_lodash D) cfg ms k" and fits: "mutation_fits (lib_lodash D) k infos m"
    and ap: "apply_mutation (lib_lodash D) m k = Inr k'"
  shows "makes (lib_lodash D) cfg (ms @ [m]) k' \<and> ASTNodeRemoveExtraAttributesDeep k' = k'"
proof -
  obtain a where a: "seq_sound (lib_lodash D) ms (oriAST cfg)" "mutateAST (lib_lodash D) ms (oriAST cfg) = Inr a"
    and r: "seq_sound (lib_lodash D) (map resent ms) (oriAST cfg)"
      "mutateAST (lib_lodash D) (map resent ms) (oriAST cfg) = Inr a"
      "list_all (\<lambda>m. decodes (lib_lodash D) m (resent m)) ms"
    and k: "k = ASTNodeRemoveExtraAttributesDeep a"
    using ms by (auto simp: makes_def client_sequence_def)
  have m: "applicable (lib_lodash D) m k" "sound_mutation m" "made_for (lib_lodash D) k m"
    using fits by (simp_all add: mutation_fits_def)
  have c: "complete a" using seq_sound_complete [OF a(1) _ a(2)] cfg by (simp add: config_ok_def)
  note acc = drawn_accepted [OF m(3) [unfolded k] complete_wf_val [OF c]]
  obtain a' where a': "applicable (lib_lodash D) m a" "apply_mutation (lib_lodash D) m a = Inr a'"
    "ASTNodeRemoveExtraAttributesDeep a' = k'"
    using sound_mutation_lifts [of m a k'] m ap k acc(1) by auto
  have d: "decodes (lib_lodash D) m (resent m)"
    using m k complete_stripped [OF c] by (intro drawn_decodes [of m k]) simp_all
  have "apply_mutation (lib_lodash D) (resent m) a = Inr a'" using resent_apply [OF acc] a'(2) by simp
  from seq_sound_snoc [OF r(1,2) _ this] a'(1) m(2)
  have "seq_sound (lib_lodash D) (map resent (ms @ [m])) (oriAST cfg)"
    "mutateAST (lib_lodash D) (map resent (ms @ [m])) (oriAST cfg) = Inr a'" by simp_all
  with seq_sound_snoc [OF a a'(1,2) m(2)] a'(3) r(3) d decodes_resent
  show ?thesis by (auto simp: makes_def client_sequence_def list_all_iff)
qed

text \<open>Extending a base: the mutation applies, and the fault spaces are carried.\<close>

lemma extend_base_fits:
  assumes ok: "gen_ok D cfg st" and cfg: "config_ok cfg" and base: "makes (lib_lodash D) cfg (mutationSeq info) k"
    "complete k" "spaces_at k (faultspaceInfo info)"
    and fits: "mutation_fits (lib_lodash D) k (faultspaceInfo info) m"
    and e: "extend_base D T cfg k info m st = Returned (result, ms, st')"
  shows "gen_ok D cfg st'" and "known st \<subseteq> known st'"
    and "result = SUCCESS \<Longrightarrow> makes_new (lib_lodash D) cfg (known st) (known st') [ms]"
proof -
  let ?infos = "List.map_filter (driver_carry D m k) (faultspaceInfo info)"
  have carried: "carry_faultSpaces D m k (faultspaceInfo info) = Inr ?infos"
    by (rule fitting_carry [OF base(3) fits])
  obtain k' where k': "apply_mutation (lib_lodash D) m k = Inr k'" and ms: "ms = mutationSeq info @ [m]"
    and add: "addKnownAST D T cfg k' ms (SpaceInfos ?infos) st = Returned (result, st')"
    using e carried by (auto simp: extend_base_def Let_def)
  note mk = makes_snoc [OF cfg base(1) fits k']
  have m: "applicable (lib_lodash D) m k" "sound_mutation m" using fits by (simp_all add: mutation_fits_def)
  show "gen_ok D cfg st'"
    using mk ms sound_edit_complete [OF m base(2) k'] carry_spaces [OF base(3,2) m k']
    by (intro gen_ok_add [OF ok cfg _ _ _ add]) simp_all
  have makes: "makes (lib_lodash D) cfg ms k'" and c: "complete k'" "ast_key k' = k'"
    using mk ms sound_edit_complete [OF m base(2) k'] complete_key [of k'] by simp_all
  have dom: "known st' = insert k' (known st)"
    using ok addKnownAST_inv [OF _ makes_derives add, of "lib_lodash D"] makes mk c(2)
    by (auto simp: gen_ok_def known_def)
  then show "known st \<subseteq> known st'" by blast
  have "k' \<notin> known st" if "result = SUCCESS"
    using addKnownAST_seen [of st k' D T cfg ms "SpaceInfos ?infos"] add that c(2)
    by (auto simp: known_def map_of_eq_None_iff)
  with makes dom show "makes_new (lib_lodash D) cfg (known st) (known st') [ms]" if "result = SUCCESS"
    using that by (auto simp: makes_new_one)
qed

section \<open>A call\<close>

definition request_plain :: "seq_request \<Rightarrow> bool" where
  "request_plain request \<longleftrightarrow> (case requestAST request of None \<Rightarrow> True | Some ast \<Rightarrow> complete ast)"

lemma gen_ok_rng: "gen_ok D cfg st \<Longrightarrow> gen_ok D cfg (st\<lparr>sg_rng := r\<rparr>)"
  using seq_inv_subset [of "lib_lodash D" cfg st "st\<lparr>sg_rng := r\<rparr>"]
  by (simp add: gen_ok_def bases_def maps_distinct_def)

lemma gen_ok_drop:
  assumes "gen_ok D cfg st" and "drop_base k ms st = Inr st'"
  shows "gen_ok D cfg st'"
  using assms drop_base_Inr [OF assms(2)] maps_distinct_drop [OF _ assms(2)]
    seq_inv_subset [of "lib_lodash D" cfg st st']
  by (auto simp: gen_ok_def)

lemma gen_ok_store:
  assumes ok: "gen_ok D cfg st" and b: "(d, k, info) \<in> bases st"
    and gen: "mutation_gen_valid gen" "gen_fits D k (faultspaceInfo info) gen"
  shows "gen_ok D cfg (store_gen d k gen st)"
proof -
  have "base_fits D cfg k' i" if mem: "(d', k', i) \<in> bases (store_gen d k gen st)" for d' k' i
  proof (cases "(d', k', i) \<in> bases st")
    case True
    with ok show ?thesis by (auto simp: gen_ok_def)
  next
    case False
    then obtain j where j: "(d, k, j) \<in> bases st" "i = j\<lparr>mutationGen := gen\<rparr>" "k' = k"
      using bases_store_cases [OF mem] by blast
    have "j = info" using bases_unique [OF _ j(1) b] ok by (simp add: gen_ok_def)
    moreover have "base_fits D cfg k info" using ok b by (auto simp: gen_ok_def)
    ultimately show ?thesis using gen j by (simp add: base_fits_def)
  qed
  with ok seq_inv_store maps_distinct_store show ?thesis by (auto simp: gen_ok_def)
qed

lemma choose_base_plain:
  assumes "choose_base D cfg request st = Returned (Base d k a info, st1)" and "gen_ok D cfg st"
    and "request_plain request"
  shows "(d, k, info) \<in> bases st" and "a = k" and "base_fits D cfg k info"
proof -
  show b: "(d, k, info) \<in> bases st"
    using choose_base_Base(1) [OF assms(1)] assms(2) unfolding gen_ok_def by blast
  then show "base_fits D cfg k info" using assms(2) by (auto simp: gen_ok_def)
  show "a = k"
  proof (cases "requestAST request")
    case None
    with assms(1) show ?thesis using pick_base_Base(2) by (simp add: choose_base_def)
  next
    case (Some ast)
    with assms(1) have "requested_base cfg ast st = Inr (Base d k a info)" by (auto simp: choose_base_def)
    from requested_base_Base(2,3) [OF this] show ?thesis
      using assms(3) Some by (simp add: request_plain_def json_text_of_json complete_is_json)
  qed
qed

lemma drawn_from_base:
  assumes "base_fits D cfg k info" and "mutation_gen_next D request (mutationGen info) = Returned (reply, gen)"
  shows "mutation_gen_valid gen" and "gen_fits D k (faultspaceInfo info) gen"
    and "reply = NewMutation m \<Longrightarrow> mutation_fits (lib_lodash D) k (faultspaceInfo info) m"
proof -
  have b: "gen_fits D k (faultspaceInfo info) (mutationGen info)" "mutation_gen_valid (mutationGen info)" "complete k"
    using assms(1) by (simp_all add: base_fits_def)
  note f = mutation_gen_next_fits [OF b base_fits_stripped [OF assms(1)] assms(2)]
  show "mutation_gen_valid gen" using mutation_gen_next_yields [OF b(2) assms(2)] by simp
  show "gen_fits D k (faultspaceInfo info) gen" using f by simp
  show "reply = NewMutation m \<Longrightarrow> mutation_fits (lib_lodash D) k (faultspaceInfo info) m" using f by simp
qed

lemma seq_gen_loop_ok:
  assumes cfg: "config_ok cfg" and req: "request_plain request"
  shows "gen_ok D cfg st \<Longrightarrow> seq_gen_loop D T signals cfg request n i st = Returned (reply, st') \<Longrightarrow>
    gen_ok D cfg st' \<and> makes_new (lib_lodash D) cfg (known st) (known st') (replied reply)"
proof (induction n arbitrary: i st)
  case (Suc n)
  show ?case
  proof (rule seq_gen_round [OF Suc.prems(2)])
    fix choice
    assume c: "choose_base D cfg request st = Returned (choice, st')"
      and r: "reply = Finished \<or> reply = ExhaustedForRequestedAST"
    obtain r where "st' = st\<lparr>sg_rng := r\<rparr>" by (rule choose_base_state [OF c])
    with r gen_ok_rng [OF Suc.prems(1)] show ?thesis by auto
  next
    fix d k a info st1 r gen
    assume c: "choose_base D cfg request st = Returned (Base d k a info, st1)"
      and g: "mutation_gen_next D (mutation_request request) (mutationGen info) = Returned (r, gen)"
      and out: "(case r of
          NoMutation \<Rightarrow>
            bind_outcome (outcome_of (drop_base k (mutationSeq info) (store_gen d k gen st1))) (\<lambda>st3.
            if requestAST request \<noteq> None
            then Returned (if isAllASTDone cfg st3 then Finished else ExhaustedForRequestedAST, st3)
            else seq_gen_loop D T signals cfg request n (Suc i) st3)
        | RequestNotFulfilled \<Rightarrow> Returned (ExhaustedForRequestedAST, store_gen d k gen st1)
        | NewMutation m \<Rightarrow>
            bind_outcome (extend_base D T cfg a info m (store_gen d k gen st1)) (\<lambda>(result, ms, st3).
            if answers_new (lib_names D) cfg result ms then Returned (NewSequence ms, st3)
            else seq_gen_loop D T signals cfg request n (Suc i) st3)) = Returned (reply, st')"
    obtain rr where st1: "st1 = st\<lparr>sg_rng := rr\<rparr>" by (rule choose_base_state [OF c])
    let ?st2 = "store_gen d k gen st1"
    have known: "known ?st2 = known st" by (simp add: st1)
    note b = choose_base_plain [OF c Suc.prems(1) req]
    note drawn = drawn_from_base [OF b(3) g]
    have ok2: "gen_ok D cfg ?st2"
      using gen_ok_rng [OF Suc.prems(1)] b(1) drawn(1,2) by (intro gen_ok_store) (simp_all add: st1 bases_def)
    show ?thesis
    proof (cases r)
      case NoMutation
      with out obtain st3 where st3: "drop_base k (mutationSeq info) ?st2 = Inr st3"
        and rest: "(if requestAST request \<noteq> None
            then Returned (if isAllASTDone cfg st3 then Finished else ExhaustedForRequestedAST, st3)
            else seq_gen_loop D T signals cfg request n (Suc i) st3) = Returned (reply, st')"
        by auto
      note ok3 = gen_ok_drop [OF ok2 st3]
      have known3: "known st3 = known st" using drop_base_Inr(2) [OF st3] known by (simp add: known_def)
      show ?thesis
      proof (cases "requestAST request = None")
        case True
        with rest have "seq_gen_loop D T signals cfg request n (Suc i) st3 = Returned (reply, st')" by simp
        from Suc.IH [OF ok3 this] known3 show ?thesis by simp
      qed (use rest ok3 known3 in \<open>auto split: if_splits\<close>)
    next
      case RequestNotFulfilled
      with out ok2 known show ?thesis by simp
    next
      case (NewMutation m)
      with out obtain result ms st3 where e: "extend_base D T cfg a info m ?st2 = Returned (result, ms, st3)"
        and rest: "(if answers_new (lib_names D) cfg result ms then Returned (NewSequence ms, st3)
            else seq_gen_loop D T signals cfg request n (Suc i) st3) = Returned (reply, st')"
        by auto
      have base: "makes (lib_lodash D) cfg (mutationSeq info) k" "complete k" "spaces_at k (faultspaceInfo info)"
        using b(3) by (simp_all add: base_fits_def)
      note x = extend_base_fits [OF ok2 cfg base drawn(3) [OF NewMutation] e [unfolded b(2)]]
      show ?thesis
      proof (cases "answers_new (lib_names D) cfg result ms")
        case True
        with rest x(1) x(3) known show ?thesis by auto
      next
        case False
        with rest have "seq_gen_loop D T signals cfg request n (Suc i) st3 = Returned (reply, st')" by (simp del: answers_new_def)
        from Suc.IH [OF x(1) this] x(2) known makes_new_later show ?thesis by metis
      qed
    qed
  qed (use Suc.prems(1) in auto)
qed simp

lemma seq_gen_next_ok:
  assumes "config_ok cfg" and "request_plain request" and "gen_ok D cfg st"
    and "seq_gen_next D T signals cfg request n st = Returned (reply, st')"
  shows "gen_ok D cfg st'" and "makes_new (lib_lodash D) cfg (known st) (known st') (replied reply)"
proof -
  have "seq_gen_loop D T signals cfg request n 0 st = Returned (reply, st')"
    using assms(4) by (auto simp: seq_gen_next_def)
  from seq_gen_loop_ok [OF assms(1-3) this]
  show "gen_ok D cfg st'" "makes_new (lib_lodash D) cfg (known st) (known st') (replied reply)" by simp_all
qed

text \<open>A call with a requested AST ends when there is fuel for the stock of its base.\<close>

lemma requested_call_returns:
  assumes "requestAST request = Some ast" and "gen_ok D cfg st" and "requested_left D cfg ast st < n"
  shows "seq_gen_next D T signals cfg request n st \<noteq> Unfinished"
proof (rule seq_gen_next_returns [OF assms(1) _ _ assms(3)])
  show "seq_inv (lib_lodash D) cfg st" using assms(2) by (simp add: gen_ok_def)
  show "requested_valid cfg ast st"
    using assms(2) requested_base_Base(1)
    by (fastforce simp: requested_valid_def gen_ok_def base_fits_def split: sum.split base_choice.split)
qed

section \<open>The other operations\<close>

text \<open>A base of the client.\<close>

lemma ensure_base_ok:
  assumes "gen_ok D cfg st" and cfg: "config_ok cfg" and client: "client_sequence (lib_lodash D) cfg ms"
    and ast: "mutateAST (lib_lodash D) ms (oriAST cfg) = Inr ast"
    and e: "ensure_base D T cfg ms (ASTNodeRemoveExtraAttributesDeep ast) st = Returned st'"
  shows "gen_ok D cfg st'" and "known st \<subseteq> known st'"
proof (atomize (full), cases "findASTByMutationSequence (\<lambda>_. False) ms st = None")
  case True
  have ms: "seq_sound (lib_lodash D) ms (oriAST cfg)" using client by (simp add: client_sequence_def)
  from True obtain infos result a where v: "mutateAST_visit (lib_lodash D) (driver_carry_visitor D) ms
        (oriAST cfg) (faultSpaceInfo_oriAST cfg) = Inr (a, infos)"
    and add: "addKnownAST D T cfg (ASTNodeRemoveExtraAttributesDeep ast) ms (SpaceInfos infos) st = Returned (result, st')"
    using e by (auto simp: ensure_base_def Let_def faultSpaceInfo_oriAST_def)
  have ori: "complete (oriAST cfg)" "spaces_at (oriAST cfg) (faultSpaceInfo_oriAST cfg)"
    using cfg by (simp_all add: config_ok_def)
  have "spaces_at ast infos" using driver_carry_spaces [OF ms ori v] ast by simp
  moreover have "complete ast" by (rule seq_sound_complete [OF ms ori(1) ast])
  moreover have "makes (lib_lodash D) cfg ms (ASTNodeRemoveExtraAttributesDeep ast)"
    by (rule client_sequence_makes [OF client ast])
  ultimately have "gen_ok D cfg st'"
    by (intro gen_ok_add [OF assms(1) cfg _ _ _ add]) (simp_all add: complete_stripped spaces_at_strip)
  moreover have "known st \<subseteq> known st'"
    using addKnownAST_inv [OF _ _ add] makes_derives [OF client_sequence_makes [OF client ast]] assms(1)
    by (auto simp: gen_ok_def known_def)
  ultimately show "gen_ok D cfg st' \<and> known st \<subseteq> known st'" ..
qed (use assms in \<open>simp add: ensure_base_def\<close>)

lemma simplifyAST_ok:
  assumes "gen_ok D cfg st" and s: "simplifyAST (lib_lodash D) ast st = Inr (simplified, st')"
  shows "gen_ok D cfg st'" and "known st \<subseteq> known st'"
proof -
  have "dist_ast_infoMap st' = dist_ast_infoMap st" using s by (auto simp: simplifyAST_def)
  then show "gen_ok D cfg st'"
    using assms(1) simplifyAST_inv [OF _ s] by (simp add: gen_ok_def maps_distinct_def bases_def)
  obtain dups where "st' = st\<lparr>ast_DistMap := fold (\<lambda>dup. AList.update (json_text dup) PosInf) dups (ast_DistMap st)\<rparr>"
    using s by (auto simp: simplifyAST_def)
  then show "known st \<subseteq> known st'" using fold_update_dom [of json_text PosInf dups "ast_DistMap st"] by (simp add: known_def)
qed

end

end
