(* ===== verification/ParsedAsts.thy ===== *)
theory ParsedAsts
  imports ServedStates FaultReach
begin

text \<open>
  The ASTs the parser makes: positions hold no nodes, and tokens hold no functions. So the fault
  spaces of such an AST, which lie in functions, go through neither, and the driver hands the
  generator a configuration on which the invariant of its states starts.
\<close>

section \<open>Values without certain parts\<close>

fun free_of :: "(jsval \<Rightarrow> bool) \<Rightarrow> jsval \<Rightarrow> bool" where
  "free_of P (JArr xs) \<longleftrightarrow> \<not> P (JArr xs) \<and> list_all (free_of P) xs"
| "free_of P (JObj kvs) \<longleftrightarrow> \<not> P (JObj kvs) \<and> list_all (\<lambda>(k, v). free_of P v) kvs"
| "free_of P v \<longleftrightarrow> \<not> P v"

lemma free_of_here: "free_of P v \<Longrightarrow> \<not> P v"
  by (cases v) auto

lemma free_of_child: "free_of P v \<Longrightarrow> child v k = Some w \<Longrightarrow> free_of P w"
  by (cases v) (auto simp: list_all_iff arr_idx_Some_iff split: option.splits if_splits dest!: map_of_SomeD)

lemma free_of_cwalk: "free_of P v \<Longrightarrow> cwalk v p = Some w \<Longrightarrow> \<not> P w"
  by (induction p arbitrary: v) (auto split: option.splits dest: free_of_here free_of_child)

section \<open>The ASTs of the parser\<close>

text \<open>Nodes are not found below source positions.\<close>

fun nodes_apart :: "jsval \<Rightarrow> bool" where
  "nodes_apart (JArr xs) \<longleftrightarrow> list_all nodes_apart xs"
| "nodes_apart (JObj kvs) \<longleftrightarrow> list_all (\<lambda>(k, v).
     if k = ''range'' \<or> k = ''loc'' then free_of (\<lambda>w. isASTNode (Some w)) v else nodes_apart v) kvs"
| "nodes_apart v \<longleftrightarrow> True"

lemma nodes_apart_child: "nodes_apart v \<Longrightarrow> child v k = Some w \<Longrightarrow> k \<notin> {''range'', ''loc''} \<Longrightarrow> nodes_apart w"
  by (cases v) (auto simp: list_all_iff arr_idx_Some_iff split: option.splits if_splits dest!: map_of_SomeD)

lemma position_free: "nodes_apart v \<Longrightarrow> child v k = Some w \<Longrightarrow> k \<in> {''range'', ''loc''} \<Longrightarrow>
    free_of (\<lambda>w. isASTNode (Some w)) w"
proof (cases v)
  case (JArr xs)
  moreover assume "child v k = Some w" "k \<in> {''range'', ''loc''}"
  moreover have "arr_idx ''range'' = None" "arr_idx ''loc'' = None" by code_simp+
  ultimately show ?thesis by auto
qed (fastforce simp: list_all_iff dest!: map_of_SomeD)+

lemma node_path_loc_free: "nodes_apart v \<Longrightarrow> isASTNode (cwalk v p) \<Longrightarrow> loc_free p"
proof (induction p arbitrary: v)
  case (Cons k p)
  obtain u where u: "cwalk v (k # p) = Some u" "isASTNode (Some u)"
    using isASTNode_cwalk [OF Cons.prems(2)] Cons.prems(2) by auto
  then obtain w where w: "child v k = Some w" "cwalk w p = Some u" by (auto split: option.splits)
  then have "k \<notin> {''range'', ''loc''}"
    using position_free [OF Cons.prems(1) w(1)] free_of_cwalk [OF _ w(2)] u(2) by blast
  moreover from this have "loc_free p"
    using Cons.IH [OF nodes_apart_child [OF Cons.prems(1) w(1)]] w(2) u(2) by simp
  ultimately show ?case by simp
qed simp

definition parser_ast :: "jsval \<Rightarrow> bool" where
  "parser_ast ast \<longleftrightarrow> complete ast \<and> has_type ast ''SourceUnit'' \<and> nodes_apart ast \<and>
     (case js_prop ast ''tokens'' of None \<Rightarrow> True
      | Some tokens \<Rightarrow> free_of (\<lambda>w. has_type w ''FunctionDefinition'') tokens)"

lemma parser_ast_complete: "parser_ast ast \<Longrightarrow> complete ast"
  by (simp add: parser_ast_def)

lemma mutable_node_path:
  assumes "mutable_node L ast spaces p" and "parser_ast ast"
  shows "isASTNode (cwalk ast p) \<and> plain_path p \<and> 2 \<le> length p"
proof -
  from assms(1) obtain q f where q: "strict_prefix q p" "cwalk ast q = Some f" "has_type f ''FunctionDefinition''"
    and node: "isASTNode (cwalk ast p)"
    by (auto simp: mutable_node_def inside_function_def)
  have "q \<noteq> []"
  proof
    assume "q = []"
    with q(2,3) assms(2) have "has_type ast ''FunctionDefinition''" "has_type ast ''SourceUnit''"
      by (simp_all add: parser_ast_def)
    then show False by (simp add: has_type_def)
  qed
  then obtain k r where k: "q = k # r" by (cases q) auto
  then obtain r' where p: "p = k # r'" "r' \<noteq> []" using q(1) by (auto elim: strict_prefixE')
  have "k \<noteq> ''tokens''"
  proof
    assume t: "k = ''tokens''"
    obtain tokens where "js_prop ast ''tokens'' = Some tokens" "cwalk tokens r = Some f"
      using q(2) k t child_js_prop by (auto split: option.splits)
    with assms(2) q(3) free_of_cwalk show False by (fastforce simp: parser_ast_def)
  qed
  moreover have "loc_free p" using node_path_loc_free [of ast p] node assms(2) by (auto simp: parser_ast_def)
  ultimately show ?thesis using node p by (cases r') (auto simp: plain_path_def)
qed

lemma generated_spaces_at:
  assumes "generateFaultSpace L ast spaces = Inr ps" and "parser_ast ast"
  shows "spaces_at ast (map (\<lambda>p. faultSpaceToFaultSpaceInfo p types) ps)"
proof -
  have "distinct ps \<and> (\<forall>p \<in> set ps. mutable_node L ast spaces p)"
    using generateFaultSpace_reached [OF assms(1) complete_wf_val [OF parser_ast_complete [OF assms(2)]]] by simp
  then show ?thesis
    using mutable_node_path [OF _ assms(2)]
    by (auto simp: spaces_at_def list_all_iff faultSpaceToFaultSpaceInfo_def comp_def)
qed

section \<open>The start\<close>

lemma genMutations_parts:
  assumes "genMutations D T x ast = Returned (cfg, s)"
  obtains fss spaces gen where "generateFaultSpace (lib_lodash D) ast spaces = Inr fss" and "cfg = seq_config_of x ast fss"
    and "new_seq_gen D T cfg (gp_seed x) = Returned gen"
    and "s = \<lparr>mutationSeqGen = gen, numProcessed = 0, written = []\<rparr>"
  using assms by (auto simp: genMutations_def Let_def)

lemma genMutations_config:
  assumes "genMutations D T x ast = Returned (cfg, s)" and "parser_ast ast" and "node_types_ok (ASTNewNodeTypes x)"
  shows "config_ok cfg" and "oriAST cfg = ast"
proof -
  obtain fss spaces where "generateFaultSpace (lib_lodash D) ast spaces = Inr fss" "cfg = seq_config_of x ast fss"
    by (rule genMutations_parts [OF assms(1)])
  with assms(2,3) generated_spaces_at parser_ast_complete show "config_ok cfg" "oriAST cfg = ast"
    by (simp_all add: config_ok_def seq_config_of_def faultSpaceInfo_oriAST_def)
qed

end
