(* ===== verification/ServedDriver.thy ===== *)
theory ServedDriver
  imports ParsedAsts
begin

text \<open>
  The driver as it serves a client: it is started on the AST of a parser and handles requests
  whose sequences the client may have got from it. In all its states the invariant of the
  generator holds and no file was written twice; every sequence it answers applies to the
  original AST and may be sent back; and a request for mutants of a sequence ends.
\<close>

section \<open>The states\<close>

text \<open>The base sequence of a request, if there is one that can be read, comes from the driver.\<close>

definition request_ok :: "lodash \<Rightarrow> seq_config \<Rightarrow> iter_request \<Rightarrow> bool" where
  "request_ok L cfg request \<longleftrightarrow> (case request of
     MutateRequest obj specifier \<Rightarrow>
       (case bind_result (is_array_of obj) (map_result (objToMutation L)) of
          Inl e \<Rightarrow> True | Inr ms \<Rightarrow> client_sequence L cfg ms)
   | _ \<Rightarrow> True)"

inductive served :: "'r libs \<Rightarrow> toolchain \<Rightarrow> gen_params \<Rightarrow> jsval \<Rightarrow> seq_config \<Rightarrow> 'r driver \<Rightarrow> bool"
  for D T x ast cfg where
  started: "genMutations D T x ast = Returned (cfg, s) \<Longrightarrow> served D T x ast cfg s"
| handled: "served D T x ast cfg s \<Longrightarrow> request_ok (lib_lodash D) cfg request \<Longrightarrow>
    handle_request D T signals fuel x cfg request s = Returned (resp, s') \<Longrightarrow> served D T x ast cfg s'"

inductive_cases servedE: "served D T x ast cfg s"

text \<open>The sequences a driver has answered so far, in order.\<close>

fun answered :: "iter_response \<Rightarrow> mutationSequence list" where
  "answered (Success seqs paths locs) = seqs"
| "answered _ = []"

inductive session :: "'r libs \<Rightarrow> toolchain \<Rightarrow> gen_params \<Rightarrow> jsval \<Rightarrow> seq_config \<Rightarrow> 'r driver \<Rightarrow>
    mutationSequence list \<Rightarrow> bool" for D T x ast cfg where
  opened: "genMutations D T x ast = Returned (cfg, s) \<Longrightarrow> session D T x ast cfg s []"
| answers: "session D T x ast cfg s history \<Longrightarrow> request_ok (lib_lodash D) cfg request \<Longrightarrow>
    handle_request D T signals fuel x cfg request s = Returned (resp, s') \<Longrightarrow>
    session D T x ast cfg s' (history @ answered resp)"

lemma session_served: "session D T x ast cfg s history \<Longrightarrow> served D T x ast cfg s"
  by (induction rule: session.induct) (auto intro: served.intros)

text \<open>Its generators are reachable ones.\<close>

lemma served_reachable: "served D T x ast cfg s \<Longrightarrow> reachable D T cfg (mutationSeqGen s)"
proof (induction rule: served.induct)
  case (started s)
  then show ?case by (rule genMutations_parts) (auto intro: reachable.constructed)
qed (rule handle_request_reachable)

lemma served_files:
  "served D T x ast cfg s \<Longrightarrow> patched_src_dir x = Some dir \<Longrightarrow> files_upto dir (numProcessed s) s"
proof (induction rule: served.induct)
  case (started s)
  then show ?case by (auto simp: files_upto_def elim!: genMutations_parts)
qed (rule handle_request_files)

lemma served_ast: "served D T x ast cfg s \<Longrightarrow> oriAST cfg = ast"
  by (induction rule: served.induct) (auto simp: seq_config_of_def elim: genMutations_parts)

lemma genMutations_genSeqs_loop:
  "genMutations_genSeqs D T signals fuel cfg num st ast spec = Returned out \<Longrightarrow>
   genSeqs_loop D T signals fuel cfg ast 0 num st = Returned out"
  by (auto simp: genMutations_genSeqs_def)

lemma request_failure:
  "request_sequences D T signals fuel cfg request st \<noteq> Returned (Inl (Success seqs paths locs), st')"
  by (auto simp: request_sequences_def Let_def split: iter_request.splits option.splits if_splits)

section \<open>What fits applies\<close>

context lodash_lib
begin

lemma DeletionM_applies:
  assumes "DeletionM_applicable m ast"
  shows "\<exists>ast'. DeletionM_apply L m ast = Inr ast'"
  using assms by (rule DeletionM_applicableE) (auto simp: DeletionM_apply_elem DeletionM_apply_prop)

lemma InsertionM_applies:
  assumes "InsertionM_applicable m ast"
  shows "\<exists>ast'. InsertionM_apply L m ast = Inr ast'"
  using assms by (rule InsertionM_applicableE) (auto simp: InsertionM_apply_eq [OF lodash_lib_axioms])

lemma accepted_applies:
  assumes "applicable L m ast" and "accepted_on L ast m"
  shows "\<exists>ast'. apply_mutation L m ast = Inr ast'"
proof (cases m)
  case (Movement mv)
  then have "MovementM_applicable L mv ast" using assms(1) by simp
  then show ?thesis
    using Movement assms(2) InsertionM_applies by (elim MovementM_applicableE) (simp add: MovementM_apply_def)
qed (use assms(1) in \<open>simp_all add: DeletionM_applies InsertionM_applies ReplacementM_apply_eq\<close>)

end

section \<open>What is written\<close>

text \<open>Without simplification the file of a sequence is what mutating the original AST gives.\<close>

lemma write_sequence_source:
  assumes "write_sequence D T x cfg dir num ms s = Returned (outPath, s')" and "\<not> simplify x"
  shows "set (written s) \<subseteq> set (written s')"
    and "\<exists>src. mutateFromAST (lib_lodash D) T (oriAST cfg) ms = Inr src \<and> (outPath, Source src) \<in> set (written s')"
  using assms by (auto simp: write_sequence_def mutateFromAST_def Let_def)

lemma write_sequences_sources:
  assumes "\<not> simplify x"
  shows "write_sequences D T x cfg dir num seqs s = Returned (paths, s') \<Longrightarrow>
    set (written s) \<subseteq> set (written s') \<and>
    list_all2 (\<lambda>ms path. \<exists>src. mutateFromAST (lib_lodash D) T (oriAST cfg) ms = Inr src \<and>
      (path, Source src) \<in> set (written s')) seqs paths"
proof (induction seqs arbitrary: num s paths)
  case (Cons ms seqs)
  then obtain p s1 ps where w: "write_sequence D T x cfg dir num ms s = Returned (p, s1)"
    and rest: "write_sequences D T x cfg dir (Suc num) seqs s1 = Returned (ps, s')" "paths = p # ps" by auto
  from write_sequence_source [OF w assms] Cons.IH [OF rest(1)] rest(2) show ?case by auto
qed simp

context clean_libs
begin

section \<open>Requests\<close>

lemma genSeqs_loop_ok:
  assumes cfg: "config_ok cfg" and ast: "case ast of None \<Rightarrow> True | Some v \<Rightarrow> complete v"
  shows "gen_ok D cfg st \<Longrightarrow> genSeqs_loop D T signals fuel cfg ast j n st = Returned (seqs, st') \<Longrightarrow>
    gen_ok D cfg st' \<and> makes_new (lib_lodash D) cfg (known st) (known st') (case seqs of None \<Rightarrow> [] | Some mss \<Rightarrow> mss)"
proof (induction n arbitrary: j st seqs)
  case (Suc n)
  let ?request = "\<lparr>requestAST = ast, mutation_request = \<lparr>allowedMutationTypes = None, overriddenFaultSpace = None\<rparr>\<rparr>"
  obtain reply st1 where r: "seq_gen_next D T (signals j) cfg ?request fuel st = Returned (reply, st1)"
    using Suc.prems(2) by auto
  have "request_plain ?request" using ast by (simp add: request_plain_def)
  note ok = seq_gen_next_ok [OF cfg this Suc.prems(1) r]
  show ?case
  proof (cases reply)
    case (NewSequence ms)
    then obtain rest where rest: "genSeqs_loop D T signals fuel cfg ast (Suc j) n st1 = Returned (rest, st')"
      "seqs = map_option (Cons ms) rest"
      using Suc.prems(2) r by auto
    note IH = Suc.IH [OF ok(1) rest(1)]
    show ?thesis
    proof (cases rest)
      case None
      with IH rest(2) ok(2) show ?thesis by (auto dest: makes_new_mono)
    next
      case (Some mss)
      with IH rest(2) makes_new_append [OF ok(2)] NewSequence show ?thesis by fastforce
    qed
  qed (use Suc.prems(2) r ok in auto)
qed auto

lemma request_sequences_ok:
  assumes cfg: "config_ok cfg" and ok: "gen_ok D cfg st" and req: "request_ok (lib_lodash D) cfg request"
    and r: "request_sequences D T signals fuel cfg request st = Returned (rst, st')"
  shows "gen_ok D cfg st' \<and> makes_new (lib_lodash D) cfg (known st) (known st') (case rst of Inl _ \<Rightarrow> [] | Inr mss \<Rightarrow> mss)"
proof (cases request)
  case (RandomRequest n)
  then obtain seqs where "genSeqs_loop D T signals fuel cfg None 0 n st = Returned (seqs, st')"
    and "rst = (case seqs of None \<Rightarrow> Inl AllSpaceExhasuted | Some mss \<Rightarrow> Inr mss)"
    using r by (auto simp: request_sequences_def dest!: genMutations_genSeqs_loop)
  with genSeqs_loop_ok [OF cfg _ ok this(1)] show ?thesis by (auto split: option.splits)
next
  case (MutateRequest obj spec)
  then obtain objs ms ast st1 seqs where ms: "is_array_of obj = Inr objs" "map_result (objToMutation (lib_lodash D)) objs = Inr ms"
    and ast: "mutateAST (lib_lodash D) ms (oriAST cfg) = Inr ast"
    and e: "ensure_base D T cfg ms (ASTNodeRemoveExtraAttributesDeep ast) st = Returned st1"
    and s: "genSeqs_loop D T signals fuel cfg (Some (ASTNodeRemoveExtraAttributesDeep ast)) 0 1 st1 = Returned (seqs, st')"
    and rst: "rst = (case seqs of None \<Rightarrow> Inl AllSpaceExhasuted
      | Some mss \<Rightarrow> if mss = [] then Inl SpaceExhasutedForAST else Inr mss)"
    using r by (auto simp: request_sequences_def Let_def dest!: genMutations_genSeqs_loop)
  have client: "client_sequence (lib_lodash D) cfg ms" using req MutateRequest ms by (simp add: request_ok_def)
  have "complete ast"
    using client cfg by (intro seq_sound_complete [OF _ _ ast]) (simp_all add: client_sequence_def config_ok_def)
  then have plain: "case Some (ASTNodeRemoveExtraAttributesDeep ast) of None \<Rightarrow> True | Some v \<Rightarrow> complete v"
    by (simp add: complete_stripped)
  note e_ok = ensure_base_ok [OF ok cfg client ast e]
  from genSeqs_loop_ok [OF cfg plain e_ok(1) s] e_ok(2) rst
  show ?thesis by (auto split: option.splits if_splits dest: makes_new_later)
qed (use r in \<open>simp add: request_sequences_def\<close>)

lemma write_sequences_ok:
  "gen_ok D cfg (mutationSeqGen s) \<Longrightarrow> write_sequences D T x cfg dir num seqs s = Returned (paths, s') \<Longrightarrow>
   gen_ok D cfg (mutationSeqGen s') \<and> known (mutationSeqGen s) \<subseteq> known (mutationSeqGen s')"
proof (induction seqs arbitrary: num s paths)
  case (Cons ms seqs)
  then obtain p s1 ps where w: "write_sequence D T x cfg dir num ms s = Returned (p, s1)"
    and rest: "write_sequences D T x cfg dir (Suc num) seqs s1 = Returned (ps, s')" by auto
  have s1: "gen_ok D cfg (mutationSeqGen s1)" "known (mutationSeqGen s) \<subseteq> known (mutationSeqGen s1)"
    using write_sequence_parts(4) [OF w] simplifyAST_ok [OF Cons.prems(1)] Cons.prems(1) by fastforce+
  from Cons.IH [OF s1(1) rest] s1(2) show ?case by auto
qed auto

lemma handle_request_ok:
  assumes cfg: "config_ok cfg" and ok: "gen_ok D cfg (mutationSeqGen s)" and req: "request_ok (lib_lodash D) cfg request"
    and h: "handle_request D T signals fuel x cfg request s = Returned (resp, s')"
  shows "gen_ok D cfg (mutationSeqGen s')"
    and "makes_new (lib_lodash D) cfg (known (mutationSeqGen s)) (known (mutationSeqGen s')) (answered resp)"
  using h
proof (atomize (full), cases rule: handle_request_parts)
  case (failure gen)
  have "answered resp = []"
  proof (cases resp)
    case (Success seqs paths locs)
    with failure(1) request_failure show ?thesis by blast
  qed simp_all
  with request_sequences_ok [OF cfg ok req failure(1)] failure(2)
  show "gen_ok D cfg (mutationSeqGen s') \<and>
      makes_new (lib_lodash D) cfg (known (mutationSeqGen s)) (known (mutationSeqGen s')) (answered resp)" by simp
next
  case (success gen seqs' dir paths' s2 locs')
  note r = request_sequences_ok [OF cfg ok req success(1)]
  have "gen_ok D cfg (mutationSeqGen (s\<lparr>mutationSeqGen := gen\<rparr>))" using r by simp
  from write_sequences_ok [OF this success(3)] r success(4,5)
  show "gen_ok D cfg (mutationSeqGen s') \<and>
      makes_new (lib_lodash D) cfg (known (mutationSeqGen s)) (known (mutationSeqGen s')) (answered resp)"
    by (auto intro: makes_new_more)
qed

lemma answered_makes:
  assumes "config_ok cfg" and "gen_ok D cfg (mutationSeqGen s)" and "request_ok (lib_lodash D) cfg request"
    and "handle_request D T signals fuel x cfg request s = Returned (Success seqs paths locs, s')"
  shows "list_all (\<lambda>ms. \<exists>k. makes (lib_lodash D) cfg ms k) seqs"
  using makes_new_all [OF handle_request_ok(2) [OF assms]] by simp

section \<open>All states\<close>

lemma served_ok:
  assumes "parser_ast ast" and "node_types_ok (ASTNewNodeTypes x)"
  shows "served D T x ast cfg s \<Longrightarrow> config_ok cfg \<and> oriAST cfg = ast \<and> gen_ok D cfg (mutationSeqGen s)"
proof (induction rule: served.induct)
  case (started s)
  note c = genMutations_config [OF started assms]
  obtain gen where "new_seq_gen D T cfg (gp_seed x) = Returned gen" "mutationSeqGen s = gen"
    by (rule genMutations_parts [OF started]) auto
  with c gen_ok_start show ?case by simp
next
  case (handled s request signals fuel resp s')
  with handle_request_ok(1) show ?case by blast
qed

text \<open>All the sequences it answers make new ASTs.\<close>

lemma started_knows:
  assumes "genMutations D T x ast = Returned (cfg, s)"
  shows "ast_key ast \<in> known (mutationSeqGen s)"
proof -
  obtain gen where gen: "new_seq_gen D T cfg (gp_seed x) = Returned gen" "mutationSeqGen s = gen"
    and ori: "oriAST cfg = ast"
    by (rule genMutations_parts [OF assms]) (auto simp: seq_config_of_def)
  have "derives (lib_lodash D) (oriAST cfg) [] (ast_key (oriAST cfg))" by (rule derives.start)
  then show ?thesis
    using gen ori by (auto simp: new_seq_gen_def known_def seq_inv_def bases_def dest!: addKnownAST_inv [rotated 2])
qed

lemma session_new:
  assumes "parser_ast ast" and "node_types_ok (ASTNewNodeTypes x)"
  shows "session D T x ast cfg s history \<Longrightarrow>
    makes_new (lib_lodash D) cfg {ast_key ast} (known (mutationSeqGen s)) history"
proof (induction rule: session.induct)
  case (opened s)
  with started_knows show ?case by simp
next
  case (answers s history request signals fuel resp s')
  note ok = served_ok [OF assms session_served [OF answers(1)]]
  show ?case
    using handle_request_ok(2) [OF _ _ answers(2,3)] ok answers.IH by (auto intro: makes_new_append)
qed

text \<open>An answered sequence can be sent back.\<close>

lemma makes_sent_back:
  assumes "makes (lib_lodash D) cfg ms k"
  shows "bind_result (is_array_of (mutationSequence_toJSON ms)) (map_result (objToMutation (lib_lodash D))) = Inr (map resent ms)"
    and "request_ok (lib_lodash D) cfg (MutateRequest (mutationSequence_toJSON ms) spec)"
proof -
  have "map_result (objToMutation (lib_lodash D)) (map (\<lambda>m. json_text (mutation_toJSON m)) ms) = Inr (map resent ms)"
    if "list_all (\<lambda>m. decodes (lib_lodash D) m (resent m)) ms" for ms
    using that by (induction ms) (simp_all add: decodes_def)
  with assms show read: "bind_result (is_array_of (mutationSequence_toJSON ms)) (map_result (objToMutation (lib_lodash D))) = Inr (map resent ms)"
    by (simp add: is_array_of_def mutationSequence_toJSON_def makes_def)
  show "request_ok (lib_lodash D) cfg (MutateRequest (mutationSequence_toJSON ms) spec)"
    using assms by (simp only: request_ok_def iter_request.case read sum.case makes_def)
qed

text \<open>What a drawn mutation does to its AST.\<close>

lemma fitting_applies:
  assumes "mutation_fits (lib_lodash D) k infos m" and "complete k" and "ASTNodeRemoveExtraAttributesDeep k = k"
  shows "\<exists>k'. apply_mutation (lib_lodash D) m k = Inr k'"
proof -
  have m: "applicable (lib_lodash D) m k" "made_for (lib_lodash D) k m" using assms(1) by (simp_all add: mutation_fits_def)
  have acc: "accepted_on (lib_lodash D) k m"
    using drawn_accepted(1) [of k m] m(2) assms(2,3) complete_wf_val by simp
  show ?thesis
    by (rule accepted_applies [OF m(1) acc])
qed

section \<open>Requests for mutants of a sequence end\<close>

lemma write_sequences_returns: "write_sequences D T x cfg dir num seqs s \<noteq> Unfinished"
proof (induction seqs arbitrary: num s)
  case (Cons ms seqs)
  then show ?case by (auto simp: write_sequence_def Let_def)
qed simp

lemma handle_request_returns:
  "request_sequences D T signals fuel cfg request (mutationSeqGen s) \<noteq> Unfinished \<Longrightarrow>
   handle_request D T signals fuel x cfg request s \<noteq> Unfinished"
  by (auto simp: handle_request_def Let_def write_sequences_returns split: sum.splits option.splits)

lemma ensure_base_returns: "ensure_base D T cfg ms ast st \<noteq> Unfinished"
  by (auto simp: ensure_base_def Let_def addKnownAST_returns)

lemma genSeqs_one_returns:
  assumes "gen_ok D cfg st" and "requested_left D cfg ast st < fuel"
  shows "genMutations_genSeqs D T signals fuel cfg 1 st (Some ast) spec \<noteq> Unfinished"
  using requested_call_returns [OF _ assms]
  by (auto simp: genMutations_genSeqs_def split: seq_reply.splits)

lemma mutate_request_returns:
  assumes cfg: "config_ok cfg" and ok: "gen_ok D cfg (mutationSeqGen s)"
    and req: "request_ok (lib_lodash D) cfg (MutateRequest obj spec)"
  shows "\<exists>n. \<forall>fuel \<ge> n. handle_request D T signals fuel x cfg (MutateRequest obj spec) s \<noteq> Unfinished"
proof (cases "\<exists>objs ms ast st1. is_array_of obj = Inr objs \<and> map_result (objToMutation (lib_lodash D)) objs = Inr ms \<and>
    mutateAST (lib_lodash D) ms (oriAST cfg) = Inr ast \<and>
    ensure_base D T cfg ms (ASTNodeRemoveExtraAttributesDeep ast) (mutationSeqGen s) = Returned st1")
  case True
  then obtain objs ms ast st1 where ms: "is_array_of obj = Inr objs" "map_result (objToMutation (lib_lodash D)) objs = Inr ms"
    and ast: "mutateAST (lib_lodash D) ms (oriAST cfg) = Inr ast"
    and e: "ensure_base D T cfg ms (ASTNodeRemoveExtraAttributesDeep ast) (mutationSeqGen s) = Returned st1"
    by blast
  let ?ast = "ASTNodeRemoveExtraAttributesDeep ast"
  have client: "client_sequence (lib_lodash D) cfg ms" using req ms by (simp add: request_ok_def)
  note ok1 = ensure_base_ok(1) [OF ok cfg client ast e]
  have "handle_request D T signals fuel x cfg (MutateRequest obj spec) s \<noteq> Unfinished"
    if "Suc (requested_left D cfg ?ast st1) \<le> fuel" for fuel
  proof (rule handle_request_returns)
    have "genMutations_genSeqs D T signals fuel cfg 1 st1 (Some ?ast) spec \<noteq> Unfinished"
      using genSeqs_one_returns [OF ok1] that by simp
    then show "request_sequences D T signals fuel cfg (MutateRequest obj spec) (mutationSeqGen s) \<noteq> Unfinished"
      by (auto simp: request_sequences_def ms ast e Let_def)
  qed
  then show ?thesis by blast
next
  case False
  have "request_sequences D T signals fuel cfg (MutateRequest obj spec) (mutationSeqGen s) \<noteq> Unfinished" for fuel
    using False ensure_base_returns by (auto simp: request_sequences_def Let_def)
  with handle_request_returns show ?thesis by blast
qed

end

end
