(* ===== verification/SampleRun.thy ===== *)
theory SampleRun
  imports ServedDriver Sample
begin

text \<open>
  A concrete run of the driver, at which the witnesses evaluate the model: a source with one
  function \<open>function f { a; b; }\<close>, of which each statement may be deleted, a compiler that accepts
  everything, and a printer that prints nothing.
\<close>

definition demo_statement :: "string \<Rightarrow> jsval" where
  "demo_statement x = JObj [(''type'', JStr ''ExpressionStatement''),
     (''expression'', JObj [(''type'', JStr ''Identifier''), (''name'', JStr x)])]"

definition demo_function :: jsval where
  "demo_function = JObj [(''type'', JStr ''FunctionDefinition''), (''name'', JStr ''f''),
     (''body'', JObj [(''type'', JStr ''Block''), (''statements'', JArr [demo_statement ''a'', demo_statement ''b''])])]"

definition demo_ast :: jsval where
  "demo_ast = JObj [(''type'', JStr ''SourceUnit''), (''children'', JArr [demo_function])]"

definition demo_statement_path :: "string \<Rightarrow> path" where
  "demo_statement_path i = [''children'', ''0'', ''body'', ''statements'', i]"

definition demo_spaces :: "path list" where
  "demo_spaces = [[''children'', ''0'', ''body''],
     demo_statement_path ''0'', demo_statement_path ''0'' @ [''expression''],
     demo_statement_path ''1'', demo_statement_path ''1'' @ [''expression'']]"

definition demo_deletable :: "path list" where
  "demo_deletable = [demo_statement_path ''0'', demo_statement_path ''1'']"

definition demo_tools :: toolchain where
  "demo_tools = \<lparr>print_ast = (\<lambda>_. Inr ''''),
     solc = (\<lambda>_ _ _. \<lparr>out_errors = Some [''Warning''], out_contracts = Some []\<rparr>)\<rparr>"

definition demo_cfg :: seq_config where
  "demo_cfg = \<lparr>oriAST = demo_ast, minDistance = Fin 1, maxDistance = Fin 1,
     faultSpace_oriAST = demo_spaces, allowedTypes = [''DeletionM''],
     newNodeTypes = Some [], must_include_mutation_types = Some [''DeletionM''],
     replaceableNodeType = Some [], only_compilable = True, skip_same_bin = False\<rparr>"

definition demo_infos :: "faultSpaceInfo list" where
  "demo_infos = map (\<lambda>p. \<lparr>info_faultSpace = p, remainingMutation = [''DeletionM'']\<rparr>) demo_spaces"

fun the_returned :: "'a outcome \<Rightarrow> 'a \<Rightarrow> 'a" where
  "the_returned (Returned x) d = x"
| "the_returned _ d = d"

lemma the_returned_Returned: "(case p of Returned _ \<Rightarrow> True | _ \<Rightarrow> False) \<Longrightarrow> p = Returned (the_returned p d)"
  by (cases p) simp_all

lemma demo_parser_ast: "parser_ast demo_ast"
  by code_simp

lemma demo_ast_complete: "complete demo_ast"
  by (rule parser_ast_complete [OF demo_parser_ast])

lemma demo_ast_stripped: "ASTNodeRemoveExtraAttributesDeep demo_ast = demo_ast"
  by code_simp

lemma demo_infos_plain: "list_all (\<lambda>x. 2 \<le> length (info_faultSpace x) \<and> plain_path (info_faultSpace x)) demo_infos"
  by code_simp

section \<open>A generator of mutations\<close>

definition demo_space :: ast_node_space where
  "demo_space = (case new_RandomASTNodeSpace (JObj []) demo_ast of Inr S \<Rightarrow> S
     | Inl _ \<Rightarrow> \<lparr>ASTNodeMapSet = [], seeded = False\<rparr>)"

lemma demo_space_made: "new_RandomASTNodeSpace (JObj []) demo_ast = Inr demo_space"
proof -
  have "case new_RandomASTNodeSpace (JObj []) demo_ast of Inl _ \<Rightarrow> False | Inr _ \<Rightarrow> True" by code_simp
  then show ?thesis by (auto simp: demo_space_def split: sum.splits)
qed

text \<open>The generator over a node space; deletions do not read the space.\<close>

definition demo_gen_over :: "ast_node_space \<Rightarrow> nat mutation_gen" where
  "demo_gen_over S = \<lparr>possibleMutationTypes = [''DeletionM''],
     insertionM_Gen = \<lparr>ig_forAST = demo_ast, ig_astNodeSpace = S,
       insertionNewNodeGens = [], insertableSpaces = [], insertionNewNodeTypeSpace = [''ExpressionStatement'']\<rparr>,
     replacementM_Gen = \<lparr>rg_forAST = demo_ast, rg_astNodeSpace = S,
       replaceNodeType = [], newNodeTypeSpace = [], supportedReplaceableNodes = [], chosenNodeNewNodeGen = []\<rparr>,
     deletionM_Gen = \<lparr>dg_forAST = demo_ast, deletableSpace = demo_deletable\<rparr>,
     movementM_Gen = \<lparr>mg_ast = demo_ast, onlySameFunction = True, pair_deletionMInsertionMutationGen = []\<rparr>,
     gen_rng = 0\<rparr>"

definition demo_space_nodes :: "jsval list" where
  "demo_space_nodes = [JObj [(''type'', JStr ''Block''), (''statements'', JArr [demo_statement ''a'', demo_statement ''b''])],
     demo_statement ''a'', JObj [(''type'', JStr ''Identifier''), (''name'', JStr ''a'')],
     demo_statement ''b'', JObj [(''type'', JStr ''Identifier''), (''name'', JStr ''b'')]]"

lemma demo_gen_parts:
  "spaces_for ''InsertionM'' demo_infos = []" "spaces_for ''ReplacementM'' demo_infos = []"
  "spaces_for ''DeletionM'' demo_infos = demo_spaces" "spaces_for ''MovementM'' demo_infos = []"
  "getFaultSpaceInfoNodePair lodash_ref demo_ast demo_infos = Inr (zip demo_infos demo_space_nodes)"
  "new_insertion_gen libs_ref demo_ast [] S [''ExpressionStatement''] = Inr (insertionM_Gen (demo_gen_over S))"
  "new_replacement_gen libs_ref demo_ast [] S [] [] = Inr (replacementM_Gen (demo_gen_over S))"
  "new_deletion_gen libs_ref demo_ast demo_spaces = Inr \<lparr>dg_forAST = demo_ast, deletableSpace = demo_deletable\<rparr>"
  "new_movement_gen libs_ref demo_ast [] True (0 :: nat) = Returned (\<lparr>mg_ast = demo_ast, onlySameFunction = True,
     pair_deletionMInsertionMutationGen = []\<rparr>, 0)"
  by code_simp+

lemma demo_gen_made:
  "new_mutation_gen libs_ref demo_ast demo_infos [''DeletionM''] (Some []) (Some []) (SeedNumber 0)
   = Returned (demo_gen_over demo_space)"
proof -
  have "map fst (zip demo_infos demo_space_nodes) = demo_infos" "demo_infos \<noteq> []"
    by (simp_all add: demo_infos_def demo_spaces_def demo_space_nodes_def)
  then show ?thesis
    using demo_gen_parts demo_space_made
    by (simp add: new_mutation_gen_def Let_def libs_ref_def chance_ref_def) (simp add: demo_gen_over_def)
qed

section \<open>A generator of sequences\<close>

definition demo_state :: "ast_node_space \<Rightarrow> nat seq_gen" where
  "demo_state S = \<lparr>sg_rng = 1, bins = [],
     dist_ast_infoMap = [(Fin 0, [(demo_ast,
       \<lparr>faultspaceInfo = demo_infos, mutationGen = demo_gen_over S, mutationSeq = []\<rparr>)])],
     ast_DistMap = [(demo_ast, Fin 0)]\<rparr>"

abbreviation demo_start :: "nat seq_gen" where
  "demo_start \<equiv> demo_state demo_space"

text \<open>A configuration that starts there.\<close>

definition demo_config :: "seq_config \<Rightarrow> bool" where
  "demo_config cfg \<longleftrightarrow> oriAST cfg = demo_ast \<and> faultSpace_oriAST cfg = demo_spaces \<and>
     allowedTypes cfg = [''DeletionM''] \<and> newNodeTypes cfg = Some [] \<and> replaceableNodeType cfg = Some [] \<and>
     must_include_mutation_types cfg = Some [''DeletionM''] \<and> Fin 0 < maxDistance cfg \<and>
     (only_compilable cfg \<longrightarrow> \<not> skip_same_bin cfg)"

lemma demo_config_started:
  assumes "demo_config cfg"
  shows "new_seq_gen libs_ref demo_tools cfg (SeedNumber 0) = Returned demo_start"
proof -
  have "ASTNodeRemoveExtraAttributesDeep demo_ast = demo_ast" "ast_key demo_ast = demo_ast"
    "demo_infos \<noteq> []" by code_simp+
  moreover have "faultSpaceInfo_oriAST cfg = demo_infos"
    using assms by (simp add: faultSpaceInfo_oriAST_def demo_config_def demo_infos_def faultSpaceToFaultSpaceInfo_def)
  moreover have "check_compiled demo_tools cfg demo_ast st = Inr (SUCCESS, st)" for st :: "nat seq_gen"
    using assms by (simp add: check_compiled_def demo_config_def demo_tools_def a2S_def compile_def Let_def)
  ultimately show ?thesis
    using demo_gen_made assms
    by (simp add: new_seq_gen_def addKnownAST_key add_base_def known_infos_def Let_def demo_config_def
        distance_def infoMap_at_def libs_ref_def chance_ref_def demo_state_def)
qed

lemma demo_started: "new_seq_gen libs_ref demo_tools demo_cfg (SeedNumber 0) = Returned demo_start"
  by (rule demo_config_started) (simp add: demo_config_def demo_cfg_def)

lemma demo_reachable: "reachable libs_ref demo_tools demo_cfg demo_start"
  by (rule reachable.constructed [OF demo_started])

section \<open>A driver\<close>

text \<open>The command line asks for deletions only; the sequences are written as well.\<close>

definition demo_args :: cli_args where
  "demo_args = (default_args ''out'')\<lparr>arg_for_node_types := Some [], arg_replaceable_node_types := Some [],
     arg_mutation_types := [''DeletionM''], arg_must_include := Some [], arg_only_compilable := False,
     arg_seed := SeedNumber 0, arg_output_mutation := True\<rparr>"

definition demo_params :: gen_params where
  "demo_params = iter_gen_mutations demo_args"

abbreviation demo_cli_cfg :: seq_config where
  "demo_cli_cfg \<equiv> seq_config_of demo_params demo_ast demo_spaces"

definition demo_driver :: "ast_node_space \<Rightarrow> nat driver" where
  "demo_driver S = \<lparr>mutationSeqGen = demo_state S, numProcessed = 0, written = []\<rparr>"

lemma demo_params_simps:
  "interested_space_specifier demo_params = None" "gp_seed demo_params = SeedNumber 0"
  "ASTNewNodeTypes demo_params = Some []" "patched_src_dir demo_params = Some ''out''"
  "simplify demo_params \<longleftrightarrow> False"
  by (simp_all add: demo_params_def iter_gen_mutations_def demo_args_def default_args_def)

lemma demo_generates: "generateFaultSpace (lib_lodash libs_ref) demo_ast None = Inr demo_spaces"
  by code_simp

lemma demo_cli_started: "new_seq_gen libs_ref demo_tools demo_cli_cfg (SeedNumber 0) = Returned demo_start"
  by (rule demo_config_started)
    (simp add: demo_config_def seq_config_of_def demo_params_def iter_gen_mutations_def demo_args_def default_args_def)

lemma demo_starts:
  "genMutations libs_ref demo_tools demo_params demo_ast = Returned (demo_cli_cfg, demo_driver demo_space)"
proof -
  have "InterestedSpaceSpecifierParser None = Inr None" by (simp add: InterestedSpaceSpecifierParser_def)
  then show ?thesis
    by (simp add: genMutations_def demo_params_simps demo_generates demo_cli_started demo_driver_def)
qed

lemma demo_served: "served libs_ref demo_tools demo_params demo_ast demo_cli_cfg (demo_driver demo_space)"
  by (rule served.started [OF demo_starts])

text \<open>Its first request asks for a mutant of the source itself.\<close>

definition demo_request_line :: iter_request where
  "demo_request_line = MutateRequest (JArr []) (Some '''')"

definition demo_handled :: "ast_node_space \<Rightarrow> iter_response \<times> nat driver" where
  "demo_handled S = the_returned (handle_request libs_ref demo_tools (\<lambda>_ _. False) 3 demo_params demo_cli_cfg
     demo_request_line (demo_driver S)) (AllSpaceExhasuted, demo_driver S)"

lemma demo_handles:
  "handle_request libs_ref demo_tools (\<lambda>_ _. False) 3 demo_params demo_cli_cfg demo_request_line (demo_driver S)
   = Returned (demo_handled S)"
  unfolding demo_handled_def by (rule the_returned_Returned) code_simp

definition demo_deletion :: mutationSequence where
  "demo_deletion = [Deletion \<lparr>del_targetNodePath = demo_statement_path ''1''\<rparr>]"

lemma demo_response: "fst (demo_handled S) = Success [demo_deletion] [''out/0.sol''] [Unknown]"
  by code_simp

lemma demo_request_ok: "request_ok (lib_lodash libs_ref) demo_cli_cfg demo_request_line"
  by code_simp

end
