(* ===== verification/GeneratorProperties.thy ===== *)
theory GeneratorProperties
  imports DrawnMutations SampleRun
begin

text \<open>
  The properties of the random generators: what the node generators yield, that every generator
  of mutations ends after offering its stock, and that the mutations it offers fit the AST.
\<close>

section \<open>New nodes\<close>

text \<open>Property C19. \<open>processSpace\<close> ends, and yields the values a template stands for: every choice
  of one element per function in it, at every depth, exactly as often as the choices are made,
  in an order that depends on the seed. One round of fuel per level of nesting is enough.\<close>

theorem processSpace_yields_all_instances:
  assumes "lodash_lib L" and "chance_lib C" and "wf_space v" and "gen_depth v < n"
  shows "\<exists>ys. processSpace L C n v seed = Returned ys \<and> mset ys = mset (instances v)"
  by (rule space_libs.processSpace_enumerates [OF space_libsI [OF assms(1,2)] assms(3,4)])

definition demo_template :: jsval where
  "demo_template = JObj [(''type'', JStr ''UnaryOperation''),
     (''operator'', JGen [JStr ''-'', JStr ''+'']),
     (''subExpression'', JGen [JStr ''x'', JGen [JStr ''y'', JStr ''z'']])]"

theorem processSpace_yields_all_instances_witness:
  "\<exists>ys. processSpace lodash_ref chance_ref 3 demo_template (Some (SeedNumber 1)) = Returned ys \<and>
    mset ys = mset (instances demo_template)"
  by (rule processSpace_yields_all_instances [OF lodash_lib_ref chance_lib_ref]) code_simp+

text \<open>Property C22. A node generator of a random space is well typed: asked for nodes of a type,
  it yields nodes of that type, with a value for every property and none listed twice. (The
  template of identifiers is an exception of the source: it yields the array of the nodes.)\<close>

theorem node_generator_typed:
  assumes "lodash_lib L" and "chance_lib C" and "complete nullCopy" and "complete ast"
    and "new_RandomASTNodeSpace nullCopy ast = Inr S"
    and "getASTNodeGenerator L C S t ctx seed = Returned ys" and "t \<noteq> ''Identifier''"
  shows "list_all (\<lambda>node. isASTNode (Some node) \<and> has_type node t \<and> complete node) ys"
  using space_libs.generated_nodes [OF space_libsI [OF assms(1,2)] assms(3-7)] by (simp add: list_all_iff)

definition demo_nodes :: "node_sets \<Rightarrow> jsval list" where
  "demo_nodes sets = the_returned (getASTNodeGenerator lodash_ref chance_ref
     \<lparr>ASTNodeMapSet = sets, seeded = False\<rparr> ''BooleanLiteral'' None None) []"

lemma demo_nodes_made:
  "getASTNodeGenerator lodash_ref chance_ref demo_space ''BooleanLiteral'' None None
   = Returned (demo_nodes (ASTNodeMapSet demo_space))"
proof -
  have "getASTNodeGenerator lodash_ref chance_ref \<lparr>ASTNodeMapSet = sets, seeded = False\<rparr> ''BooleanLiteral'' None None
      = Returned (demo_nodes sets)" for sets
    unfolding demo_nodes_def by (rule the_returned_Returned) code_simp
  moreover have "\<lparr>ASTNodeMapSet = ASTNodeMapSet demo_space, seeded = False\<rparr> = demo_space"
    using RandomASTNodeSpace_complete(2) [OF _ demo_ast_complete demo_space_made] by simp
  ultimately show ?thesis by metis
qed

theorem node_generator_typed_witness:
  "length (demo_nodes (ASTNodeMapSet demo_space)) = 2 \<and>
    list_all (\<lambda>node. isASTNode (Some node) \<and> has_type node ''BooleanLiteral'' \<and> complete node)
      (demo_nodes (ASTNodeMapSet demo_space))"
proof
  have "length (demo_nodes sets) = 2" for sets by code_simp
  then show "length (demo_nodes (ASTNodeMapSet demo_space)) = 2" .
  show "list_all (\<lambda>node. isASTNode (Some node) \<and> has_type node ''BooleanLiteral'' \<and> complete node)
      (demo_nodes (ASTNodeMapSet demo_space))"
    by (rule node_generator_typed [OF lodash_lib_ref chance_lib_ref _ demo_ast_complete demo_space_made
        demo_nodes_made]) simp_all
qed

text \<open>Property C34. No node is ever recognised as one of a space: the membership test, which walks
  through a template like the generator does, asserts that something is left open where it
  should compare the finished value, so it fails or answers no.\<close>

theorem isNodeInSpace_never_true: "isNodeInSpace L C S node ctx \<noteq> Returned True"
  by (rule isNodeInSpace_not_True)

section \<open>Mutations\<close>

text \<open>Property C25. Spreading a deletion generator into an array ends, and gives every deletable
  path of its fault spaces once.\<close>

theorem deletions_offered_once:
  assumes "generator_libs D" and "new_deletion_gen D ast ps = Inr g"
    and "deletableFaultSpace (lib_lodash D) ast ps (Some deletableNodeTypes) = Inr ds"
  shows "\<exists>ms g' r'. drain (deletion_next D) (Suc (length (deletableSpace g))) g r = Returned (ms, g', r')
    \<and> distinct (map del_targetNodePath ms) \<and> set (map del_targetNodePath ms) = set ds"
  by (rule generator_libs.deletion_gen_permutes [OF assms])

theorem deletions_offered_once_witness:
  "\<exists>ms g' r'. drain (deletion_next libs_ref) 3 \<lparr>dg_forAST = demo_ast, deletableSpace = demo_deletable\<rparr> (5 :: nat)
      = Returned (ms, g', r') \<and> distinct (map del_targetNodePath ms) \<and>
      set (map del_targetNodePath ms) = set demo_deletable"
proof -
  have "deletableFaultSpace (lib_lodash libs_ref) demo_ast demo_spaces (Some deletableNodeTypes) = Inr demo_deletable"
    by code_simp
  moreover have "Suc (length (deletableSpace \<lparr>dg_forAST = demo_ast, deletableSpace = demo_deletable\<rparr>)) = 3"
    by (simp add: demo_deletable_def)
  ultimately show ?thesis
    using deletions_offered_once [OF generator_libs_ref demo_gen_parts(8)] by metis
qed

text \<open>What a generator of mutations offers in a row.\<close>

context generator_libs
begin

lemma drained_mutations_fit:
  assumes "complete ast" and "ASTNodeRemoveExtraAttributesDeep ast = ast"
  shows "gen_fits D ast infos g \<Longrightarrow> mutation_gen_valid g \<Longrightarrow>
   drain (mutation_gen_step D request) n g u = Returned (ms, g', u') \<Longrightarrow>
   list_all (\<lambda>m. mutation_fits (lib_lodash D) ast infos m \<and> mutationType m \<in> set (possibleMutationTypes g)) ms"
proof (induction n arbitrary: g u ms)
  case (Suc n)
  let ?fits = "mutation_fits (lib_lodash D) ast infos"
  obtain x g1 u1 where x: "mutation_gen_step D request g u = Returned (x, g1, u1)"
    and rest: "(case x of None \<Rightarrow> Returned ([], g1, u1)
     | Some m \<Rightarrow> bind_outcome (drain (mutation_gen_step D request) n g1 u1) (\<lambda>(ms, g'', r''). Returned (m # ms, g'', r'')))
      = Returned (ms, g', u')"
    using Suc.prems(3) by auto
  obtain reply where nx: "mutation_gen_next D request g = Returned (reply, g1)"
    and x': "x = (case reply of NewMutation m \<Rightarrow> Some m | _ \<Rightarrow> None)"
    by (rule mutation_gen_step_next [OF x])
  note y = mutation_gen_next_yields [OF Suc.prems(2) nx] mutation_gen_next_fits [OF Suc.prems(1,2) assms nx]
  show ?case
  proof (cases x)
    case (Some m)
    then have m: "reply = NewMutation m" using x' by (auto split: gen_reply.splits)
    obtain ms' where ms: "drain (mutation_gen_step D request) n g1 u1 = Returned (ms', g', u')" "ms = m # ms'"
      using rest Some by auto
    have "list_all (\<lambda>m. ?fits m \<and> mutationType m \<in> set (possibleMutationTypes g1)) ms'"
      by (rule Suc.IH [OF _ _ ms(1)]) (use y in auto)
    then have "list_all (\<lambda>m. ?fits m \<and> mutationType m \<in> set (possibleMutationTypes g)) ms'"
      using y(1) by (auto simp: list_all_iff)
    with y m ms(2) show ?thesis by simp
  qed (use rest in simp)
qed simp

lemmas mutation_drain_returns = mutations.drain_returns

lemmas mutation_drain_bounded = mutations.drain_bounded

end

text \<open>Property C17. Every mutation a new generator of mutations offers, one after the other, has one of the
  possible types and fits the AST, a stripped one: it goes to a fault space that waits for its type, at a
  place that exists; its new nodes are complete nodes without locations; and a movement was made for this
  AST.\<close>

theorem offered_mutations_fit:
  assumes "clean_libs D" and "new_mutation_gen D ast infos possible newTypes replTypes seed = Returned g"
    and "complete ast" and "ASTNodeRemoveExtraAttributesDeep ast = ast" and "node_types_ok newTypes"
    and "list_all (\<lambda>x. 2 \<le> length (info_faultSpace x) \<and> plain_path (info_faultSpace x)) infos"
    and "drain (mutation_gen_step D request) n g u = Returned (ms, g', u')"
  shows "list_all (\<lambda>m. mutation_fits (lib_lodash D) ast infos m \<and> mutationType m \<in> set possible) ms"
proof -
  have D: "generator_libs D" using assms(1) by (rule clean_libs.axioms(1))
  have ne: "[] \<notin> set (map info_faultSpace infos)" using assms(6) by (auto simp: list_all_iff)
  note v = generator_libs.new_mutation_gen_valid [OF D assms(2,3) ne]
  note fits = clean_libs.new_mutation_gen_fits [OF assms(1,2,3,6,5,4)]
  from generator_libs.drained_mutations_fit [OF D assms(3,4) fits v(1) assms(7)]
  show ?thesis by (simp add: v(2))
qed

definition demo_request :: gen_request where
  "demo_request = \<lparr>allowedMutationTypes = Some [''DeletionM'', ''MovementM''], overriddenFaultSpace = None\<rparr>"

definition demo_drained :: "ast_node_space \<Rightarrow> mutation list \<times> nat mutation_gen \<times> unit" where
  "demo_drained S = the_returned (drain (mutation_gen_step libs_ref demo_request) 3 (demo_gen_over S) ())
     ([], demo_gen_over S, ())"

lemma demo_drains:
  "drain (mutation_gen_step libs_ref demo_request) 3 (demo_gen_over S) () = Returned (demo_drained S)"
  unfolding demo_drained_def by (rule the_returned_Returned) code_simp

theorem offered_mutations_fit_witness:
  "length (fst (demo_drained demo_space)) = 2 \<and>
    list_all (\<lambda>m. mutation_fits lodash_ref demo_ast demo_infos m \<and> mutationType m \<in> {''DeletionM''})
      (fst (demo_drained demo_space))"
proof
  have "length (fst (demo_drained S)) = 2" for S by code_simp
  then show "length (fst (demo_drained demo_space)) = 2" .
  have "drain (mutation_gen_step libs_ref demo_request) 3 (demo_gen_over demo_space) ()
      = Returned (fst (demo_drained demo_space), fst (snd (demo_drained demo_space)), snd (snd (demo_drained demo_space)))"
    by (simp only: demo_drains prod.collapse)
  from offered_mutations_fit [OF clean_libs_ref demo_gen_made demo_ast_complete demo_ast_stripped _ demo_infos_plain this]
  show "list_all (\<lambda>m. mutation_fits lodash_ref demo_ast demo_infos m \<and> mutationType m \<in> {''DeletionM''})
      (fst (demo_drained demo_space))"
    by (simp add: node_types_ok_def libs_ref_def)
qed

text \<open>Property C18. A new generator of mutations is finite: every call of it returns or throws, and
  offering mutations ends after at most as many as it holds.\<close>

theorem mutation_generator_ends:
  assumes "generator_libs D" and "new_mutation_gen D ast infos possible newTypes replTypes seed = Returned g"
    and "complete ast" and "[] \<notin> set (map info_faultSpace infos)"
  shows "mutation_gen_next D request g \<noteq> Unfinished \<and>
    (case drain (mutation_gen_step D request) (Suc (mutations_left D g)) g u of
       Unfinished \<Rightarrow> False
     | Thrown e \<Rightarrow> True
     | Returned (ms, g', u') \<Rightarrow> length ms + mutations_left D g' \<le> mutations_left D g)"
proof -
  note v = generator_libs.new_mutation_gen_valid(1) [OF assms]
  have r: "drain (mutation_gen_step D request) (Suc (mutations_left D g)) g u \<noteq> Unfinished"
    by (rule generator_libs.mutation_drain_returns [OF assms(1) v]) simp
  show ?thesis
    using r generator_libs.mutation_gen_next_returns [OF assms(1) v]
      generator_libs.mutation_drain_bounded [OF assms(1) v]
    by (auto split: outcome.splits simp del: drain.simps)
qed

theorem mutation_generator_ends_witness:
  "mutation_gen_next libs_ref demo_request (demo_gen_over demo_space) \<noteq> Unfinished \<and>
    (case drain (mutation_gen_step libs_ref demo_request) (Suc (mutations_left libs_ref (demo_gen_over demo_space))) (demo_gen_over demo_space) () of
       Unfinished \<Rightarrow> False
     | Thrown e \<Rightarrow> True
     | Returned (ms, g', u') \<Rightarrow> length ms + mutations_left libs_ref g' \<le> mutations_left libs_ref (demo_gen_over demo_space))"
  by (rule mutation_generator_ends [OF generator_libs_ref demo_gen_made demo_ast_complete])
    (simp add: demo_infos_def demo_spaces_def demo_statement_path_def)

end
