(* ===== verification/DriverProperties.thy ===== *)
theory DriverProperties
  imports SampleRun
begin

text \<open>
  The properties of the generator of mutation sequences and of the driver: what is kept of the
  ASTs, what a call answers, that calls for an AST end, and what the driver does with the
  requests of its client.
\<close>

section \<open>The generator of sequences\<close>

text \<open>In every state the driver can bring the generator to, a base for further
  mutation is filed under the length of its sequence, is closer than the maximal distance, has
  been recorded as seen, and is what its sequence makes of the original AST, up to tokens and
  locations.\<close>

theorem reachable_bases_sound:
  assumes "generator_libs D" and "reachable D T cfg st" and "(d, k, info) \<in> bases st"
  shows "d = distance (mutationSeq info) \<and> d < maxDistance cfg \<and> k \<in> fst ` set (ast_DistMap st) \<and>
    derives (lib_lodash D) (oriAST cfg) (mutationSeq info) k"
  by (rule seq_invD [OF generator_libs.reachable_inv [OF assms(1,2)] assms(3)])

text \<open>Property C14. A sequence a call answers is new: it ends at an AST the generator had not seen,
  which it has recorded at the length of the sequence, and that length is at most the maximal
  distance.\<close>

theorem next_sequence_is_new:
  assumes "generator_libs D" and "reachable D T cfg st"
    and "seq_gen_next D T signals cfg request n st = Returned (NewSequence ms, st')"
  shows "ms \<noteq> [] \<and> distance ms \<le> maxDistance cfg \<and>
    (\<exists>k. map_of (ast_DistMap st) k = None \<and> map_of (ast_DistMap st') k = Some (distance ms) \<and>
      derives (lib_lodash D) (oriAST cfg) ms k)"
  using generator_libs.seq_gen_next_inv(3) [OF assms(1) generator_libs.reachable_inv [OF assms(1,2)] assms(3)]
  by (simp add: fresh_sequence_def)

definition demo_any :: seq_request where
  "demo_any = \<lparr>requestAST = None,
     mutation_request = \<lparr>allowedMutationTypes = None, overriddenFaultSpace = None\<rparr>\<rparr>"

definition demo_answer :: "ast_node_space \<Rightarrow> seq_reply \<times> nat seq_gen" where
  "demo_answer S = the_returned (seq_gen_next libs_ref demo_tools (\<lambda>_. False) demo_cfg demo_any 3 (demo_state S))
     (Finished, demo_state S)"

lemma demo_answered:
  "seq_gen_next libs_ref demo_tools (\<lambda>_. False) demo_cfg demo_any 3 (demo_state S)
   = Returned (NewSequence demo_deletion, snd (demo_answer S))"
proof -
  have "seq_gen_next libs_ref demo_tools (\<lambda>_. False) demo_cfg demo_any 3 (demo_state S) = Returned (demo_answer S)"
    unfolding demo_answer_def by (rule the_returned_Returned) code_simp
  moreover have "fst (demo_answer S) = NewSequence demo_deletion" by code_simp
  ultimately show ?thesis by (metis prod.collapse)
qed

theorem next_sequence_is_new_witness:
  "demo_deletion \<noteq> [] \<and> distance demo_deletion \<le> maxDistance demo_cfg \<and>
    (\<exists>k. map_of (ast_DistMap demo_start) k = None \<and>
      map_of (ast_DistMap (snd (demo_answer demo_space))) k = Some (distance demo_deletion) \<and>
      derives (lib_lodash libs_ref) (oriAST demo_cfg) demo_deletion k)"
  by (rule next_sequence_is_new [OF generator_libs_ref demo_reachable demo_answered])

text \<open>A call with a requested AST ends, however many of its new ASTs are rejected: one
  round for every mutation the generator of the AST has left, and one more, are enough.\<close>

theorem requested_call_ends:
  assumes "generator_libs D" and "reachable D T cfg st" and "requestAST request = Some ast"
    and "requested_valid cfg ast st" and "requested_left D cfg ast st < n"
  shows "seq_gen_next D T signals cfg request n st \<noteq> Unfinished"
  by (rule generator_libs.seq_gen_next_returns [OF assms(1,3) generator_libs.reachable_inv [OF assms(1,2)]
        assms(4,5)])

section \<open>The command line\<close>

text \<open>Property C32. The command line demands too much: it passes the possible types of mutations
  where the types that must occur are expected, so a sequence of a generator started by it has a
  mutation of every possible type, and with the default types at least four mutations, whatever
  the option for the required types says.\<close>

theorem cli_sequences_have_all_types:
  assumes "generator_libs D" and "cfg = seq_config_of (iter_gen_mutations args) ast fss"
    and "reachable D T cfg st"
    and "seq_gen_next D T signals cfg request n st = Returned (NewSequence ms, st')"
  shows "set (arg_mutation_types args) \<subseteq> mutationType ` set ms \<and>
    card (set (arg_mutation_types args)) \<le> length ms"
proof -
  have "pass_must_include (lib_names D) cfg ms"
    using generator_libs.seq_gen_next_inv(3) [OF assms(1) generator_libs.reachable_inv [OF assms(1,3)] assms(4)]
    by simp
  moreover have "must_include_mutation_types cfg = Some (arg_mutation_types args)"
    by (simp add: assms(2) seq_config_of_def iter_gen_mutations_def)
  ultimately have "set (arg_mutation_types args) \<subseteq> mutationType ` set ms"
    by (rule lodash_name_lib.pass_must_include_types [OF generator_libs.names_ok [OF assms(1)]])
  with types_need_mutations show ?thesis by blast
qed

definition demo_cli_answer :: "ast_node_space \<Rightarrow> seq_reply \<times> nat seq_gen" where
  "demo_cli_answer S = the_returned (seq_gen_next libs_ref demo_tools (\<lambda>_. False) demo_cli_cfg demo_any 3 (demo_state S))
     (Finished, demo_state S)"

lemma demo_cli_answered:
  "seq_gen_next libs_ref demo_tools (\<lambda>_. False) demo_cli_cfg demo_any 3 (demo_state S)
   = Returned (NewSequence demo_deletion, snd (demo_cli_answer S))"
proof -
  have "seq_gen_next libs_ref demo_tools (\<lambda>_. False) demo_cli_cfg demo_any 3 (demo_state S) = Returned (demo_cli_answer S)"
    unfolding demo_cli_answer_def by (rule the_returned_Returned) code_simp
  moreover have "fst (demo_cli_answer S) = NewSequence demo_deletion" by code_simp
  ultimately show ?thesis by (metis prod.collapse)
qed

theorem cli_sequences_have_all_types_witness:
  "set (arg_mutation_types demo_args) \<subseteq> mutationType ` set demo_deletion \<and>
    card (set (arg_mutation_types demo_args)) \<le> length demo_deletion"
proof (rule cli_sequences_have_all_types [OF generator_libs_ref _ _ demo_cli_answered])
  show "demo_cli_cfg = seq_config_of (iter_gen_mutations demo_args) demo_ast demo_spaces"
    by (simp add: demo_params_def)
  show "reachable libs_ref demo_tools demo_cli_cfg demo_start"
    by (rule reachable.constructed [OF demo_cli_started])
qed

section \<open>Requests\<close>

text \<open>Property C33. The fault space of a mutate request is read and then ignored: whenever the
  request is handled, leaving out its specifier gives the same response, files and state.\<close>

theorem override_has_no_effect:
  assumes "handle_request D T signals fuel x cfg (MutateRequest base (Some specifier)) s = Returned out"
  shows "handle_request D T signals fuel x cfg (MutateRequest base None) s = Returned out"
proof -
  have "request_sequences D T signals fuel cfg (MutateRequest base None) st = Returned r"
    if "request_sequences D T signals fuel cfg (MutateRequest base (Some specifier)) st = Returned r" for st r
    using that by (auto simp: request_sequences_def Let_def dest!: override_unused)
  moreover obtain rst gen where r: "request_sequences D T signals fuel cfg (MutateRequest base (Some specifier))
      (mutationSeqGen s) = Returned (rst, gen)"
    using assms by (auto simp: handle_request_def)
  ultimately have r': "request_sequences D T signals fuel cfg (MutateRequest base None) (mutationSeqGen s)
      = Returned (rst, gen)" by blast
  show ?thesis
  proof (cases rst)
    case (Inr seqs)
    with assms r r' show ?thesis by (cases "patched_src_dir x") (simp_all add: handle_request_def)
  qed (use assms r r' in \<open>simp add: handle_request_def\<close>)
qed

theorem override_has_no_effect_witness:
  "handle_request libs_ref demo_tools (\<lambda>_ _. False) 3 demo_params demo_cli_cfg (MutateRequest (JArr []) None)
     (demo_driver demo_space) = Returned (demo_handled demo_space)"
  by (rule override_has_no_effect [OF demo_handles [unfolded demo_request_line_def]])

text \<open>No file is overwritten: when the files written so far are distinct and belong
  to sequences numbered below the counter, they still are after a request, which appends to
  them.\<close>

theorem files_stay_distinct:
  assumes "handle_request D T signals fuel x cfg request s = Returned (resp, s')"
    and "patched_src_dir x = Some dir" and "files_upto dir (numProcessed s) s"
  shows "files_upto dir (numProcessed s') s' \<and> distinct (map fst (written s'))"
  using handle_request_files [OF assms] by (simp add: files_upto_def)

end
