(* ===== verification/Exhaustion.thy ===== *)
theory Exhaustion
  imports ServedDriver
begin

text \<open>
  The end of a search: a generator that answers with \<open>done\<close>, and a driver that reports all spaces
  exhausted, has no base left; random requests then draw nothing and change nothing. A request for
  mutants of a sequence can file new bases.
\<close>

section \<open>The generator\<close>

lemma isAllASTDone_pickable: "isAllASTDone cfg st \<longleftrightarrow> pickable cfg st = []"
  by (auto simp: isAllASTDone_def pickable_def filter_empty_conv list_ex_iff)

lemma isAllASTDone_bases:
  assumes "seq_inv L cfg st"
  shows "isAllASTDone cfg st \<longleftrightarrow> bases st = {}"
proof
  assume over: "isAllASTDone cfg st"
  have "b \<notin> bases st" for b
  proof
    assume b: "b \<in> bases st"
    obtain d k info where "b = (d, k, info)" by (cases b)
    with b assms over show False
      by (fastforce simp: isAllASTDone_def list_ex_iff bases_def dest: seq_invD)
  qed
  then show "bases st = {}" by blast
next
  assume "bases st = {}"
  then show "isAllASTDone cfg st"
    by (fastforce simp: isAllASTDone_def list_ex_iff bases_def neq_Nil_conv)
qed

lemma choose_base_AllDone:
  assumes "choose_base D cfg request st = Returned (AllDone, st')"
  shows "isAllASTDone cfg st'"
proof (cases "requestAST request")
  case None
  show ?thesis
  proof (cases "pickable cfg st = []")
    case True
    with assms None show ?thesis by (simp add: choose_base_def pick_base_def isAllASTDone_pickable)
  next
    case False
    obtain i r1 d m where "pickone (lib_chance D) (length (pickable cfg st)) (sg_rng st) = (i, r1)"
      "pickable cfg st ! i = (d, m)" by fastforce
    moreover obtain j r2 where "pickone (lib_chance D) (length m) r1 = (j, r2)" by fastforce
    ultimately show ?thesis
      using assms None False by (auto simp: choose_base_def pick_base_def Let_def split: option.splits)
  qed
next
  case (Some ast)
  with assms show ?thesis
    by (auto simp: choose_base_def requested_base_def Let_def split: option.splits if_splits)
qed

lemma seq_gen_loop_Finished:
  "seq_gen_loop D T signals cfg request n i st = Returned (Finished, st') \<Longrightarrow> isAllASTDone cfg st'"
proof (induction n arbitrary: i st)
  case (Suc n)
  then obtain choice st1 where c: "choose_base D cfg request st = Returned (choice, st1)"
    by (auto split: if_splits)
  show ?case
  proof (cases choice)
    case AllDone
    with Suc.prems c choose_base_AllDone show ?thesis by (auto split: if_splits)
  next
    case (Base d k a info)
    with Suc.prems c obtain r gen where
      "mutation_gen_next D (mutation_request request) (mutationGen info) = Returned (r, gen)"
      by (auto split: if_splits)
    with Suc.prems c Base show ?thesis
      by (cases r) (auto simp: Let_def split: if_splits dest: Suc.IH)
  qed (use Suc.prems c in \<open>auto split: if_splits\<close>)
qed simp

lemma seq_gen_loop_done:
  assumes "isAllASTDone cfg st" and "\<not> signals i" and "requestAST request = None"
  shows "seq_gen_loop D T signals cfg request (Suc n) i st = Returned (Finished, st)"
  using assms by (simp add: choose_base_def pick_base_def isAllASTDone_pickable)

section \<open>The driver\<close>

lemma genSeqs_loop_None:
  "genSeqs_loop D T signals fuel cfg ast j n st = Returned (None, st') \<Longrightarrow> isAllASTDone cfg st'"
proof (induction n arbitrary: j st)
  case (Suc n)
  let ?request = "\<lparr>requestAST = ast, mutation_request = \<lparr>allowedMutationTypes = None, overriddenFaultSpace = None\<rparr>\<rparr>"
  obtain reply st1 where r: "seq_gen_next D T (signals j) cfg ?request fuel st = Returned (reply, st1)"
    using Suc.prems by auto
  then have "seq_gen_loop D T (signals j) cfg ?request fuel 0 st = Returned (reply, st1)"
    by (simp add: seq_gen_next_def)
  with Suc.prems r show ?case
    by (cases reply) (auto dest: seq_gen_loop_Finished Suc.IH)
qed simp

lemma exhausted_done:
  assumes "handle_request D T signals fuel x cfg request s = Returned (AllSpaceExhasuted, s')"
  shows "isAllASTDone cfg (mutationSeqGen s')"
  using assms
proof (cases rule: handle_request_parts)
  case (failure gen)
  have "\<exists>fuel ast n st. genSeqs_loop D T signals fuel cfg ast 0 n st = Returned (None, gen)"
  proof (cases request)
    case (RandomRequest n)
    with failure(1) obtain rst where
      "genMutations_genSeqs D T signals fuel cfg n (mutationSeqGen s) None None = Returned (rst, gen)" "rst = None"
      by (auto simp: request_sequences_def split: option.splits)
    with genMutations_genSeqs_loop show ?thesis by blast
  next
    case (MutateRequest obj spec)
    with failure(1) obtain ast st rst where
      r: "genMutations_genSeqs D T signals fuel cfg 1 st (Some ast) spec = Returned (rst, gen)" and
      "(case rst of None \<Rightarrow> Inl AllSpaceExhasuted
        | Some seqs \<Rightarrow> if seqs = [] then Inl SpaceExhasutedForAST else Inr seqs) = Inl AllSpaceExhasuted"
      by (auto simp: request_sequences_def Let_def simp del: One_nat_def)
    from this(2) have "rst = None" by (cases rst) (simp_all split: if_splits)
    with r genMutations_genSeqs_loop show ?thesis by blast
  qed (use failure(1) in \<open>simp add: request_sequences_def\<close>)
  with failure(2) genSeqs_loop_None show ?thesis by fastforce
qed simp

text \<open>What a random request is answered then. A request for nothing, or one that is told to terminate
  before it has drawn anything, succeeds with nothing.\<close>

lemma done_answer:
  assumes over: "isAllASTDone cfg (mutationSeqGen s)"
  shows "handle_request D T signals (Suc fuel) x cfg (RandomRequest n) s =
    (if n = 0 \<or> signals 0 0 then
       (case patched_src_dir x of None \<Rightarrow> Thrown AssertionError | Some dir \<Rightarrow> Returned (Success [] [] [], s))
     else Returned (AllSpaceExhasuted, s))"
proof (cases n)
  case (Suc m)
  let ?request = "\<lparr>requestAST = None, mutation_request = \<lparr>allowedMutationTypes = None, overriddenFaultSpace = None\<rparr>\<rparr>"
  have "seq_gen_loop D T (signals 0) cfg ?request (Suc fuel) 0 (mutationSeqGen s) =
      Returned (if signals 0 0 then TerminateRequested else Finished, mutationSeqGen s)"
    using seq_gen_loop_done [OF over, of "signals 0" 0 ?request] by simp
  with Suc show ?thesis
    by (simp add: handle_request_def request_sequences_def genMutations_genSeqs_def seq_gen_next_def Let_def
        del: seq_gen_loop.simps split: option.split)
qed (simp add: handle_request_def request_sequences_def genMutations_genSeqs_def Let_def split: option.split)

lemma done_unchanged:
  assumes "isAllASTDone cfg (mutationSeqGen s)"
    and "handle_request D T signals fuel x cfg (RandomRequest n) s = Returned (resp, s')"
  shows "s' = s"
proof (cases fuel)
  case 0
  then have "handle_request D T signals (Suc 0) x cfg (RandomRequest n) s = Returned (resp, s')"
    using assms(2)
    by (cases n) (simp_all add: handle_request_def request_sequences_def genMutations_genSeqs_def seq_gen_next_def)
  then show ?thesis unfolding done_answer [OF assms(1)] by (auto split: if_splits option.splits)
next
  case (Suc f)
  with assms(2) show ?thesis unfolding done_answer [OF assms(1)] Suc by (auto split: if_splits option.splits)
qed

text \<open>The states a driver comes to by random requests alone.\<close>

inductive random_requests :: "'r libs \<Rightarrow> toolchain \<Rightarrow> gen_params \<Rightarrow> seq_config \<Rightarrow> 'r driver \<Rightarrow> 'r driver \<Rightarrow> bool"
  for D T x cfg s where
  none_yet: "random_requests D T x cfg s s"
| one_more: "random_requests D T x cfg s s1 \<Longrightarrow>
    handle_request D T signals fuel x cfg (RandomRequest n) s1 = Returned (resp, s2) \<Longrightarrow>
    random_requests D T x cfg s s2"

lemma done_random_requests:
  "random_requests D T x cfg s s' \<Longrightarrow> isAllASTDone cfg (mutationSeqGen s) \<Longrightarrow> s' = s"
  by (induction rule: random_requests.induct) (auto dest: done_unchanged)

end
