(* ===== verification/SearchEnds.thy ===== *)
theory SearchEnds
  imports Exhaustion "HOL-Library.Multiset"
begin

text \<open>
  A search up to a finite distance ends. Every round of the generator either draws a mutation for a
  base, which leaves it fewer and adds at most one base one step farther from the original AST, or
  drops a base. The bases make a multiset of pairs, the distance to go and the mutations left,
  that decreases in the multiset order over the lexicographic one.
\<close>

section \<open>Multisets that decrease\<close>

lemma replaced_in_mult:
  assumes "finite A" and "finite C" and "b \<in> A" and "B \<subseteq> A - {b} \<union> C" and "\<forall>c \<in> C. (f c, f b) \<in> r"
  shows "(image_mset f (mset_set B), image_mset f (mset_set A)) \<in> mult r"
proof -
  let ?kept = "B \<inter> (A - {b})" and ?new = "B - (A - {b})"
  have fin: "finite B" using assms(1,2,4) by (metis finite_Diff finite_UnI finite_subset)
  have B: "mset_set B = mset_set ?kept + mset_set ?new"
    using fin by (subst mset_set_Union [symmetric]) (auto intro: arg_cong [of _ _ mset_set])
  have A: "mset_set A = mset_set ?kept + mset_set (A - ?kept)"
    using assms(1) by (subst mset_set_Union [symmetric]) (auto intro: arg_cong [of _ _ mset_set])
  have "b \<in># mset_set (A - ?kept)" using assms(1,3) by simp
  then have "f b \<in># image_mset f (mset_set (A - ?kept))" "image_mset f (mset_set (A - ?kept)) \<noteq> {#}" by auto
  moreover have "\<forall>k \<in># image_mset f (mset_set ?new). (k, f b) \<in> r"
    using fin assms(4,5) by auto
  ultimately show ?thesis
    unfolding A B image_mset_union by (intro one_step_implies_mult) blast+
qed

section \<open>The stock of a generator\<close>

text \<open>The steps from a distance to the maximal one.\<close>

definition steps_to_go :: "seq_config \<Rightarrow> jsnum \<Rightarrow> nat" where
  "steps_to_go cfg d = (case (maxDistance cfg, d) of (Fin n, Fin z) \<Rightarrow> nat (n - z) | _ \<Rightarrow> 0)"

definition base_stock :: "'r libs \<Rightarrow> seq_config \<Rightarrow> jsnum \<times> jsval \<times> 'r ast_info \<Rightarrow> nat \<times> nat" where
  "base_stock D cfg b = (case b of (d, k, info) \<Rightarrow> (steps_to_go cfg d, mutations_left D (mutationGen info)))"

definition stock :: "'r libs \<Rightarrow> seq_config \<Rightarrow> 'r seq_gen \<Rightarrow> (nat \<times> nat) multiset" where
  "stock D cfg st = image_mset (base_stock D cfg) (mset_set (bases st))"

definition fewer :: "((nat \<times> nat) multiset \<times> (nat \<times> nat) multiset) set" where
  "fewer = mult (less_than <*lex*> less_than)"

lemma wf_fewer: "wf fewer"
  unfolding fewer_def by (intro wf_mult wf_lex_prod wf_less_than)

lemma finite_bases: "finite (bases st)"
proof -
  have "bases st = (\<Union>(d, m) \<in> set (dist_ast_infoMap st). (\<lambda>(k, info). (d, k, info)) ` set m)"
    by (force simp: bases_def)
  then show ?thesis by (auto simp: split_beta)
qed

lemma steps_to_go_farther:
  "distance ms < maxDistance cfg \<Longrightarrow> maxDistance cfg \<noteq> PosInf \<Longrightarrow>
   steps_to_go cfg (distance (ms @ [m])) < steps_to_go cfg (distance ms)"
  by (cases "maxDistance cfg") (auto simp: steps_to_go_def distance_def)

section \<open>More fuel\<close>

lemma seq_gen_loop_more:
  "seq_gen_loop D T signals cfg request n i st \<noteq> Unfinished \<Longrightarrow>
   seq_gen_loop D T signals cfg request (n + j) i st = seq_gen_loop D T signals cfg request n i st"
proof (induction n arbitrary: i st)
  case (Suc n)
  show ?case
  proof (cases "choose_base D cfg request st")
    case (Returned out)
    then obtain choice st1 where c: "choose_base D cfg request st = Returned (choice, st1)" by (cases out) simp
    show ?thesis
    proof (cases choice)
      case (Base d k a info)
      show ?thesis
      proof (cases "mutation_gen_next D (mutation_request request) (mutationGen info)")
        case (Returned out)
        then obtain reply gen where
          g: "mutation_gen_next D (mutation_request request) (mutationGen info) = Returned (reply, gen)"
          by (cases out) simp
        show ?thesis
        proof (cases reply)
          case (NewMutation m)
          with Suc.prems c Base g show ?thesis
            by (cases "extend_base D T cfg a info m (store_gen d k gen st1)")
              (auto simp: Suc.IH simp del: answers_new_def split: if_split_asm)
        next
          case NoMutation
          with Suc.prems c Base g show ?thesis
            by (cases "drop_base k (mutationSeq info) (store_gen d k gen st1)") (auto simp: Suc.IH split: if_split_asm)
        qed (use c Base g in simp)
      qed (use c Base in simp_all)
    qed (use c in simp_all)
  qed simp_all
qed simp

section \<open>A round\<close>

lemma bases_lookup:
  assumes "maps_distinct st"
  shows "(d, k, i) \<in> bases st \<longleftrightarrow>
    (case map_of (dist_ast_infoMap st) d of None \<Rightarrow> False | Some m \<Rightarrow> map_of m k = Some i)"
proof -
  have "(d, k, i) \<in> bases st \<longleftrightarrow> (\<exists>m. map_of (dist_ast_infoMap st) d = Some m \<and> (k, i) \<in> set m)"
    using assms by (simp add: bases_def maps_distinct_def map_of_eq_Some_iff)
  also have "\<dots> \<longleftrightarrow> (\<exists>m. map_of (dist_ast_infoMap st) d = Some m \<and> map_of m k = Some i)"
    using assms by (force simp: maps_distinct_def dest: map_of_SomeD)
  finally show ?thesis by (simp split: option.split)
qed

lemma bases_stored:
  assumes "maps_distinct st" and "(d, k, info) \<in> bases st"
  shows "bases (store_gen d k gen st) \<subseteq> bases st - {(d, k, info)} \<union> {(d, k, info\<lparr>mutationGen := gen\<rparr>)}"
proof -
  have "i = info\<lparr>mutationGen := gen\<rparr>" if "(d, k, i) \<in> bases (store_gen d k gen st)" for i
    using that assms(2)
    unfolding bases_lookup [OF assms(1)] bases_lookup [OF maps_distinct_store [OF assms(1)]]
    by (auto simp: store_gen_def AList.map_of_map_entry split: option.split_asm)
  then show ?thesis using bases_store_cases by fast
qed

lemma bases_dropped:
  assumes "drop_base k ms st = Inr st'" and "maps_distinct st"
  shows "bases st' \<subseteq> {(d, k', i). (d, k', i) \<in> bases st \<and> \<not> (d = distance ms \<and> k' = k)}"
proof -
  have "(distance ms, k, i) \<notin> bases st'" for i
    using assms(1) maps_distinct_drop [OF assms(2,1)]
    by (auto simp: bases_lookup drop_base_def AList.map_of_map_entry AList.delete_conv' split: option.split_asm)
  with drop_base_Inr(1) [OF assms(1)] show ?thesis by blast
qed

lemma extend_base_adds:
  assumes "extend_base D T cfg a info m st = Returned (result, ms, st')" and "b \<in> bases st'"
  shows "b \<in> bases st \<or> (\<exists>k i. b = (distance (mutationSeq info @ [m]), k, i)) \<and>
    distance (mutationSeq info @ [m]) < maxDistance cfg"
proof -
  obtain a' infos where add: "addKnownAST D T cfg a' (mutationSeq info @ [m]) (SpaceInfos infos) st = Returned (result, st')"
    using assms(1) by (auto simp: extend_base_def Let_def)
  show ?thesis
  proof (cases "map_of (ast_DistMap st) (ast_key a') = None")
    case True
    with assms(2) addKnownAST_new(3) [OF add] show ?thesis by (cases b) blast
  next
    case False
    with assms(2) add addKnownAST_seen [OF False] show ?thesis by simp
  qed
qed

context clean_libs
begin

lemma stock_dropped:
  assumes ok: "gen_ok D cfg st" and b: "(d, k, info) \<in> bases st"
    and drop: "drop_base k (mutationSeq info) (store_gen d k gen st) = Inr st'"
  shows "(stock D cfg st', stock D cfg st) \<in> fewer"
proof -
  have maps: "maps_distinct st" and d: "d = distance (mutationSeq info)"
    using ok seq_invD [OF _ b] by (auto simp: gen_ok_def)
  have "bases st' \<subseteq> bases st - {(d, k, info)} \<union> {}"
    using bases_dropped [OF drop maps_distinct_store [OF maps]] bases_stored [OF maps b, of gen] d by auto
  then show ?thesis
    unfolding stock_def fewer_def using finite_bases b by (intro replaced_in_mult [where C = "{}"]) auto
qed

lemma stock_extended:
  assumes ok: "gen_ok D cfg st" and far: "maxDistance cfg \<noteq> PosInf" and b: "(d, k, info) \<in> bases st"
    and left: "mutations_left D gen < mutations_left D (mutationGen info)"
    and e: "extend_base D T cfg a info m (store_gen d k gen st) = Returned (result, ms, st')"
  shows "(stock D cfg st', stock D cfg st) \<in> fewer"
proof -
  let ?st2 = "store_gen d k gen st"
  let ?C = "insert (d, k, info\<lparr>mutationGen := gen\<rparr>) (bases st' - bases ?st2)"
  have maps: "maps_distinct st" and d: "d = distance (mutationSeq info)" "d < maxDistance cfg"
    using ok seq_invD [OF _ b] by (auto simp: gen_ok_def)
  have new: "(base_stock D cfg c, base_stock D cfg (d, k, info)) \<in> less_than <*lex*> less_than"
    if "c \<in> bases st' - bases ?st2" for c
    using extend_base_adds [OF e, of c] that steps_to_go_farther [of "mutationSeq info" cfg m] d far
    by (auto simp: base_stock_def)
  have "bases st' \<subseteq> bases st - {(d, k, info)} \<union> ?C"
    using bases_stored [OF maps b, of gen] by auto
  then show ?thesis
    unfolding stock_def fewer_def using finite_bases b new left
    by (intro replaced_in_mult [where C = ?C]) (auto simp: base_stock_def)
qed

section \<open>A call\<close>

lemma pick_base_returns: "pick_base D cfg st \<noteq> Unfinished"
  by (auto simp: pick_base_def Let_def split: prod.splits option.splits)

lemma random_loop_ends:
  assumes cfg: "config_ok cfg" and far: "maxDistance cfg \<noteq> PosInf" and req: "requestAST request = None"
  shows "gen_ok D cfg st \<Longrightarrow> \<exists>n. \<forall>i. seq_gen_loop D T signals cfg request n i st \<noteq> Unfinished"
proof (induction "stock D cfg st" arbitrary: st rule: wf_induct_rule [OF wf_fewer])
  case (1 st)
  have plain: "request_plain request" using req by (simp add: request_plain_def)
  show ?case
  proof (cases "\<exists>d k a info st1. choose_base D cfg request st = Returned (Base d k a info, st1)")
    case False
    then have "seq_gen_loop D T signals cfg request (Suc 0) i st \<noteq> Unfinished" for i
      using pick_base_returns by (auto simp: choose_base_def req split: base_choice.splits)
    then show ?thesis by blast
  next
    case True
    then obtain d k a info st1 where c: "choose_base D cfg request st = Returned (Base d k a info, st1)" by blast
    note b = choose_base_plain [OF c 1(2) plain]
    obtain r where st1: "st1 = st\<lparr>sg_rng := r\<rparr>" by (rule choose_base_state [OF c])
    have same: "bases st1 = bases st" "stock D cfg st1 = stock D cfg st"
      by (simp_all add: st1 bases_def stock_def)
    have ok1: "gen_ok D cfg st1" and b1: "(d, k, info) \<in> bases st1"
      using gen_ok_rng [OF 1(2)] b(1) same by (simp_all add: st1)
    have valid: "mutation_gen_valid (mutationGen info)" using b(3) by (simp add: base_fits_def)
    have later: "\<exists>n. \<forall>i. seq_gen_loop D T signals cfg request n i st3 \<noteq> Unfinished"
      if "(stock D cfg st3, stock D cfg st1) \<in> fewer" "gen_ok D cfg st3" for st3
      using 1(1) that same by simp
    have stop: ?thesis if "\<And>i. seq_gen_loop D T signals cfg request (Suc 0) i st \<noteq> Unfinished"
      using that by blast
    show ?thesis
    proof (cases "mutation_gen_next D (mutation_request request) (mutationGen info)")
      case (Returned out)
      then obtain reply gen where g: "mutation_gen_next D (mutation_request request) (mutationGen info) = Returned (reply, gen)"
        by (cases out) simp
      note drawn = drawn_from_base [OF b(3) g] and left = mutation_gen_next_yields [OF valid g]
      note ok2 = gen_ok_store [OF ok1 b1 drawn(1,2)]
      show ?thesis
      proof (cases reply)
        case NoMutation
        show ?thesis
        proof (cases "drop_base k (mutationSeq info) (store_gen d k gen st1)")
          case (Inr st3)
          obtain n where "\<forall>i. seq_gen_loop D T signals cfg request n i st3 \<noteq> Unfinished"
            using later [OF stock_dropped [OF ok1 b1 Inr] gen_ok_drop [OF ok2 Inr]] by blast
          with c g NoMutation Inr req show ?thesis by (intro exI [of _ "Suc n"]) simp
        qed (use c g NoMutation in \<open>intro stop, simp\<close>)
      next
        case (NewMutation m)
        show ?thesis
        proof (cases "extend_base D T cfg a info m (store_gen d k gen st1)")
          case (Returned res)
          then obtain result ms st3 where e: "extend_base D T cfg a info m (store_gen d k gen st1) = Returned (result, ms, st3)"
            by (cases res) auto
          have base: "makes (lib_lodash D) cfg (mutationSeq info) k" "complete k" "spaces_at k (faultspaceInfo info)"
            using b(3) by (simp_all add: base_fits_def)
          have "gen_ok D cfg st3"
            by (rule extend_base_fits(1) [OF ok2 cfg base drawn(3) [OF NewMutation] e [unfolded b(2)]])
          moreover have "(stock D cfg st3, stock D cfg st1) \<in> fewer"
            using left NewMutation by (intro stock_extended [OF ok1 far b1 _ e]) simp
          ultimately obtain n where "\<forall>i. seq_gen_loop D T signals cfg request n i st3 \<noteq> Unfinished"
            using later by blast
          with c g NewMutation e show ?thesis by (intro exI [of _ "Suc n"]) simp
        qed (use c g NewMutation extend_base_returns in \<open>intro stop, simp\<close>)+
      qed (use c g in \<open>intro stop, simp\<close>)
    qed (use c mutation_gen_next_returns [OF valid] in \<open>intro stop, simp\<close>)+
  qed
qed

section \<open>A request\<close>

lemma random_genSeqs_end:
  assumes cfg: "config_ok cfg" and far: "maxDistance cfg \<noteq> PosInf"
  shows "gen_ok D cfg st \<Longrightarrow>
    \<exists>n. \<forall>fuel \<ge> n. genSeqs_loop D T signals fuel cfg None j num st \<noteq> Unfinished"
proof (induction num arbitrary: j st)
  case (Suc num)
  let ?request = "\<lparr>requestAST = None, mutation_request = \<lparr>allowedMutationTypes = None, overriddenFaultSpace = None\<rparr>\<rparr>"
  let ?call = "\<lambda>fuel. seq_gen_next D T (signals j) cfg ?request fuel st"
  have "\<exists>n. \<forall>i. seq_gen_loop D T (signals j) cfg ?request n i st \<noteq> Unfinished"
    by (rule random_loop_ends [OF cfg far _ Suc.prems]) simp
  then obtain n where n: "seq_gen_loop D T (signals j) cfg ?request n 0 st \<noteq> Unfinished" by blast
  have same: "?call fuel = ?call n" if "n \<le> fuel" for fuel
    using seq_gen_loop_more [OF n, of "fuel - n"] that by (simp add: seq_gen_next_def)
  have ends: "?call n \<noteq> Unfinished" using n by (simp add: seq_gen_next_def)
  show ?case
  proof (cases "\<exists>ms st1. ?call n = Returned (NewSequence ms, st1)")
    case True
    then obtain ms st1 where r: "?call n = Returned (NewSequence ms, st1)" by blast
    have "gen_ok D cfg st1" by (rule seq_gen_next_ok(1) [OF cfg _ Suc.prems r]) (simp add: request_plain_def)
    from Suc.IH [OF this, of "Suc j"] obtain n1
      where "\<forall>fuel \<ge> n1. genSeqs_loop D T signals fuel cfg None (Suc j) num st1 \<noteq> Unfinished" by blast
    then have "\<forall>fuel \<ge> max n n1. genSeqs_loop D T signals fuel cfg None j (Suc num) st \<noteq> Unfinished"
      using same r by simp
    then show ?thesis by blast
  next
    case False
    then have "\<forall>fuel \<ge> n. genSeqs_loop D T signals fuel cfg None j (Suc num) st \<noteq> Unfinished"
      using same ends by (cases "?call n") (auto split: seq_reply.split_asm)
    then show ?thesis by blast
  qed
qed simp

lemma random_request_returns:
  assumes "config_ok cfg" and "gen_ok D cfg (mutationSeqGen s)" and "maxDistance cfg \<noteq> PosInf"
  shows "\<exists>n. \<forall>fuel \<ge> n. handle_request D T signals fuel x cfg (RandomRequest num) s \<noteq> Unfinished"
proof -
  obtain n where "\<forall>fuel \<ge> n. genSeqs_loop D T signals fuel cfg None 0 num (mutationSeqGen s) \<noteq> Unfinished"
    using random_genSeqs_end [OF assms(1,3,2)] by blast
  then have "\<forall>fuel \<ge> n. request_sequences D T signals fuel cfg (RandomRequest num) (mutationSeqGen s) \<noteq> Unfinished"
    by (simp add: request_sequences_def genMutations_genSeqs_def)
  with handle_request_returns show ?thesis by blast
qed

text \<open>A request ends; a random one must have a last distance to search.\<close>

lemma request_returns:
  assumes "config_ok cfg" and "gen_ok D cfg (mutationSeqGen s)"
    and "\<And>num. request = RandomRequest num \<Longrightarrow> maxDistance cfg \<noteq> PosInf"
    and "request_ok (lib_lodash D) cfg request"
  shows "\<exists>n. \<forall>fuel \<ge> n. handle_request D T signals fuel x cfg request s \<noteq> Unfinished"
proof (cases request)
  case (RandomRequest num)
  with random_request_returns [OF assms(1,2)] assms(3) show ?thesis by simp
next
  case (MutateRequest obj spec)
  with mutate_request_returns [OF assms(1,2)] assms(4) show ?thesis by simp
qed (simp add: handle_request_def request_sequences_def)

end

end
