(* ===== verification/JsonText.thy ===== *)
theory JsonText
  imports Compile
begin

text \<open>
  JSON texts: \<open>JSON.stringify\<close> and \<open>JSON.parse\<close> of the language, with their round trip. The rest
  of the development represents a JSON text by the value it denotes, which the round trip
  justifies; the test executor takes texts apart, so it needs them as they are. As everywhere
  here, numbers are integers and characters have eight bits: the parser refuses numbers with a
  fraction or an exponent, and escapes of other characters.
\<close>

section \<open>\<open>JSON.stringify\<close>\<close>

definition hex_digit :: "nat \<Rightarrow> char" where
  "hex_digit d = (if d < 10 then digit_char d else char_of (87 + d))"

definition json_escapes :: "(char \<times> char) list" where
  "json_escapes = [(CHR 0x22, CHR 0x22), (CHR 0x5C, CHR 0x5C), (CHR ''b'', CHR 0x08),
     (CHR ''t'', CHR 0x09), (CHR ''n'', CHR 0x0A), (CHR ''f'', CHR 0x0C), (CHR ''r'', CHR 0x0D)]"

definition escape_char :: "char \<Rightarrow> string" where
  "escape_char c =
     (case map_of (map prod.swap json_escapes) c of
        Some e \<Rightarrow> [CHR 0x5C, e]
      | None \<Rightarrow> if (of_char c :: nat) < 32
          then CHR 0x5C # ''u00'' @ [hex_digit (of_char c div 16), hex_digit (of_char c mod 16)]
          else [c])"

definition json_quote :: "string \<Rightarrow> string" where
  "json_quote s = CHR 0x22 # concat (map escape_char s) @ [CHR 0x22]"

fun JSON_stringify :: "jsval \<Rightarrow> string" where
  "JSON_stringify JNull = ''null''"
| "JSON_stringify (JBool b) = (if b then ''true'' else ''false'')"
| "JSON_stringify (JNum (Fin z)) = show_int z"
| "JSON_stringify (JNum _) = ''null''"
| "JSON_stringify (JStr s) = json_quote s"
| "JSON_stringify (JArr xs) = CHR ''['' # join_comma (map JSON_stringify xs) @ '']''"
| "JSON_stringify (JObj kvs) =
     CHR ''{'' # join_comma (map (\<lambda>(k, v). json_quote k @ CHR '':'' # JSON_stringify v)
       (filter (\<lambda>(k, v). \<not> is_function_value v) kvs)) @ ''}''"
| "JSON_stringify (JGen xs) = ''null''"

section \<open>\<open>JSON.parse\<close>\<close>

definition json_space :: "char \<Rightarrow> bool" where
  "json_space c \<longleftrightarrow> c = CHR '' '' \<or> c = CHR 0x09 \<or> c = CHR 0x0A \<or> c = CHR 0x0D"

abbreviation skip_space :: "string \<Rightarrow> string" where
  "skip_space s \<equiv> dropWhile json_space s"

definition hex_value :: "string \<Rightarrow> nat option" where
  "hex_value ds = (if list_all (\<lambda>c. digit_val c < 16) ds
     then Some (foldl (\<lambda>acc c. acc * 16 + digit_val c) 0 ds) else None)"

text \<open>The characters of a string up to its closing quote, and the text behind it.\<close>

fun parse_chars :: "string \<Rightarrow> (string \<times> string) option" where
  "parse_chars [] = None"
| "parse_chars (c # s) =
     (if c = CHR 0x22 then Some ([], s)
      else if c = CHR 0x5C then
        (case s of
           [] \<Rightarrow> None
         | e # s' \<Rightarrow>
             (if e = CHR ''u'' then
                (case hex_value (take 4 s') of
                   Some n \<Rightarrow> if 4 \<le> length s' \<and> n < 256
                     then map_option (map_prod ((#) (char_of n)) id) (parse_chars (drop 4 s')) else None
                 | None \<Rightarrow> None)
              else
                (case map_of ((CHR ''/'', CHR ''/'') # json_escapes) e of
                   Some x \<Rightarrow> map_option (map_prod ((#) x) id) (parse_chars s')
                 | None \<Rightarrow> None)))
      else if (of_char c :: nat) < 32 then None
      else map_option (map_prod ((#) c) id) (parse_chars s))"

definition is_digit :: "char \<Rightarrow> bool" where
  "is_digit c \<longleftrightarrow> digit_val c < 10"

definition parse_natural :: "string \<Rightarrow> (nat \<times> string) option" where
  "parse_natural s =
     (let ds = takeWhile is_digit s; rest = dropWhile is_digit s in
      if ds = [] \<or> (hd ds = CHR ''0'' \<and> 1 < length ds) then None
      else if rest \<noteq> [] \<and> hd rest \<in> {CHR ''.'', CHR ''e'', CHR ''E''} then None
      else Some (foldl (\<lambda>acc c. acc * 10 + digit_val c) 0 ds, rest))"

fun parse_number :: "string \<Rightarrow> (jsval \<times> string) option" where
  "parse_number [] = None"
| "parse_number (c # s) =
     (if c = CHR ''-'' then map_option (map_prod (\<lambda>n. JNum (Fin (- int n))) id) (parse_natural s)
      else map_option (map_prod (\<lambda>n. JNum (Fin (int n))) id) (parse_natural (c # s)))"

text \<open>A repeated property name overwrites the value and keeps the place.\<close>

definition json_object :: "(string \<times> jsval) list \<Rightarrow> jsval" where
  "json_object kvs = JObj (foldl (\<lambda>acc (k, v). AList.update k v acc) [] kvs)"

definition literal_at :: "string \<Rightarrow> jsval \<Rightarrow> string \<Rightarrow> (jsval \<times> string) option" where
  "literal_at word v s = (if take (length word) s = word then Some (v, drop (length word) s) else None)"

text \<open>A value; the elements of an array behind its bracket; the members of an object behind its
  brace. The number bounds the depth of the recursion, which every call lowers.\<close>

fun parse_value :: "nat \<Rightarrow> string \<Rightarrow> (jsval \<times> string) option"
  and parse_elems :: "nat \<Rightarrow> string \<Rightarrow> (jsval list \<times> string) option"
  and parse_members :: "nat \<Rightarrow> string \<Rightarrow> ((string \<times> jsval) list \<times> string) option" where
  "parse_value 0 s = None"
| "parse_value (Suc n) s =
     (case skip_space s of
        [] \<Rightarrow> None
      | c # r \<Rightarrow>
          if c = CHR ''{'' then
            (case skip_space r of
               [] \<Rightarrow> None
             | d # t \<Rightarrow> if d = CHR ''}'' then Some (JObj [], t)
                 else map_option (map_prod json_object id) (parse_members n (d # t)))
          else if c = CHR ''['' then
            (case skip_space r of
               [] \<Rightarrow> None
             | d # t \<Rightarrow> if d = CHR '']'' then Some (JArr [], t)
                 else map_option (map_prod JArr id) (parse_elems n (d # t)))
          else if c = CHR 0x22 then map_option (map_prod JStr id) (parse_chars r)
          else if c = CHR ''n'' then literal_at ''null'' JNull (c # r)
          else if c = CHR ''t'' then literal_at ''true'' (JBool True) (c # r)
          else if c = CHR ''f'' then literal_at ''false'' (JBool False) (c # r)
          else parse_number (c # r))"
| "parse_elems 0 s = None"
| "parse_elems (Suc n) s =
     (case parse_value n s of
        None \<Rightarrow> None
      | Some (v, r) \<Rightarrow>
          (case skip_space r of
             [] \<Rightarrow> None
           | c # t \<Rightarrow> if c = CHR '']'' then Some ([v], t)
               else if c = CHR '','' then map_option (map_prod ((#) v) id) (parse_elems n t)
               else None))"
| "parse_members 0 s = None"
| "parse_members (Suc n) s =
     (case skip_space s of
        [] \<Rightarrow> None
      | q # s' \<Rightarrow> if q \<noteq> CHR 0x22 then None else
          (case parse_chars s' of
             None \<Rightarrow> None
           | Some (k, r) \<Rightarrow>
               (case skip_space r of
                  [] \<Rightarrow> None
                | c # t \<Rightarrow> if c \<noteq> CHR '':'' then None else
                    (case parse_value n t of
                       None \<Rightarrow> None
                     | Some (v, r') \<Rightarrow>
                         (case skip_space r' of
                            [] \<Rightarrow> None
                          | d # u \<Rightarrow> if d = CHR ''}'' then Some ([(k, v)], u)
                              else if d = CHR '','' then map_option (map_prod ((#) (k, v)) id) (parse_members n u)
                              else None)))))"

text \<open>The text is the value and white space. Every call but those at the beginning of an array or an
  object takes a character, so twice the length bounds the depth.\<close>

definition JSON_parse :: "string \<Rightarrow> jsval result" where
  "JSON_parse s =
     (case parse_value (2 * length s + 2) s of
        Some (v, r) \<Rightarrow> if skip_space r = [] then Inr v else Inl SyntaxError
      | None \<Rightarrow> Inl SyntaxError)"

section \<open>The round trip\<close>

subsection \<open>Strings\<close>

lemma char_of_value: "n < 256 \<Longrightarrow> (of_char (char_of (n :: nat)) :: nat) = n"
  by simp

lemma digit_val_hex_digit [simp]: "d < 16 \<Longrightarrow> digit_val (hex_digit d) = d"
  by (simp add: hex_digit_def digit_val_def)

lemma hex_value_of_code:
  "n < 256 \<Longrightarrow> hex_value [CHR ''0'', CHR ''0'', hex_digit (n div 16), hex_digit (n mod 16)] = Some n"
  by (simp add: hex_value_def less_mult_imp_div_less) (simp add: digit_val_def)

lemma json_escape_read:
  assumes "map_of (map prod.swap json_escapes) c = Some e"
  shows "map_of ((CHR ''/'', CHR ''/'') # json_escapes) e = Some c \<and> e \<noteq> CHR ''u''"
proof -
  have "(e, c) \<in> set json_escapes" using assms by (auto dest: map_of_SomeD)
  then show ?thesis by (auto simp: json_escapes_def)
qed

lemma parse_escape_step:
  assumes "map_of ((CHR ''/'', CHR ''/'') # json_escapes) e = Some c" and "e \<noteq> CHR ''u''"
  shows "parse_chars (CHR 0x5C # e # t) = map_option (map_prod ((#) c) id) (parse_chars t)"
  using assms by (simp add: parse_chars.simps(2) [of "CHR 0x5C"] del: parse_chars.simps map_of.simps map_of_Cons_code)

lemma parse_escaped:
  "parse_chars (escape_char c @ t) = map_option (map_prod ((#) c) id) (parse_chars t)"
proof (cases "map_of (map prod.swap json_escapes) c")
  case (Some e)
  then show ?thesis using parse_escape_step [of e c t] json_escape_read [OF Some]
    by (simp add: escape_char_def del: parse_chars.simps)
next
  case None
  then have plain: "c \<noteq> CHR 0x22" "c \<noteq> CHR 0x5C"
    by (auto simp: json_escapes_def split: if_splits)
  show ?thesis
  proof (cases "(of_char c :: nat) < 32")
    case True
    then show ?thesis
      using None hex_value_of_code [of "of_char c"]
      by (simp add: escape_char_def parse_chars.simps(2) [of "CHR 0x5C"] del: parse_chars.simps)
  next
    case False
    with None plain show ?thesis
      by (simp add: escape_char_def parse_chars.simps(2) [of c] del: parse_chars.simps)
  qed
qed

lemma parse_quoted: "parse_chars (concat (map escape_char s) @ CHR 0x22 # r) = Some (s, r)"
  by (induction s) (simp_all add: parse_escaped parse_chars.simps(2) [of "CHR 0x22"] del: parse_chars.simps)

subsection \<open>Numbers\<close>

text \<open>A number ends where neither a digit nor a fraction nor an exponent follows.\<close>

definition number_ends :: "string \<Rightarrow> bool" where
  "number_ends r \<longleftrightarrow> (r = [] \<or> (\<not> is_digit (hd r) \<and> hd r \<notin> {CHR ''.'', CHR ''e'', CHR ''E''}))"

lemma number_ends_simps [simp]:
  "number_ends []" "number_ends (CHR '','' # r)" "number_ends (CHR '']'' # r)" "number_ends (CHR ''}'' # r)"
  by (simp_all add: number_ends_def is_digit_def digit_val_def)

lemma show_nat_leading: "hd (show_nat n) = CHR ''0'' \<Longrightarrow> length (show_nat n) = 1"
proof (induction n rule: show_nat.induct)
  case (1 n)
  show ?case
  proof (cases "n < 10")
    case False
    with "1.prems" have "hd (show_nat (n div 10)) = CHR ''0''" by (simp add: show_nat.simps [of n])
    with "1.IH" False have "length (show_nat (n div 10)) = 1" by simp
    then have "n div 10 < 10"
      by (metis One_nat_def length_append_singleton length_greater_0_conv nat.inject neq0_conv
          show_nat.simps show_nat_not_Nil list.size(3))
    with \<open>hd (show_nat (n div 10)) = CHR ''0''\<close> False have "digit_char (n div 10) = CHR ''0''"
      by (simp add: show_nat.simps [of "n div 10"])
    then have "digit_val (digit_char (n div 10)) = 0" by (simp add: digit_val_def)
    with \<open>n div 10 < 10\<close> False show ?thesis by simp
  qed (simp add: show_nat.simps [of n])
qed

lemma parse_natural_show: "number_ends r \<Longrightarrow> parse_natural (show_nat n @ r) = Some (n, r)"
proof -
  assume r: "number_ends r"
  have d: "list_all is_digit (show_nat n)"
    by (auto simp: list_all_iff is_digit_def dest!: show_nat_digits)
  then have "takeWhile is_digit (show_nat n @ r) = show_nat n" "dropWhile is_digit (show_nat n @ r) = r"
    using r by (auto simp: list_all_iff number_ends_def takeWhile_append dropWhile_append takeWhile_eq_Nil_iff dropWhile_eq_self_iff)
  then show ?thesis
    using r show_nat_leading [of n] by (auto simp: parse_natural_def Let_def number_ends_def show_nat_value)
qed

lemma parse_number_show: "number_ends r \<Longrightarrow> parse_number (show_int z @ r) = Some (JNum (Fin z), r)"
proof -
  assume r: "number_ends r"
  obtain d s where "d < 10" "show_nat (nat z) = digit_char d # s" using show_nat_hd by blast
  with parse_natural_show [OF r, of "nat z"] parse_natural_show [OF r, of "nat (- z)"] show ?thesis
    by (auto simp: show_int_def digit_char_not_special)
qed

subsection \<open>Values\<close>

lemma skip_space_other [simp]: "\<not> json_space c \<Longrightarrow> skip_space (c # s) = c # s"
  by simp

lemma json_space_simps [simp]:
  "\<not> json_space (CHR '','')" "\<not> json_space (CHR '']'')" "\<not> json_space (CHR ''}'')" "\<not> json_space (CHR '':'')"
  "\<not> json_space (CHR 0x22)" "\<not> json_space (CHR ''['')" "\<not> json_space (CHR ''{'')"
  by (simp_all add: json_space_def)

lemma show_int_start:
  obtains c s where "show_int z = c # s" "\<not> json_space c" "is_digit c \<or> c = CHR ''-''"
proof -
  obtain d s where "d < 10" "show_nat (nat z) = digit_char d # s" using show_nat_hd by blast
  then show thesis
    using that [of "CHR ''-''"] that [of "digit_char d"]
    by (cases "z < 0") (auto simp: show_int_def json_space_def is_digit_def digit_char_neqI)
qed

text \<open>A value does not start with white space, nor with a character that closes an array or an
  object.\<close>

lemma stringify_hd:
  "JSON_stringify v \<noteq> [] \<and> \<not> json_space (hd (JSON_stringify v)) \<and> hd (JSON_stringify v) \<noteq> CHR '']''"
proof (cases v rule: JSON_stringify.cases)
  case (3 z)
  obtain c s where "show_int z = c # s" "\<not> json_space c" "is_digit c \<or> c = CHR ''-''"
    by (rule show_int_start)
  moreover from this have "c \<noteq> CHR '']''" by (intro notI) (auto simp: is_digit_def digit_val_def)
  ultimately show ?thesis using 3 by simp
qed (simp_all add: json_space_def json_quote_def)

lemma stringify_start:
  obtains c s where "JSON_stringify v = c # s" "\<not> json_space c" "c \<noteq> CHR '']''"
  using stringify_hd [of v] by (cases "JSON_stringify v") auto

lemma parse_number_value:
  assumes "number_ends r"
  shows "parse_value (Suc n) (show_int z @ r) = Some (JNum (Fin z), r)"
proof -
  obtain c s where s: "show_int z = c # s" "\<not> json_space c" "is_digit c \<or> c = CHR ''-''"
    by (rule show_int_start)
  then have "c \<notin> {CHR ''{'', CHR ''['', CHR 0x22, CHR ''n'', CHR ''t'', CHR ''f''}"
    by (auto simp: is_digit_def digit_val_def)
  with s parse_number_show [OF assms, of z] show ?thesis by simp
qed

lemma parse_elems_text:
  assumes "\<And>x n r. x \<in> set xs \<Longrightarrow> number_ends r \<Longrightarrow> 2 * length (S x) \<le> n \<Longrightarrow> parse_value n (S x @ r) = Some (x, r)"
    and "xs \<noteq> []" and "2 * length (join_comma (map S xs)) + 2 \<le> n"
  shows "parse_elems n (join_comma (map S xs) @ CHR '']'' # r) = Some (xs, r)"
  using assms
proof (induction xs arbitrary: n)
  case (Cons x xs)
  obtain m where n: "n = Suc m" using Cons.prems(3) by (cases n) auto
  show ?case
  proof (cases xs)
    case Nil
    with Cons.prems(1) [of x "CHR '']'' # r" m] Cons.prems(3) n show ?thesis by simp
  next
    case (Cons y ys)
    have "parse_elems m (join_comma (map S xs) @ CHR '']'' # r) = Some (xs, r)"
      using Cons.prems Cons n by (intro Cons.IH) simp_all
    with Cons Cons.prems(1) [of x "CHR '','' # join_comma (map S xs) @ CHR '']'' # r" m] Cons.prems(3) n
    show ?thesis by simp
  qed
qed simp

lemma parse_members_text:
  fixes S :: "jsval \<Rightarrow> string"
  defines "M \<equiv> \<lambda>(k, v). json_quote k @ CHR '':'' # S v"
  assumes "\<And>k x n r. (k, x) \<in> set kvs \<Longrightarrow> number_ends r \<Longrightarrow> 2 * length (S x) \<le> n \<Longrightarrow>
      parse_value n (S x @ r) = Some (x, r)"
    and "kvs \<noteq> []" and "2 * length (join_comma (map M kvs)) + 2 \<le> n"
  shows "parse_members n (join_comma (map M kvs) @ CHR ''}'' # r) = Some (kvs, r)"
  using assms(2-)
proof (induction kvs arbitrary: n)
  case (Cons e kvs)
  obtain k x where e: "e = (k, x)" by (cases e)
  obtain m where n: "n = Suc m" using Cons.prems(3) by (cases n) auto
  have M: "M (k, x) @ t = CHR 0x22 # concat (map escape_char k) @ CHR 0x22 # CHR '':'' # S x @ t" for t
    by (simp add: M_def json_quote_def)
  have len: "length (M (k, x)) \<ge> length (S x)" by (simp add: M_def)
  show ?case
  proof (cases kvs)
    case Nil
    with Cons.prems(1) [of k x "CHR ''}'' # r" m] Cons.prems(3) n len show ?thesis
      by (simp add: e M parse_quoted)
  next
    case (Cons y ys)
    have "parse_members m (join_comma (map M kvs) @ CHR ''}'' # r) = Some (kvs, r)"
    proof (rule Cons.IH)
      fix k x n r
      assume "(k, x) \<in> set kvs" "number_ends r" "2 * length (S x) \<le> n"
      then show "parse_value n (S x @ r) = Some (x, r)" by (rule Cons.prems(1) [OF list.set_intros(2)])
    qed (use Cons.prems(3) Cons n e in simp_all)
    with Cons Cons.prems(1) [of k x "CHR '','' # join_comma (map M kvs) @ CHR ''}'' # r" m] Cons.prems(3) n len
    show ?thesis by (simp add: e M parse_quoted)
  qed
qed simp

lemma literal_texts [simp]:
  "0 < n \<Longrightarrow> parse_value n (CHR ''n'' # CHR ''u'' # CHR ''l'' # CHR ''l'' # r) = Some (JNull, r)"
  "0 < n \<Longrightarrow> parse_value n (CHR ''t'' # CHR ''r'' # CHR ''u'' # CHR ''e'' # r) = Some (JBool True, r)"
  "0 < n \<Longrightarrow> parse_value n (CHR ''f'' # CHR ''a'' # CHR ''l'' # CHR ''s'' # CHR ''e'' # r) = Some (JBool False, r)"
  by (cases n; simp add: literal_at_def json_space_def)+

lemma AList_update_new: "k \<notin> fst ` set al \<Longrightarrow> AList.update k v al = al @ [(k, v)]"
  by (induction al) auto

lemma json_object_distinct: "distinct (map fst kvs) \<Longrightarrow> json_object kvs = JObj kvs"
proof -
  have "foldl (\<lambda>acc (k, v). AList.update k v acc) al kvs = al @ kvs"
    if "distinct (map fst (al @ kvs))" for al :: "(string \<times> jsval) list"
    using that
  proof (induction kvs arbitrary: al)
    case (Cons e kvs)
    have "AList.update (fst e) (snd e) al = al @ [e]"
      using Cons.prems by (subst AList_update_new) auto
    with Cons show ?case by (simp add: case_prod_beta)
  qed simp
  moreover assume "distinct (map fst kvs)"
  ultimately show ?thesis by (simp add: json_object_def)
qed

lemma parse_stringify:
  "is_json v \<Longrightarrow> wf_val v \<Longrightarrow> number_ends r \<Longrightarrow> 2 * length (JSON_stringify v) \<le> n \<Longrightarrow>
   parse_value n (JSON_stringify v @ r) = Some (v, r)"
proof (induction v arbitrary: n r)
  case (JNum x)
  then obtain z where "x = Fin z" by (cases x) auto
  moreover from this obtain m where "n = Suc m"
    using show_int_start [of z] JNum by (cases n) auto
  moreover note JNum
  ultimately show ?case by (simp add: parse_number_value del: parse_value.simps)
next
  case (JStr s)
  then obtain m where "n = Suc m" by (cases n) (auto simp: json_quote_def)
  then show ?case by (simp add: json_quote_def parse_quoted)
next
  case (JArr xs)
  then obtain m where n: "n = Suc m" by (cases n) auto
  show ?case
  proof (cases xs)
    case (Cons x ys)
    obtain c s where "JSON_stringify x = c # s" and c: "\<not> json_space c" "c \<noteq> CHR '']''"
      by (rule stringify_start)
    then obtain s' where "join_comma (map JSON_stringify xs) = c # s'"
      unfolding Cons by (cases "map JSON_stringify ys") auto
    note c = this c
    have "parse_elems m (join_comma (map JSON_stringify xs) @ CHR '']'' # r) = Some (xs, r)"
      using JArr Cons n by (intro parse_elems_text) (auto simp: list_all_iff)
    with c n show ?thesis by simp
  qed (simp add: n)
next
  case (JObj kvs)
  then obtain m where n: "n = Suc m" by (cases n) auto
  let ?M = "\<lambda>(k, v). json_quote k @ CHR '':'' # JSON_stringify v"
  have f: "filter (\<lambda>(k, v). \<not> is_function_value v) kvs = kvs"
    using JObj.prems(1) by (intro filter_True) (auto simp: list_all_iff dest: function_not_json)
  show ?case
  proof (cases kvs)
    case (Cons e es)
    obtain k x where e: "e = (k, x)" by (cases e)
    obtain s where s: "join_comma (map ?M kvs) = CHR 0x22 # s"
      unfolding Cons e by (cases "map ?M es") (auto simp: json_quote_def)
    have "parse_members m (join_comma (map ?M kvs) @ CHR ''}'' # r) = Some (kvs, r)"
    proof (rule parse_members_text)
      fix k x n r
      assume "(k, x) \<in> set kvs" "number_ends r" "2 * length (JSON_stringify x) \<le> n"
      then show "parse_value n (JSON_stringify x @ r) = Some (x, r)"
        using JObj.prems(1,2) by (intro JObj.IH [of "(k, x)" x]) (auto simp: list_all_iff)
    qed (use JObj.prems(4) Cons n f in simp_all)
    with s n f JObj.prems(2) show ?thesis by (simp add: json_object_distinct)
  qed (simp add: n)
qed auto

theorem JSON_parse_stringify:
  "is_json v \<Longrightarrow> wf_val v \<Longrightarrow> JSON_parse (JSON_stringify v) = Inr v"
  using parse_stringify [of v "[]"] by (simp add: JSON_parse_def del: parse_value.simps)

end
