(* ===== verification/ServedProperties.thy ===== *)
theory ServedProperties
  imports SampleRun SearchEnds JsonText
begin

text \<open>
  The properties of the driver that serves its client: started on an AST of the parser, and asked
  for random sequences, or for mutants of sequences it could have answered itself.
\<close>

section \<open>The generator of a served driver\<close>

text \<open>Property C5. In every state of a driver that serves its client, a base for further mutation is filed
  under the length of its sequence, which is below the maximal distance; it is exactly what its
  sequence makes of the original AST, stripped of tokens and locations; and its fault spaces are
  distinct paths to nodes in it.\<close>

theorem served_bases_fit:
  assumes "clean_libs D" and "parser_ast ast" and "node_types_ok (ASTNewNodeTypes x)"
    and "served D T x ast cfg s" and "(d, k, info) \<in> bases (mutationSeqGen s)"
  shows "d = distance (mutationSeq info) \<and> d < maxDistance cfg \<and>
    (\<exists>a. mutateAST (lib_lodash D) (mutationSeq info) ast = Inr a \<and> k = ASTNodeRemoveExtraAttributesDeep a) \<and>
    distinct (map info_faultSpace (faultspaceInfo info)) \<and>
    list_all (\<lambda>p. isASTNode (cwalk k p)) (map info_faultSpace (faultspaceInfo info))"
proof -
  note ok = clean_libs.served_ok [OF assms(1-4)]
  have b: "base_fits D cfg k info" and i: "seq_inv (lib_lodash D) cfg (mutationSeqGen s)"
    using ok assms(5) by (auto simp: gen_ok_def)
  have "spaces_at k (faultspaceInfo info)" using b by (simp add: base_fits_def)
  with seq_invD [OF i assms(5)] b ok show ?thesis
    by (auto simp: base_fits_def makes_def spaces_at_def list_all_iff)
qed

definition demo_info :: "nat ast_info" where
  "demo_info = \<lparr>faultspaceInfo = demo_infos, mutationGen = demo_gen_over demo_space, mutationSeq = []\<rparr>"

lemma demo_base: "(Fin 0, demo_ast, demo_info) \<in> bases (mutationSeqGen (demo_driver demo_space))"
  by (simp add: bases_def demo_driver_def demo_state_def demo_info_def)

lemma demo_types_ok: "node_types_ok (ASTNewNodeTypes demo_params)"
  by (simp add: demo_params_simps node_types_ok_def)

theorem served_bases_fit_witness:
  "Fin 0 = distance (mutationSeq demo_info) \<and> Fin 0 < maxDistance demo_cli_cfg \<and>
    (\<exists>a. mutateAST (lib_lodash libs_ref) (mutationSeq demo_info) demo_ast = Inr a \<and>
      demo_ast = ASTNodeRemoveExtraAttributesDeep a) \<and>
    distinct (map info_faultSpace (faultspaceInfo demo_info)) \<and>
    list_all (\<lambda>p. isASTNode (cwalk demo_ast p)) (map info_faultSpace (faultspaceInfo demo_info))"
  by (rule served_bases_fit [OF clean_libs_ref demo_parser_ast demo_types_ok demo_served demo_base])

text \<open>Property C6. A mutation the generator of a base draws applies to it: no exception is thrown, the assertion
  that its fault space still waits for its type holds, the fault spaces carried to the new AST are distinct
  paths to nodes of that AST, and the new AST is what the longer sequence makes of the original one, up to
  tokens and locations.\<close>

theorem drawn_mutation_extends:
  assumes "clean_libs D" and "parser_ast ast" and "node_types_ok (ASTNewNodeTypes x)"
    and "served D T x ast cfg s" and "(d, k, info) \<in> bases (mutationSeqGen s)"
    and "mutation_gen_next D request (mutationGen info) = Returned (NewMutation m, gen)"
  shows "\<exists>k' infos a. apply_mutation (lib_lodash D) m k = Inr k' \<and>
    carry_faultSpaces D m k (faultspaceInfo info) = Inr infos \<and>
    distinct (map info_faultSpace infos) \<and> list_all (\<lambda>p. isASTNode (cwalk k' p)) (map info_faultSpace infos) \<and>
    mutateAST (lib_lodash D) (mutationSeq info @ [m]) ast = Inr a \<and> ASTNodeRemoveExtraAttributesDeep a = k'"
proof -
  note ok = clean_libs.served_ok [OF assms(1-4)]
  have D: "generator_libs D" using assms(1) by (rule clean_libs.axioms(1))
  have cfg: "config_ok cfg" "oriAST cfg = ast" and b: "base_fits D cfg k info" using ok assms(5) by (auto simp: gen_ok_def)
  have base: "makes (lib_lodash D) cfg (mutationSeq info) k" "complete k" "spaces_at k (faultspaceInfo info)"
    using b by (simp_all add: base_fits_def)
  have fits: "mutation_fits (lib_lodash D) k (faultspaceInfo info) m"
    by (rule clean_libs.drawn_from_base(3) [OF assms(1) b assms(6)]) simp
  obtain k' where k': "apply_mutation (lib_lodash D) m k = Inr k'"
    using clean_libs.fitting_applies [OF assms(1) fits base(2) base_fits_stripped [OF b]] by blast
  note carried = generator_libs.fitting_carry [OF D base(3) fits]
  have "spaces_at k' (List.map_filter (driver_carry D m k) (faultspaceInfo info))"
    using fits by (intro generator_libs.carry_spaces [OF D base(3,2) _ _ k']) (simp_all add: mutation_fits_def)
  moreover have "makes (lib_lodash D) cfg (mutationSeq info @ [m]) k'"
    using clean_libs.makes_snoc [OF assms(1) cfg(1) base(1) fits k'] by simp
  ultimately show ?thesis
    using k' carried cfg(2) by (auto simp: makes_def spaces_at_def list_all_iff)
qed

definition demo_drawn :: "ast_node_space \<Rightarrow> gen_reply \<times> nat mutation_gen" where
  "demo_drawn S = the_returned (mutation_gen_next libs_ref
     \<lparr>allowedMutationTypes = None, overriddenFaultSpace = None\<rparr> (demo_gen_over S)) (NoMutation, demo_gen_over S)"

lemma demo_draws:
  "mutation_gen_next libs_ref \<lparr>allowedMutationTypes = None, overriddenFaultSpace = None\<rparr> (mutationGen demo_info)
   = Returned (NewMutation (hd demo_deletion), snd (demo_drawn demo_space))"
proof -
  have "mutation_gen_next libs_ref \<lparr>allowedMutationTypes = None, overriddenFaultSpace = None\<rparr> (demo_gen_over S)
      = Returned (demo_drawn S)" for S
    unfolding demo_drawn_def by (rule the_returned_Returned) code_simp
  moreover have "fst (demo_drawn S) = NewMutation (hd demo_deletion)" for S by code_simp
  ultimately show ?thesis by (metis demo_info_def ast_info.select_convs(2) prod.collapse)
qed

theorem drawn_mutation_extends_witness:
  "\<exists>k' infos a. apply_mutation (lib_lodash libs_ref) (hd demo_deletion) demo_ast = Inr k' \<and>
    carry_faultSpaces libs_ref (hd demo_deletion) demo_ast (faultspaceInfo demo_info) = Inr infos \<and>
    distinct (map info_faultSpace infos) \<and> list_all (\<lambda>p. isASTNode (cwalk k' p)) (map info_faultSpace infos) \<and>
    mutateAST (lib_lodash libs_ref) (mutationSeq demo_info @ [hd demo_deletion]) demo_ast = Inr a \<and>
    ASTNodeRemoveExtraAttributesDeep a = k'"
  by (rule drawn_mutation_extends [OF clean_libs_ref demo_parser_ast demo_types_ok demo_served demo_base demo_draws])

section \<open>The answers of a served driver\<close>

text \<open>Property C7. Every sequence a driver answers applies to the original AST without an exception, and each of its
  mutations fits the AST it is applied to.\<close>

theorem answered_sequences_apply:
  assumes "clean_libs D" and "parser_ast ast" and "node_types_ok (ASTNewNodeTypes x)"
    and "served D T x ast cfg s" and "request_ok (lib_lodash D) cfg request"
    and "handle_request D T signals fuel x cfg request s = Returned (Success seqs paths locs, s')"
  shows "list_all (\<lambda>ms. seq_applicable (lib_lodash D) ms ast \<and> (\<exists>a. mutateAST (lib_lodash D) ms ast = Inr a)) seqs"
proof -
  note ok = clean_libs.served_ok [OF assms(1-4)]
  have "list_all (\<lambda>ms. \<exists>k. makes (lib_lodash D) cfg ms k) seqs"
    using clean_libs.answered_makes [OF assms(1) _ _ assms(5,6)] ok by simp
  with ok show ?thesis by (auto simp: list_all_iff makes_def seq_sound_def)
qed

lemma demo_success:
  "handle_request libs_ref demo_tools (\<lambda>_ _. False) 3 demo_params demo_cli_cfg demo_request_line (demo_driver S)
   = Returned (Success [demo_deletion] [''out/0.sol''] [Unknown], snd (demo_handled S))"
  using demo_handles demo_response by (metis prod.collapse)

theorem answered_sequences_apply_witness:
  "seq_applicable (lib_lodash libs_ref) demo_deletion demo_ast \<and>
    (\<exists>a. mutateAST (lib_lodash libs_ref) demo_deletion demo_ast = Inr a)"
  using answered_sequences_apply [OF clean_libs_ref demo_parser_ast demo_types_ok demo_served demo_request_ok demo_success]
  by simp

text \<open>Property C8. A driver never offers a mutant twice: the ASTs made by all sequences it has answered since it
  was started, over all its requests, differ from each other and from the original AST, up to tokens and
  locations, and each is recorded as seen in its generator.\<close>

theorem answers_never_repeat:
  assumes "clean_libs D" and "parser_ast ast" and "node_types_ok (ASTNewNodeTypes x)"
    and "session D T x ast cfg s history"
  shows "distinct (map (\<lambda>ms. map_sum id ASTNodeRemoveExtraAttributesDeep (mutateAST (lib_lodash D) ms ast)) history) \<and>
    list_all (\<lambda>ms. \<exists>k. map_sum id ASTNodeRemoveExtraAttributesDeep (mutateAST (lib_lodash D) ms ast) = Inr k \<and>
      k \<noteq> ASTNodeRemoveExtraAttributesDeep ast \<and> map_of (ast_DistMap (mutationSeqGen s)) k \<noteq> None) history"
proof -
  have "oriAST cfg = ast" by (rule served_ast [OF session_served [OF assms(4)]])
  moreover have "ast_key ast = ASTNodeRemoveExtraAttributesDeep ast"
    by (rule complete_key [OF parser_ast_complete [OF assms(2)]])
  ultimately show ?thesis
    using makes_new_distinct [OF clean_libs.session_new [OF assms]] by (simp add: known_def map_of_eq_None_iff)
qed

text \<open>A driver for sequences of one mutation, and its answer to a request for two of them.\<close>

definition demo_short :: gen_params where
  "demo_short = demo_params\<lparr>maxMutationDistance := Some (Fin 1)\<rparr>"

abbreviation demo_short_cfg :: seq_config where
  "demo_short_cfg \<equiv> seq_config_of demo_short demo_ast demo_spaces"

lemma demo_short_starts:
  "genMutations libs_ref demo_tools demo_short demo_ast = Returned (demo_short_cfg, demo_driver demo_space)"
proof -
  have "InterestedSpaceSpecifierParser None = Inr None" by (simp add: InterestedSpaceSpecifierParser_def)
  moreover have "new_seq_gen libs_ref demo_tools demo_short_cfg (SeedNumber 0) = Returned demo_start"
    by (rule demo_config_started)
      (simp add: demo_config_def seq_config_of_def demo_short_def demo_params_def iter_gen_mutations_def demo_args_def
        default_args_def)
  moreover have "interested_space_specifier demo_short = None" "gp_seed demo_short = SeedNumber 0"
    by (simp_all add: demo_short_def demo_params_simps)
  ultimately show ?thesis by (simp add: genMutations_def demo_generates demo_driver_def)
qed

definition demo_two :: "ast_node_space \<Rightarrow> iter_response \<times> nat driver" where
  "demo_two S = the_returned (handle_request libs_ref demo_tools (\<lambda>_ _. False) 5 demo_short demo_short_cfg
     (RandomRequest 2) (demo_driver S)) (AllSpaceExhasuted, demo_driver S)"

definition demo_deletion_0 :: mutationSequence where
  "demo_deletion_0 = [Deletion \<lparr>del_targetNodePath = demo_statement_path ''0''\<rparr>]"

lemma demo_two_answered:
  "handle_request libs_ref demo_tools (\<lambda>_ _. False) 5 demo_short demo_short_cfg (RandomRequest 2) (demo_driver S)
   = Returned (Success [demo_deletion, demo_deletion_0] [''out/0.sol'', ''out/1.sol''] [Unknown, Unknown], snd (demo_two S))"
proof -
  have "handle_request libs_ref demo_tools (\<lambda>_ _. False) 5 demo_short demo_short_cfg (RandomRequest 2) (demo_driver S)
      = Returned (demo_two S)"
    unfolding demo_two_def by (rule the_returned_Returned) code_simp
  moreover have "fst (demo_two S) = Success [demo_deletion, demo_deletion_0] [''out/0.sol'', ''out/1.sol''] [Unknown, Unknown]"
    by code_simp
  ultimately show ?thesis by (metis prod.collapse)
qed

lemma demo_session:
  "session libs_ref demo_tools demo_short demo_ast demo_short_cfg (snd (demo_two demo_space)) [demo_deletion, demo_deletion_0]"
proof -
  have "request_ok (lib_lodash libs_ref) demo_short_cfg (RandomRequest 2)" by (simp add: request_ok_def)
  from session.answers [OF session.opened [OF demo_short_starts] this demo_two_answered] show ?thesis by simp
qed

theorem answers_never_repeat_witness:
  "map_sum id ASTNodeRemoveExtraAttributesDeep (mutateAST (lib_lodash libs_ref) demo_deletion demo_ast) \<noteq>
   map_sum id ASTNodeRemoveExtraAttributesDeep (mutateAST (lib_lodash libs_ref) demo_deletion_0 demo_ast) \<and>
   (\<exists>k. map_sum id ASTNodeRemoveExtraAttributesDeep (mutateAST (lib_lodash libs_ref) demo_deletion demo_ast) = Inr k \<and>
     map_of (ast_DistMap (mutationSeqGen (snd (demo_two demo_space)))) k \<noteq> None)"
proof -
  have "node_types_ok (ASTNewNodeTypes demo_short)" by (simp add: demo_short_def demo_params_simps node_types_ok_def)
  from answers_never_repeat [OF clean_libs_ref demo_parser_ast this demo_session] show ?thesis
    by (simp only: list.map distinct.simps list.pred_inject list.set) blast
qed

text \<open>Property C9. Exhaustion lasts while random requests are made: a driver that reports all spaces exhausted has
  written nothing and has no base left; any number of random requests later it is in the same state, and
  what a random request is answered is known: for one or more sequences the same report, and no
  sequences for a request of none, or one that is told to terminate at once. Sequences drawn for the
  request before the end was met are lost with it. A request for mutants of a sequence is not covered; it
  can give the driver new bases.\<close>

theorem exhaustion_lasts:
  assumes "clean_libs D" and "parser_ast ast" and "node_types_ok (ASTNewNodeTypes x)"
    and "served D T x ast cfg s" and "request_ok (lib_lodash D) cfg request"
    and "handle_request D T signals fuel x cfg request s = Returned (AllSpaceExhasuted, s')"
    and "random_requests D T x cfg s' s''"
  shows "s'' = s' \<and> bases (mutationSeqGen s') = {} \<and> written s' = written s \<and>
    handle_request D T later (Suc f) x cfg (RandomRequest n) s'' =
      (if n = 0 \<or> later 0 0 then
         (case patched_src_dir x of None \<Rightarrow> Thrown AssertionError | Some dir \<Rightarrow> Returned (Success [] [] [], s'))
       else Returned (AllSpaceExhasuted, s'))"
proof -
  have d: "isAllASTDone cfg (mutationSeqGen s')" by (rule exhausted_done [OF assms(6)])
  have "gen_ok D cfg (mutationSeqGen s')"
    using clean_libs.served_ok [OF assms(1-3) served.handled [OF assms(4-6)]] by simp
  then have "bases (mutationSeqGen s') = {}" using isAllASTDone_bases d by (simp add: gen_ok_def) blast
  moreover have "written s' = written s" using assms(6) by (cases rule: handle_request_parts) auto
  moreover have same: "s'' = s'" by (rule done_random_requests [OF assms(7) d])
  ultimately show ?thesis using done_answer [OF d] by simp
qed

definition demo_last :: "ast_node_space \<Rightarrow> iter_response \<times> nat driver" where
  "demo_last S = the_returned (handle_request libs_ref demo_tools (\<lambda>_ _. False) 5 demo_short demo_short_cfg
     (RandomRequest 3) (demo_driver S)) (SpaceExhasutedForAST, demo_driver S)"

lemma demo_last_answered:
  "handle_request libs_ref demo_tools (\<lambda>_ _. False) 5 demo_short demo_short_cfg (RandomRequest 3) (demo_driver S)
   = Returned (AllSpaceExhasuted, snd (demo_last S))"
proof -
  have "handle_request libs_ref demo_tools (\<lambda>_ _. False) 5 demo_short demo_short_cfg (RandomRequest 3) (demo_driver S)
      = Returned (demo_last S)"
    unfolding demo_last_def by (rule the_returned_Returned) code_simp
  moreover have "fst (demo_last S) = AllSpaceExhasuted" by code_simp
  ultimately show ?thesis by (metis prod.collapse)
qed

theorem exhaustion_lasts_witness:
  "bases (mutationSeqGen (snd (demo_last demo_space))) = {} \<and>
    written (snd (demo_last demo_space)) = written (demo_driver demo_space) \<and>
    handle_request libs_ref demo_tools (\<lambda>_ _. False) (Suc 0) demo_short demo_short_cfg (RandomRequest 5)
      (snd (demo_last demo_space)) = Returned (AllSpaceExhasuted, snd (demo_last demo_space))"
proof -
  have "node_types_ok (ASTNewNodeTypes demo_short)" by (simp add: demo_short_def demo_params_simps node_types_ok_def)
  moreover have "request_ok (lib_lodash libs_ref) demo_short_cfg (RandomRequest 3)" by (simp add: request_ok_def)
  ultimately show ?thesis
    using exhaustion_lasts [OF clean_libs_ref demo_parser_ast _ served.started [OF demo_short_starts] _ demo_last_answered
        random_requests.none_yet, of "\<lambda>_ _. False" 0 5]
    by simp
qed

text \<open>Property C10. What the driver answers it understands: the text it writes for an answered sequence parses
  to an array that, sent as the base of a request, is read as a sequence of the same types of mutations
  that makes the same AST, and the request is one of those the driver serves.\<close>

theorem answered_sequence_sent_back:
  assumes "clean_libs D" and "parser_ast ast" and "node_types_ok (ASTNewNodeTypes x)"
    and "served D T x ast cfg s" and "request_ok (lib_lodash D) cfg request"
    and "handle_request D T signals fuel x cfg request s = Returned (Success seqs paths locs, s')"
    and "ms \<in> set seqs"
  shows "\<exists>objs ms'. JSON_parse (JSON_stringify (mutationSequence_toJSON ms)) = Inr (JArr objs) \<and>
    map_result (objToMutation (lib_lodash D)) objs = Inr ms' \<and> map mutationType ms' = map mutationType ms \<and>
    mutateAST (lib_lodash D) ms' ast = mutateAST (lib_lodash D) ms ast \<and>
    request_ok (lib_lodash D) cfg (MutateRequest (JArr objs) specifier)"
proof -
  note ok = clean_libs.served_ok [OF assms(1-4)]
  have "list_all (\<lambda>ms. \<exists>k. makes (lib_lodash D) cfg ms k) seqs"
    using clean_libs.answered_makes [OF assms(1) _ _ assms(5,6)] ok by simp
  with assms(7) obtain k where k: "makes (lib_lodash D) cfg ms k" by (auto simp: list_all_iff)
  let ?objs = "map (\<lambda>m. json_text (mutation_toJSON m)) ms"
  have arr: "mutationSequence_toJSON ms = JArr ?objs" by (simp add: mutationSequence_toJSON_def)
  have "JSON_parse (JSON_stringify (mutationSequence_toJSON ms)) = Inr (mutationSequence_toJSON ms)"
    using k by (intro JSON_parse_stringify)
      (auto simp: mutationSequence_toJSON_def makes_def decodes_def list_all_iff json_text_is_json simp del: json_text.simps)
  moreover note sent = clean_libs.makes_sent_back [OF assms(1) k]
  moreover have "mutationType (resent m) = mutationType m" for m by (cases m) simp_all
  ultimately show ?thesis
    using k ok by (intro exI [of _ ?objs] exI [of _ "map resent ms"]) (auto simp: arr is_array_of_def makes_def simp del: JSON_stringify.simps)
qed

theorem answered_sequence_sent_back_witness:
  "\<exists>objs ms'. JSON_parse (JSON_stringify (mutationSequence_toJSON demo_deletion)) = Inr (JArr objs) \<and>
    map_result (objToMutation (lib_lodash libs_ref)) objs = Inr ms' \<and> map mutationType ms' = map mutationType demo_deletion \<and>
    mutateAST (lib_lodash libs_ref) ms' demo_ast = mutateAST (lib_lodash libs_ref) demo_deletion demo_ast \<and>
    request_ok (lib_lodash libs_ref) demo_cli_cfg (MutateRequest (JArr objs) None)"
  by (rule answered_sequence_sent_back [OF clean_libs_ref demo_parser_ast demo_types_ok demo_served demo_request_ok
        demo_success]) simp

text \<open>Property C11. Every request ends, when the maximal distance of random sequences is finite: with
  enough fuel, handling it returns a response or throws, however many of the new ASTs are rejected. A
  request for mutants of a sequence ends in any case.\<close>

theorem requests_end:
  assumes "clean_libs D" and "parser_ast ast" and "node_types_ok (ASTNewNodeTypes x)"
    and "served D T x ast cfg s" and "request_ok (lib_lodash D) cfg request"
    and "\<And>num. request = RandomRequest num \<Longrightarrow> maxDistance cfg \<noteq> PosInf"
  shows "\<exists>n. \<forall>fuel. handle_request D T signals (n + fuel) x cfg request s \<noteq> Unfinished"
proof -
  note ok = clean_libs.served_ok [OF assms(1-4)]
  obtain n where "\<forall>fuel \<ge> n. handle_request D T signals fuel x cfg request s \<noteq> Unfinished"
    using clean_libs.request_returns [OF assms(1) _ _ _ assms(5)] assms(6) ok by blast
  then show ?thesis by (intro exI [of _ n]) simp
qed

theorem requests_end_witness:
  "\<exists>n. \<forall>fuel. handle_request libs_ref demo_tools (\<lambda>_ _. False) (n + fuel) demo_short demo_short_cfg
     (RandomRequest 7) (demo_driver demo_space) \<noteq> Unfinished"
  by (rule requests_end [OF clean_libs_ref demo_parser_ast _ served.started [OF demo_short_starts]])
    (simp_all add: demo_short_def demo_params_simps node_types_ok_def request_ok_def seq_config_of_def)

section \<open>The files of a served driver\<close>

text \<open>Property C12. The file the driver reports for a sequence holds what the one-shot mutation of the original AST by
  that sequence prints, unless sources are simplified; and no other file of that name was written.\<close>

theorem answered_files_hold_mutants:
  assumes "served D T x ast cfg s" and "request_ok (lib_lodash D) cfg request"
    and "handle_request D T signals fuel x cfg request s = Returned (Success seqs paths locs, s')"
    and "\<not> simplify x"
  shows "list_all2 (\<lambda>ms path. \<exists>src. mutateFromAST (lib_lodash D) T ast ms = Inr src \<and>
    map_of (written s') path = Some (Source src)) seqs paths"
proof -
  have ori: "oriAST cfg = ast" by (rule served_ast [OF assms(1)])
  obtain dir where dir: "patched_src_dir x = Some dir"
    and all: "list_all2 (\<lambda>ms path. \<exists>src. mutateFromAST (lib_lodash D) T ast ms = Inr src \<and>
      (path, Source src) \<in> set (written s')) seqs paths"
    using assms(3)
  proof (cases rule: handle_request_parts)
    case (success gen seqs' dir paths' s2 locs')
    with write_sequences_sources [OF assms(4) success(3)] ori that show thesis by simp
  qed (use request_failure in blast)
  have "files_upto dir (numProcessed s') s'"
    by (rule served_files [OF served.handled [OF assms(1-3)] dir])
  then have "distinct (map fst (written s'))" by (simp add: files_upto_def)
  with all show ?thesis by (auto elim!: list_all2_mono)
qed

theorem answered_files_hold_mutants_witness:
  "list_all2 (\<lambda>ms path. \<exists>src. mutateFromAST (lib_lodash libs_ref) demo_tools demo_ast ms = Inr src \<and>
    map_of (written (snd (demo_handled demo_space))) path = Some (Source src)) [demo_deletion] [''out/0.sol'']"
  by (rule answered_files_hold_mutants [OF demo_served demo_request_ok demo_success]) (simp add: demo_params_simps)

text \<open>Property C13. No file is written twice: in every state of a driver the files written so far are distinct, and
  each belongs to a sequence numbered below the counter.\<close>

theorem served_files_distinct:
  assumes "served D T x ast cfg s" and "patched_src_dir x = Some dir"
  shows "distinct (map fst (written s)) \<and>
    list_all (\<lambda>f. list_ex (\<lambda>i. sequence_file dir i f) [0..<numProcessed s]) (map fst (written s))"
  using served_files [OF assms] by (fastforce simp: files_upto_def list_all_iff list_ex_iff)

theorem served_files_distinct_witness:
  "map fst (written (snd (demo_handled demo_space))) = [''out/0.sol'', ''out/0.sol.mutation.json''] \<and>
    distinct (map fst (written (snd (demo_handled demo_space)))) \<and>
    list_all (\<lambda>f. list_ex (\<lambda>i. sequence_file ''out'' i f) [0..<numProcessed (snd (demo_handled demo_space))])
      (map fst (written (snd (demo_handled demo_space))))"
proof
  have "map fst (written (snd (demo_handled S))) = [''out/0.sol'', ''out/0.sol.mutation.json'']" for S
    by code_simp
  then show "map fst (written (snd (demo_handled demo_space))) = [''out/0.sol'', ''out/0.sol.mutation.json'']" .
  show "distinct (map fst (written (snd (demo_handled demo_space)))) \<and>
    list_all (\<lambda>f. list_ex (\<lambda>i. sequence_file ''out'' i f) [0..<numProcessed (snd (demo_handled demo_space))])
      (map fst (written (snd (demo_handled demo_space))))"
    by (rule served_files_distinct [OF served.handled [OF demo_served demo_request_ok demo_success] demo_params_simps(4)])
qed

end
