(* ===== verification/TestDir.thy ===== *)
theory TestDir
  imports SpecifierParser JsonText "HOL-Library.Word"
begin

unbundle bit_operations_syntax

text \<open>
  The directory a test is run in (\<open>tc/src/exec2.ts\<close>, \<open>ExecTestCases_StateTest_Single\<close>): the paths of
  its parts, the operations on the file system that set it up, in order, and the environment that
  tells \<open>testeth\<close> where it is. Paths are those of a POSIX system.
\<close>

section \<open>Paths of the file system\<close>

text \<open>\<open>path.normalize\<close>: empty segments and \<open>.\<close> are dropped, \<open>..\<close> takes the segment before it
  away; above the root of an absolute path there is nothing. The segments so far are a stack.\<close>

fun normalize_segments :: "bool \<Rightarrow> string list \<Rightarrow> string list \<Rightarrow> string list" where
  "normalize_segments allowAboveRoot res [] = rev res"
| "normalize_segments allowAboveRoot res (seg # segs) =
     (if seg = '''' \<or> seg = ''.'' then normalize_segments allowAboveRoot res segs
      else if seg = ''..'' then
        (if res \<noteq> [] \<and> hd res \<noteq> ''..'' then normalize_segments allowAboveRoot (tl res) segs
         else normalize_segments allowAboveRoot (if allowAboveRoot then ''..'' # res else res) segs)
      else normalize_segments allowAboveRoot (seg # res) segs)"

fun join_slash :: "string list \<Rightarrow> string" where
  "join_slash [] = ''''"
| "join_slash [s] = s"
| "join_slash (s # ss) = s @ ''/'' @ join_slash ss"

definition path_normalize :: "string \<Rightarrow> string" where
  "path_normalize p =
     (if p = '''' then ''.''
      else
        let isAbsolute = hd p = CHR ''/''; trailingSeparator = last p = CHR ''/'';
            q = join_slash (normalize_segments (\<not> isAbsolute) [] (js_split (CHR ''/'') p)) in
        if q = '''' then (if isAbsolute then ''/'' else if trailingSeparator then ''./'' else ''.'')
        else (if isAbsolute then ''/'' else '''') @ q @ (if trailingSeparator then ''/'' else ''''))"

definition path_join :: "string list \<Rightarrow> string" where
  "path_join args = path_normalize (join_slash (filter (\<lambda>s. s \<noteq> '''') args))"

section \<open>Setting the directory up\<close>

text \<open>The mode bits of \<open>fs.constants\<close>, and the operations; \<open>mkdirpSync\<close> makes the directories above
  too, and takes a mode or not.\<close>

definition S_IRWXU :: "32 word" where "S_IRWXU = 0x1C0"
definition S_IRWXG :: "32 word" where "S_IRWXG = 0x38"
definition S_IROTH :: "32 word" where "S_IROTH = 4"
definition S_IXOTH :: "32 word" where "S_IXOTH = 1"
definition S_IRWXO :: "32 word" where "S_IRWXO = 7"

datatype fs_op =
    Chmod string "32 word"
  | Mkdirp string "32 word option"
  | WriteFile string string

definition testFilterDir :: "string \<Rightarrow> string" where
  "testFilterDir tmpEthTestDir = path_join [tmpEthTestDir, ''src'', ''GeneralStateTestsFiller'', ''stExample'']"

definition testcaseDir :: "string \<Rightarrow> string" where
  "testcaseDir tmpEthTestDir = path_join [tmpEthTestDir, ''GeneralStateTests'', ''stExample'']"

definition test_files :: "string \<Rightarrow> string \<Rightarrow> string \<Rightarrow> fs_op list" where
  "test_files tmpEthTestDir testName filler =
     [Chmod tmpEthTestDir (S_IRWXU OR S_IRWXG OR S_IROTH OR S_IXOTH),
      Mkdirp (testFilterDir tmpEthTestDir) None,
      Mkdirp (testcaseDir tmpEthTestDir) (Some (S_IRWXU OR S_IRWXG OR S_IRWXO)),
      Chmod (testcaseDir tmpEthTestDir) (S_IRWXU OR S_IRWXG OR S_IRWXO),
      WriteFile (path_join [testFilterDir tmpEthTestDir, testName @ ''Filler.json'']) filler]"

definition execEnv :: "(string \<times> string) list \<Rightarrow> string \<Rightarrow> (string \<times> string) list" where
  "execEnv process_env tmpEthTestDir = AList.update ''ETHEREUM_TEST_PATH'' tmpEthTestDir process_env"

section \<open>Where the files are\<close>

text \<open>A segment that stays, and the absolute path of such segments.\<close>

definition plain_segment :: "string \<Rightarrow> bool" where
  "plain_segment s \<longleftrightarrow> s \<notin> {'''', ''.'', ''..''} \<and> CHR ''/'' \<notin> set s"

definition slashed :: "string list \<Rightarrow> string" where
  "slashed segs = concat (map (\<lambda>s. CHR ''/'' # s) segs)"

lemma slashed_simps [simp]:
  "slashed [] = []" "slashed (s # ss) = CHR ''/'' # s @ slashed ss" "slashed (xs @ ys) = slashed xs @ slashed ys"
  by (simp_all add: slashed_def)

lemma join_slash_slashed: "join_slash (s # ss) = s @ slashed ss"
  by (induction ss arbitrary: s) auto

lemma split_slashed:
  assumes "CHR ''/'' \<notin> set s" and "list_all plain_segment ss"
  shows "js_split (CHR ''/'') (s @ slashed ss) = s # ss"
  using assms
proof (induction ss arbitrary: s)
  case (Cons t ts)
  then show ?case using js_split_cons [of "CHR ''/''" s "t @ slashed ts"] by (simp add: plain_segment_def)
qed (simp add: js_split_none)

lemma normalize_plain: "list_all plain_segment segs \<Longrightarrow> normalize_segments up res segs = rev res @ segs"
  by (induction segs arbitrary: res) (auto simp: plain_segment_def)

lemma last_slashed:
  assumes "list_all plain_segment segs" and "segs \<noteq> []"
  shows "last (slashed segs) \<noteq> CHR ''/''"
proof -
  obtain ss s where segs: "segs = ss @ [s]" using assms(2) by (cases segs rule: rev_cases) auto
  then have s: "s \<noteq> []" "CHR ''/'' \<notin> set s" using assms(1) by (auto simp: plain_segment_def)
  then have "last s \<noteq> CHR ''/''" using last_in_set [OF s(1)] by metis
  with s show ?thesis by (simp add: segs)
qed

lemma path_normalize_slashed:
  assumes "list_all plain_segment segs" and "segs \<noteq> []"
  shows "path_normalize (slashed segs) = slashed segs"
proof -
  obtain s ss where segs: "segs = s # ss" using assms(2) by (cases segs) auto
  have "js_split (CHR ''/'') (slashed segs) = [] # segs"
    using assms(1) split_slashed [of s ss] by (simp add: segs plain_segment_def)
  moreover have "join_slash segs \<noteq> []" "CHR ''/'' # join_slash segs = slashed segs"
    using assms(1) by (simp_all add: segs join_slash_slashed plain_segment_def)
  moreover have "slashed segs \<noteq> []" "hd (slashed segs) = CHR ''/''" by (simp_all add: segs)
  ultimately show ?thesis
    using last_slashed [OF assms] normalize_plain [OF assms(1), of False "[]"]
    by (simp add: path_normalize_def Let_def)
qed

lemma path_join_slashed:
  assumes "list_all plain_segment (segs @ names)" and "segs \<noteq> []"
  shows "path_join (slashed segs # names) = slashed (segs @ names)"
proof -
  have "filter (\<lambda>s. s \<noteq> '''') (slashed segs # names) = slashed segs # names"
    using assms by (auto simp: list_all_iff plain_segment_def neq_Nil_conv intro!: filter_True)
  then show ?thesis
    using path_normalize_slashed [of "segs @ names"] assms by (simp add: path_join_def join_slash_slashed)
qed

lemma plain_Filler: "CHR ''/'' \<notin> set name \<Longrightarrow> plain_segment (name @ ''Filler.json'')"
  by (cases name) (auto simp: plain_segment_def)

lemma test_dirs:
  assumes "list_all plain_segment segs" and "segs \<noteq> []"
  shows "testFilterDir (slashed segs) = slashed (segs @ [''src'', ''GeneralStateTestsFiller'', ''stExample''])"
    and "testcaseDir (slashed segs) = slashed (segs @ [''GeneralStateTests'', ''stExample''])"
  using assms unfolding testFilterDir_def testcaseDir_def
  by (intro path_join_slashed; simp add: plain_segment_def)+

lemma filler_path:
  assumes "list_all plain_segment segs" and "segs \<noteq> []" and "CHR ''/'' \<notin> set name"
  shows "path_join [testFilterDir (slashed segs), name @ ''Filler.json''] =
    slashed (segs @ [''src'', ''GeneralStateTestsFiller'', ''stExample'', name @ ''Filler.json''])"
  using assms path_join_slashed [of "segs @ [''src'', ''GeneralStateTestsFiller'', ''stExample'']" "[name @ ''Filler.json'']"]
    plain_Filler [OF assms(3)]
  by (simp add: test_dirs del: slashed_simps(3)) (simp add: plain_segment_def)

end
