(* ===== verification/TestExec.thy ===== *)
theory TestExec
  imports TestDir
begin

text \<open>
  The test executor (\<open>tc/src/exec2.ts\<close>, \<open>tc/src/exec.ts\<close>): running the state tests of some test
  files against new code of a contract, with the filter on the covered source locations. The
  file system, the command \<open>testeth\<close>, lodash and p-map are parameters, the record \<open>test_env\<close>; a run
  of \<open>testeth\<close> is a function of the command, its environment, the operations that set its fresh
  directory up, and the time limit. The logs are not modelled.
\<close>

section \<open>Values and strings of the language\<close>

fun truthy :: "jsval \<Rightarrow> bool" where
  "truthy JNull = False"
| "truthy (JBool b) = b"
| "truthy (JNum n) = (n \<noteq> Fin 0 \<and> n \<noteq> NaN)"
| "truthy (JStr s) = (s \<noteq> [])"
| "truthy v = True"

text \<open>\<open>toLowerCase\<close> on characters of eight bits.\<close>

definition lower_char :: "char \<Rightarrow> char" where
  "lower_char c = (let n = of_char c :: nat in
     if (65 \<le> n \<and> n \<le> 90) \<or> (192 \<le> n \<and> n \<le> 222 \<and> n \<noteq> 215) then char_of (n + 32) else c)"

definition toLowerCase :: "string \<Rightarrow> string" where
  "toLowerCase s = map lower_char s"

text \<open>\<open>parseInt(v)\<close> of any value.\<close>

definition parseInt_of :: "jsval option \<Rightarrow> jsnum" where
  "parseInt_of v = (case v of None \<Rightarrow> NaN | Some w \<Rightarrow> js_parseInt (js_String w))"

definition is_integer :: "jsnum \<Rightarrow> bool" where
  "is_integer n \<longleftrightarrow> (case n of Fin z \<Rightarrow> True | _ \<Rightarrow> False)"

section \<open>Third parties\<close>

text \<open>The outcome of \<open>execa.command\<close>: its standard output, or an exception that carries the exit
  code of the process, if the process gave one. \<open>mkdtemp\<close> answers the directory it made for a prefix,
  and \<open>performs\<close> tells whether an operation succeeds after others in that directory.\<close>

datatype exec_result = Exited string | Failed "int option"

record test_env =
  tl_flatten :: "jsval list \<Rightarrow> jsval list"
  tl_flatMapDeep :: "string list \<Rightarrow> (string \<Rightarrow> jsval result) \<Rightarrow> jsval list result"
  tl_pMap :: "string list \<Rightarrow> (string \<Rightarrow> jsval result) \<Rightarrow> jsnum \<Rightarrow> jsval list result"
  read_file :: "string \<Rightarrow> string option"
  tmpdir :: string
  process_env :: "(string \<times> string) list"
  mkdtemp :: "string \<Rightarrow> string option"
  performs :: "fs_op list \<Rightarrow> fs_op \<Rightarrow> bool"
  testeth :: "string \<Rightarrow> (string \<times> string) list \<Rightarrow> fs_op list \<Rightarrow> int \<Rightarrow> exec_result"

section \<open>One test\<close>

record single_result =
  sr_Result :: bool
  sr_PCs :: "int list option"

definition transformedBin :: "string \<Rightarrow> string" where
  "transformedBin bin = (if \<not> js_startsWith bin ''0x'' then ''0x'' @ bin else bin)"

text \<open>The new code of one contract goes into the state before the test, and into the expected
  state where the test expects some code. The filler is a copy, so nothing else sees it.\<close>

definition patch_contract :: "string \<times> string \<Rightarrow> jsval option \<Rightarrow> jsval option result" where
  "patch_contract contract testFiller = (case contract of (addr0, bin) \<Rightarrow>
     let addr = toLowerCase addr0 in
     bind_result (js_field testFiller ''pre'') (\<lambda>pre.
     bind_result (js_field pre addr) (\<lambda>account.
     bind_result (js_assert (account \<noteq> None)) (\<lambda>_.
     bind_result (js_field account ''code'') (\<lambda>code.
     bind_result (js_assert (code \<noteq> None)) (\<lambda>_.
       let testFiller' = put (the testFiller) [''pre'', addr, ''code''] (JStr (transformedBin bin)) in
       bind_result (js_field (Some testFiller') ''expect'') (\<lambda>expect.
       bind_result (js_field expect ''0'') (\<lambda>expect0.
       bind_result (js_field expect0 ''result'') (\<lambda>res.
       bind_result (js_field res addr) (\<lambda>expected.
       bind_result (js_field expected ''code'') (\<lambda>expectedCode.
         Inr (Some (if expectedCode \<noteq> None
           then put testFiller' [''expect'', ''0'', ''result'', addr, ''code''] (JStr (transformedBin bin))
           else testFiller')))))))))))))"

fun patch_contracts :: "(string \<times> string) list \<Rightarrow> jsval option \<Rightarrow> jsval option result" where
  "patch_contracts [] testFiller = Inr testFiller"
| "patch_contracts (contract # contracts) testFiller =
     bind_result (patch_contract contract testFiller) (patch_contracts contracts)"

text \<open>A property that is undefined is not written.\<close>

definition rstTestFilterObj :: "string \<Rightarrow> jsval option \<Rightarrow> jsval" where
  "rstTestFilterObj testName testFiller =
     JObj (case testFiller of Some v \<Rightarrow> [(testName, v)] | None \<Rightarrow> [])"

definition arg_retPC :: "bool \<Rightarrow> string" where
  "arg_retPC retPC = (if retPC then
     ''--jsontrace '' @ [CHR 0x27] @ JSON_stringify (JObj [(''disableStorage'', JBool True),
       (''disableMemory'', JBool True), (''disableStack'', JBool True), (''fullStorage'', JBool False)])
       @ [CHR 0x27]
     else [])"

definition execTestethCMD :: "string \<Rightarrow> bool \<Rightarrow> string" where
  "execTestethCMD testethCMD retPC =
     testethCMD @ '' -t GeneralStateTests/stExample -- --filltests --dismissGasCost '' @ arg_retPC retPC"

text \<open>A fresh directory with the filler in it, and the operations that made it.\<close>

fun perform_all :: "(fs_op list \<Rightarrow> fs_op \<Rightarrow> bool) \<Rightarrow> fs_op list \<Rightarrow> fs_op list \<Rightarrow> fs_op list result" where
  "perform_all succeeds performed [] = Inr performed"
| "perform_all succeeds performed (op # ops) =
     (if succeeds performed op then perform_all succeeds (performed @ [op]) ops else Inl GenericError)"

lemma perform_all_eq: "perform_all f performed ops = Inr files \<Longrightarrow> files = performed @ ops"
proof (induction ops arbitrary: performed)
  case (Cons op ops)
  then show ?case using Cons.IH [of "performed @ [op]"] by (simp split: if_splits)
qed simp

definition prepare_test :: "test_env \<Rightarrow> string \<Rightarrow> string \<Rightarrow> (string \<times> fs_op list) result" where
  "prepare_test E testName filler =
     (case mkdtemp E (tmpdir E @ ''/'') of
        None \<Rightarrow> Inl GenericError
      | Some tmpEthTestDir \<Rightarrow>
          bind_result (perform_all (performs E) [] (test_files tmpEthTestDir testName filler)) (\<lambda>files.
            Inr (tmpEthTestDir, files)))"

text \<open>One line of the trace: an object, or several objects written one behind the other. The
  text behind the last brace is empty and yields nothing.\<close>

definition split_objects :: "string \<Rightarrow> jsval result" where
  "split_objects l =
     bind_result (map_result (\<lambda>x. if 0 < length x then JSON_parse (x @ ''}'') else Inr (JArr []))
       (js_split (CHR ''}'') l)) (\<lambda>objs. Inr (JArr objs))"

definition trace_line :: "string \<Rightarrow> jsval result" where
  "trace_line l = (case JSON_parse l of Inr obj \<Rightarrow> Inr obj | Inl err \<Rightarrow> split_objects l)"

text \<open>The program counters of the first called function.\<close>

fun trace_PCs :: "jsval list \<Rightarrow> int list result" where
  "trace_PCs [] = Inr []"
| "trace_PCs (instTrace # traces) =
     bind_result (js_field (Some instTrace) ''depth'') (\<lambda>depth.
     if depth = Some (JStr ''0'') then
       bind_result (js_field (Some instTrace) ''pc'') (\<lambda>v.
       let pc = parseInt_of v in
       bind_result (js_assert (is_integer pc)) (\<lambda>_.
       bind_result (trace_PCs traces) (\<lambda>PCs.
         Inr ((case pc of Fin z \<Rightarrow> z | _ \<Rightarrow> 0) # PCs))))
     else trace_PCs traces)"

text \<open>The exit codes 200 and 201 report a failing test; an exception without an exit code does not
  come from the process and is thrown again.\<close>

definition ExecTestCases_StateTest_Single ::
  "test_env \<Rightarrow> jsval option \<Rightarrow> string \<Rightarrow> string \<Rightarrow> (string \<times> string) list option \<Rightarrow> bool \<Rightarrow> int option \<Rightarrow>
   single_result result" where
  "ExecTestCases_StateTest_Single E testFiller0 testName testethCMD contractBins retPC testExecTimeout =
     bind_result (case contractBins of
         Some bins \<Rightarrow> patch_contracts bins testFiller0 | None \<Rightarrow> Inr testFiller0) (\<lambda>testFiller.
     bind_result (prepare_test E testName (JSON_stringify (rstTestFilterObj testName testFiller)))
       (\<lambda>(tmpEthTestDir, files).
     (case testeth E (execTestethCMD testethCMD retPC) (execEnv (process_env E) tmpEthTestDir) files
         (case testExecTimeout of None \<Rightarrow> 0 | Some t \<Rightarrow> t) of
        Failed None \<Rightarrow> Inl GenericError
      | Failed (Some exit_code) \<Rightarrow>
          if exit_code \<notin> {200, 201} then Inl GenericError
          else Inr \<lparr>sr_Result = False, sr_PCs = None\<rparr>
      | Exited outputs \<Rightarrow>
          if retPC then
            bind_result (tl_flatMapDeep E (drop 1 (js_split (CHR 0x0A) outputs)) trace_line) (\<lambda>traces.
            bind_result (trace_PCs traces) (\<lambda>PCs. Inr \<lparr>sr_Result = True, sr_PCs = Some PCs\<rparr>))
          else Inr \<lparr>sr_Result = True, sr_PCs = None\<rparr>)))"

text \<open>The tests of a file, one after the other. \<open>for (... in ...)\<close> over undefined or null does
  nothing.\<close>

definition run_tests ::
  "test_env \<Rightarrow> string \<Rightarrow> (string \<times> string) list option \<Rightarrow> (string \<times> jsval) list \<Rightarrow> bool list result" where
  "run_tests E testethCMD contractBins = map_result (\<lambda>(testName, test).
     bind_result (js_field (Some test) ''TestFiller'') (\<lambda>filler.
     bind_result (ExecTestCases_StateTest_Single E filler testName testethCMD contractBins False None)
       (\<lambda>rst. Inr (sr_Result rst))))"

definition exec2_ExecTestCases_StateTest ::
  "test_env \<Rightarrow> jsval \<Rightarrow> string \<Rightarrow> (string \<times> string) list option \<Rightarrow> bool list result" where
  "exec2_ExecTestCases_StateTest E testFillers testethCMD contractBins =
     bind_result (js_field (Some testFillers) ''Tests'') (\<lambda>tests.
       run_tests E testethCMD contractBins (case tests of None \<Rightarrow> [] | Some v \<Rightarrow> entries v))"

section \<open>The test files\<close>

definition NotRelevant :: jsval where
  "NotRelevant = JStr ''NotRelevant''"

definition coveredLocations :: "jsval \<Rightarrow> jsval option result" where
  "coveredLocations outStateTest =
     bind_result (js_field (Some outStateTest) ''Version'') (\<lambda>version.
     if version = Some (JStr ''2'') then js_field (Some outStateTest) ''CoveredStatementLocation''
     else if version = Some (JStr ''3'') then
       (if js_prop outStateTest ''CoverageInformation'' \<noteq> Some JNull
        then js_field (js_prop outStateTest ''CoverageInformation'') ''CoveredStatementLocation''
        else Inr None)
     else Inr None)"

definition locations_intersect :: "jsval \<Rightarrow> jsval \<Rightarrow> bool result" where
  "locations_intersect a b =
     bind_result (read_range a) (\<lambda>ra. bind_result (read_range b) (\<lambda>rb. Inr (tc_locationIntersect ra rb)))"

fun js_elems :: "jsval \<Rightarrow> jsval list result" where
  "js_elems (JArr xs) = Inr xs"
| "js_elems _ = Inl TypeError"

text \<open>Whether no covered location meets one of the locations asked for.\<close>

definition not_relevant :: "jsval \<Rightarrow> jsval \<Rightarrow> bool result" where
  "not_relevant covered onlyLocations =
     bind_result (js_elems covered) (every_result (\<lambda>x.
       bind_result (js_elems onlyLocations) (\<lambda>ys.
       bind_result (some_result (locations_intersect x) ys) (\<lambda>b. Inr (\<not> b)))))"

definition process_one_test_case_file ::
  "test_env \<Rightarrow> string \<Rightarrow> string \<Rightarrow> string \<Rightarrow> string option \<Rightarrow> jsval option \<Rightarrow> bool \<Rightarrow> jsval result" where
  "process_one_test_case_file E path_testCase testethCMD addr bin onlyLocations throwOnFailing =
     (case read_file E path_testCase of None \<Rightarrow> Inl GenericError | Some content \<Rightarrow>
     bind_result (JSON_parse content) (\<lambda>outStateTest.
     bind_result (case onlyLocations of
         None \<Rightarrow> Inr False
       | Some only \<Rightarrow> bind_result (coveredLocations outStateTest) (\<lambda>covered.
           case covered of None \<Rightarrow> Inr False | Some c \<Rightarrow> not_relevant c only)) (\<lambda>skip.
     if skip then Inr NotRelevant
     else bind_result (exec2_ExecTestCases_StateTest E outStateTest testethCMD
         (map_option (\<lambda>b. [(toLowerCase addr, b)]) bin)) (\<lambda>rs.
       let rst = JArr (map JBool rs) in
       if throwOnFailing \<and> \<not> truthy rst then Inl FailingTestError else Inr rst))))"

definition parse_onlyLocations :: "string option \<Rightarrow> jsval option result" where
  "parse_onlyLocations onlyLocations0 =
     (case onlyLocations0 of
        None \<Rightarrow> Inr None | Some s \<Rightarrow> bind_result (JSON_parse s) (\<lambda>v. Inr (Some v)))"

text \<open>What is printed at the end.\<close>

definition exec_ExecTestCases_StateTest ::
  "test_env \<Rightarrow> string list \<Rightarrow> string \<Rightarrow> string option \<Rightarrow> bool \<Rightarrow> jsnum \<Rightarrow> string option \<Rightarrow> string \<Rightarrow> string result" where
  "exec_ExecTestCases_StateTest E paths addr bin fastFail concurrency_limit onlyLocations0 testethCMD =
     bind_result (parse_onlyLocations onlyLocations0) (\<lambda>onlyLocations.
     bind_result (js_assert (list_all (\<lambda>x. read_file E x \<noteq> None) paths)) (\<lambda>_.
     bind_result (case tl_pMap E paths (\<lambda>path_testCase.
         process_one_test_case_file E path_testCase testethCMD addr bin onlyLocations fastFail) concurrency_limit of
           Inl err \<Rightarrow> if err = FailingTestError then Inr [JArr [JBool False]] else Inl err
         | Inr rsts \<Rightarrow> Inr rsts) (\<lambda>rsts0.
       Inr (JSON_stringify (JArr (tl_flatten E rsts0))))))"

section \<open>What the executor relies on\<close>

text \<open>The documented behaviour of \<open>flatten\<close>, \<open>flatMapDeep\<close> and \<open>p-map\<close>: the results of \<open>p-map\<close> are in
  the order of its input, and it fails with the error of one of the calls. \<open>mkdtemp\<close> appends six
  characters to its prefix; the directory for temporary files has a normalized absolute path.\<close>

fun flatten_once :: "jsval \<Rightarrow> jsval list" where
  "flatten_once (JArr ys) = ys"
| "flatten_once v = [v]"

fun flatten_deep :: "jsval \<Rightarrow> jsval list" where
  "flatten_deep (JArr ys) = concat (map flatten_deep ys)"
| "flatten_deep v = [v]"

text \<open>What a file with one test gives, and its place in the flattened results.\<close>

definition single_entry :: "jsval \<Rightarrow> jsval \<Rightarrow> bool" where
  "single_entry v r \<longleftrightarrow> v = NotRelevant \<and> r = v \<or> (\<exists>b. v = JArr [JBool b] \<and> r = JBool b)"

definition valid_concurrency :: "jsnum \<Rightarrow> bool" where
  "valid_concurrency c \<longleftrightarrow> (case c of Fin z \<Rightarrow> 1 \<le> z | PosInf \<Rightarrow> True | _ \<Rightarrow> False)"

locale test_executor =
  fixes E :: test_env
  assumes flatten: "tl_flatten E xs = concat (map flatten_once xs)"
    and flatMapDeep: "tl_flatMapDeep E lines f =
      bind_result (map_result f lines) (\<lambda>vs. Inr (concat (map flatten_deep vs)))"
    and pMap: "valid_concurrency c \<Longrightarrow> tl_pMap E paths g c = Inr rs \<longleftrightarrow> map_result g paths = Inr rs"
    and pMap_error: "valid_concurrency c \<Longrightarrow> tl_pMap E paths g c = Inl e \<Longrightarrow> \<exists>p \<in> set paths. g p = Inl e"
    and mkdtemp: "mkdtemp E start = Some dir \<Longrightarrow> \<exists>s. dir = start @ s \<and> length s = 6 \<and> CHR ''/'' \<notin> set s"
    and tmpdir: "\<exists>segs. list_all plain_segment segs \<and> tmpdir E = slashed segs"
begin

text \<open>Files with one test each give one result each, in the order of the files.\<close>

lemma results_of_files:
  assumes "valid_concurrency c" and "tl_pMap E paths g c = Inr rs"
    and "list_all2 single_entry rs xs"
  shows "tl_flatten E rs = xs"
proof -
  have "concat (map flatten_once vs) = ys"
    if "list_all2 single_entry vs ys" for vs ys
    using that by (induction rule: list_all2_induct) (auto simp: single_entry_def NotRelevant_def)
  with assms(3) show ?thesis by (simp add: flatten)
qed

text \<open>The fresh directory, and the files in it.\<close>

lemma prepared:
  assumes "prepare_test E name filler = Inr (dir, files)"
  obtains segs where "dir = slashed segs" and "list_all plain_segment segs" and "segs \<noteq> []"
    and "files = test_files dir name filler"
proof -
  have dir: "mkdtemp E (tmpdir E @ ''/'') = Some dir" and files: "files = test_files dir name filler"
    using assms by (auto simp: prepare_test_def dest: perform_all_eq split: option.splits)
  obtain s where s: "dir = (tmpdir E @ ''/'') @ s" "length s = 6" "CHR ''/'' \<notin> set s" using mkdtemp [OF dir] by blast
  obtain segs where segs: "list_all plain_segment segs" "tmpdir E = slashed segs" using tmpdir by blast
  show thesis
  proof (rule that)
    show "dir = slashed (segs @ [s])" using s(1) segs(2) by simp
    show "list_all plain_segment (segs @ [s])" using s(2,3) segs(1) by (auto simp: plain_segment_def)
  qed (use files in simp_all)
qed

end

subsection \<open>A reference instance\<close>

definition env_ref :: "(string \<Rightarrow> string option) \<Rightarrow> (string \<Rightarrow> (string \<times> string) list \<Rightarrow> fs_op list \<Rightarrow> int \<Rightarrow> exec_result) \<Rightarrow> test_env" where
  "env_ref files eth =
     \<lparr>tl_flatten = \<lambda>xs. concat (map flatten_once xs),
      tl_flatMapDeep = \<lambda>lines f. bind_result (map_result f lines) (\<lambda>vs. Inr (concat (map flatten_deep vs))),
      tl_pMap = \<lambda>paths g c. map_result g paths,
      read_file = files, tmpdir = ''/tmp'', process_env = [(''LANG'', ''C'')],
      mkdtemp = \<lambda>start. Some (start @ ''q7Zk0a''), performs = \<lambda>ops op. True, testeth = eth\<rparr>"

lemma map_result_error: "map_result g xs = Inl e \<Longrightarrow> \<exists>x \<in> set xs. g x = Inl e"
proof (induction xs)
  case (Cons x xs)
  then show ?case by (cases "g x"; cases "map_result g xs") auto
qed simp

lemma test_executor_ref: "test_executor (env_ref files eth)"
proof (unfold_locales, goal_cases)
  case 6
  have "list_all plain_segment [''tmp''] \<and> tmpdir (env_ref files eth) = slashed [''tmp'']"
    by (simp add: plain_segment_def env_ref_def)
  then show ?case by blast
qed (auto simp: env_ref_def dest: map_result_error)

interpretation env_ref: test_executor "env_ref files eth" for files eth
  by (rule test_executor_ref)

end
