(* ===== verification/TestExecFacts.thy ===== *)
theory TestExecFacts
  imports TestExec
begin

text \<open>
  Facts about the test executor: what patching a filler changes, how the lines of a trace give
  its instructions, and that no step reports a failing test as an error.
\<close>

section \<open>Patching a filler\<close>

definition code_path :: "string \<Rightarrow> path" where
  "code_path addr = [''pre'', addr, ''code'']"

definition expected_code_path :: "string \<Rightarrow> path" where
  "expected_code_path addr = [''expect'', ''0'', ''result'', addr, ''code'']"

definition apart :: "path \<Rightarrow> path \<Rightarrow> bool" where
  "apart p q \<longleftrightarrow> \<not> prefix p q \<and> \<not> prefix q p"

lemma code_paths_apart [simp]:
  "apart (code_path a) (expected_code_path b)" "apart (expected_code_path a) (code_path b)"
  "apart (code_path a) (code_path b) \<longleftrightarrow> a \<noteq> b"
  "apart (expected_code_path a) (expected_code_path b) \<longleftrightarrow> a \<noteq> b"
  by (auto simp: apart_def code_path_def expected_code_path_def)

lemma arr_idx_code [simp]: "arr_idx ''code'' = None"
  by (simp add: arr_idx_def js_parseInt_def is_space_def parse_digits_def digit_val_def)

lemma walk_end [simp]: "(case x of None \<Rightarrow> None | Some w \<Rightarrow> walk w []) = x"
  by (cases x) simp_all

lemma walk_code_cwalk: "walk v (p @ [''code'']) = Some x \<Longrightarrow> cwalk v (p @ [''code'']) = Some x"
proof -
  assume "walk v (p @ [''code'']) = Some x"
  then obtain w where w: "walk v p = Some w" "js_prop w ''code'' = Some x"
    by (auto simp: walk_append split: option.splits)
  then have "is_container w" "child w ''code'' = Some x"
    by (cases w; simp)+
  with walk_cwalk [OF w(1)] show ?thesis by (simp add: cwalk_append)
qed

lemma put_code:
  assumes "walk v p \<noteq> None" and "p = q @ [''code'']"
  shows "walk (put v p w) p = Some w"
proof -
  have "cwalk v p \<noteq> None" using assms walk_code_cwalk [of v q] by auto
  then show ?thesis using walk_put_below [of v p w "[]"] by simp
qed

lemma put_code_paths:
  "walk v (code_path a) \<noteq> None \<Longrightarrow> walk (put v (code_path a) w) (code_path a) = Some w"
  "walk v (expected_code_path a) \<noteq> None \<Longrightarrow>
     walk (put v (expected_code_path a) w) (expected_code_path a) = Some w"
  by (rule put_code [where q = "[''pre'', a]"] put_code [where q = "[''expect'', ''0'', ''result'', a]"],
      assumption, simp add: code_path_def expected_code_path_def)+

lemma walk_put_apart: "apart p q \<Longrightarrow> walk (put v p w) q = walk v q"
  by (auto simp: apart_def intro: walk_put_other)

text \<open>A patch puts the new code at the two places, and leaves everything else alone.\<close>

lemma patch_contract_effect:
  assumes "patch_contract (addr0, bin) f = Inr f'" and addr: "addr = toLowerCase addr0"
  obtains v v' where "f = Some v" "f' = Some v'"
    "walk v' (code_path addr) = Some (JStr (transformedBin bin))"
    "walk v' (expected_code_path addr) =
       map_option (\<lambda>_. JStr (transformedBin bin)) (walk v (expected_code_path addr))"
    "\<And>p. apart (code_path addr) p \<Longrightarrow> apart (expected_code_path addr) p \<Longrightarrow> walk v' p = walk v p"
proof -
  let ?c = "JStr (transformedBin bin)"
  obtain pre account code where "js_field f ''pre'' = Inr pre" "js_field pre addr = Inr account"
    "js_field account ''code'' = Inr code" "code \<noteq> None"
    and rest: "bind_result (js_field (Some (put (the f) (code_path addr) ?c)) ''expect'') (\<lambda>expect.
       bind_result (js_field expect ''0'') (\<lambda>expect0.
       bind_result (js_field expect0 ''result'') (\<lambda>res.
       bind_result (js_field res addr) (\<lambda>expected.
       bind_result (js_field expected ''code'') (\<lambda>expectedCode.
         Inr (Some (if expectedCode \<noteq> None
           then put (put (the f) (code_path addr) ?c) (expected_code_path addr) ?c
           else put (the f) (code_path addr) ?c))))))) = Inr f'"
    using assms(1) unfolding patch_contract_def code_path_def expected_code_path_def addr Let_def prod.case
    by (auto simp del: put.simps)
  then obtain v where v: "f = Some v" "walk v (code_path addr) = code"
    by (auto dest!: js_field_Some simp: code_path_def)
  define v1 where "v1 = put v (code_path addr) ?c"
  have v1: "walk v1 (code_path addr) = Some ?c"
    unfolding v1_def using v \<open>code \<noteq> None\<close> by (intro put_code_paths) simp
  have e1: "walk v1 (expected_code_path addr) = walk v (expected_code_path addr)"
    unfolding v1_def by (rule walk_put_apart) simp
  from rest have f': "f' = Some (if walk v1 (expected_code_path addr) \<noteq> None
      then put v1 (expected_code_path addr) ?c else v1)"
    unfolding v(1) option.sel v1_def [symmetric]
    by (auto dest!: js_field_Some simp: expected_code_path_def simp del: put.simps)
  show thesis
  proof (rule that [OF v(1) f'])
    show "walk (if walk v1 (expected_code_path addr) \<noteq> None then put v1 (expected_code_path addr) ?c else v1)
        (code_path addr) = Some ?c"
      using v1 by (simp add: walk_put_apart)
    show "walk (if walk v1 (expected_code_path addr) \<noteq> None then put v1 (expected_code_path addr) ?c else v1)
        (expected_code_path addr) = map_option (\<lambda>_. ?c) (walk v (expected_code_path addr))"
      using e1 put_code_paths(2) [of v1 addr ?c] by (auto simp: option.map_disc_iff)
    show "walk (if walk v1 (expected_code_path addr) \<noteq> None then put v1 (expected_code_path addr) ?c else v1) p
        = walk v p" if "apart (code_path addr) p" "apart (expected_code_path addr) p" for p
      using that by (simp add: walk_put_apart v1_def)
  qed
qed

lemma patch_contracts_elsewhere:
  "patch_contracts bins (Some v) = Inr (Some v') \<Longrightarrow>
   list_all (\<lambda>(a, b). apart (code_path (toLowerCase a)) p \<and> apart (expected_code_path (toLowerCase a)) p) bins \<Longrightarrow>
   walk v' p = walk v p"
proof (induction bins arbitrary: v)
  case (Cons contract bins)
  obtain a b where c: "contract = (a, b)" by (cases contract)
  obtain f where f: "patch_contract (a, b) (Some v) = Inr f" "patch_contracts bins f = Inr (Some v')"
    using Cons.prems(1) c by auto
  obtain v1 where "f = Some v1"
    and "\<And>p. apart (code_path (toLowerCase a)) p \<Longrightarrow> apart (expected_code_path (toLowerCase a)) p \<Longrightarrow>
      walk v1 p = walk v p"
    by (rule patch_contract_effect [OF f(1) refl]) auto
  with Cons c f(2) show ?case by simp
qed simp

lemma patch_contracts_code:
  "patch_contracts bins (Some v) = Inr (Some v') \<Longrightarrow> distinct (map (toLowerCase \<circ> fst) bins) \<Longrightarrow>
   (a, b) \<in> set bins \<Longrightarrow> walk v' (code_path (toLowerCase a)) = Some (JStr (transformedBin b)) \<and>
     walk v' (expected_code_path (toLowerCase a)) \<in> {None, Some (JStr (transformedBin b))}"
proof (induction bins arbitrary: v)
  case (Cons contract bins)
  obtain a' b' where c: "contract = (a', b')" by (cases contract)
  obtain f where f: "patch_contract (a', b') (Some v) = Inr f" "patch_contracts bins f = Inr (Some v')"
    using Cons.prems(1) c by auto
  let ?a = "toLowerCase a'"
  obtain v1 where v1: "f = Some v1" "walk v1 (code_path ?a) = Some (JStr (transformedBin b'))"
    "walk v1 (expected_code_path ?a) \<in> {None, Some (JStr (transformedBin b'))}"
    by (rule patch_contract_effect [OF f(1) refl], cases "walk v (expected_code_path ?a)") auto
  show ?case
  proof (cases "(a, b) \<in> set bins")
    case True
    with Cons f(2) v1(1) show ?thesis by simp
  next
    case False
    then have [simp]: "a = a'" "b = b'" using Cons.prems(3) c by auto
    have "toLowerCase x \<noteq> ?a" if "(x, y) \<in> set bins" for x y
      using Cons.prems(2) c that by force
    then have "walk v' p = walk v1 p" if "p = code_path ?a \<or> p = expected_code_path ?a" for p
      using f(2) v1(1) that
      by (intro patch_contracts_elsewhere [where bins = bins]) (auto simp: list_all_iff)
    with v1 show ?thesis by simp
  qed
qed simp

section \<open>Reading traces\<close>

text \<open>An object whose text closes a brace only at its end.\<close>

definition plain_object :: "jsval \<Rightarrow> bool" where
  "plain_object v \<longleftrightarrow> (case v of JObj kvs \<Rightarrow> is_json v \<and> wf_val v \<and> CHR ''}'' \<notin> set (butlast (JSON_stringify v))
     | _ \<Rightarrow> False)"

lemma plain_objectE:
  assumes "plain_object v"
  obtains kvs s where "v = JObj kvs" "JSON_stringify v = CHR ''{'' # s @ ''}''" "CHR ''}'' \<notin> set s"
    "JSON_parse (JSON_stringify v) = Inr v" "is_json v" "wf_val v"
  using assms JSON_parse_stringify [of v] by (auto simp: plain_object_def split: jsval.splits)

lemma split_plain_objects:
  "list_all plain_object os \<Longrightarrow>
   split_objects (concat (map JSON_stringify os)) = Inr (JArr (os @ [JArr []]))"
proof -
  have "map_result (\<lambda>x. if 0 < length x then JSON_parse (x @ ''}'') else Inr (JArr []))
      (js_split (CHR ''}'') (concat (map JSON_stringify os))) = Inr (os @ [JArr []])"
    if "list_all plain_object os"
    using that
  proof (induction os)
    case (Cons v os)
    obtain kvs s where "JSON_stringify v = CHR ''{'' # s @ ''}''" "CHR ''}'' \<notin> set s"
      "JSON_parse (JSON_stringify v) = Inr v"
      using Cons.prems by (auto simp del: JSON_stringify.simps elim!: plain_objectE)
    with Cons show ?case by (simp add: js_split_sep js_split_none)
  qed simp
  then show "list_all plain_object os \<Longrightarrow> ?thesis" by (simp add: split_objects_def)
qed

lemma JSON_parse_two:
  assumes "plain_object v" and "plain_object w"
  shows "JSON_parse (JSON_stringify v @ JSON_stringify w @ r) = Inl SyntaxError"
proof -
  obtain s where w: "JSON_stringify w = CHR ''{'' # s" using plain_objectE [OF assms(2)] by metis
  have "is_json v" "wf_val v" using assms(1) by (auto elim: plain_objectE)
  moreover have "number_ends (CHR ''{'' # t)" for t
    by (simp add: number_ends_def is_digit_def digit_val_def)
  ultimately have "parse_value n (JSON_stringify v @ CHR ''{'' # s @ r) = Some (v, CHR ''{'' # s @ r)"
    if "2 * length (JSON_stringify v) \<le> n" for n
    using that by (intro parse_stringify)
  then show ?thesis by (simp add: JSON_parse_def w del: parse_value.simps)
qed

lemma trace_line_objects:
  assumes "list_all plain_object os"
  obtains v where "trace_line (concat (map JSON_stringify os)) = Inr v" "flatten_deep v = os"
proof -
  have f: "concat (map flatten_deep xs) = xs" if "list_all plain_object xs" for xs
    using that by (induction xs) (auto elim: plain_objectE)
  have split: "flatten_deep (JArr (os @ [JArr []])) = os" using f [OF assms] by simp
  show thesis
  proof (cases os rule: remdups_adj.cases)
    case 1
    have "JSON_parse [] = Inl SyntaxError" by (simp add: JSON_parse_def)
    with that split_plain_objects [OF assms] split 1 show thesis by (simp add: trace_line_def)
  next
    case (2 v)
    obtain kvs where "v = JObj kvs" "JSON_parse (JSON_stringify v) = Inr v"
      using assms 2 by (auto simp del: JSON_stringify.simps elim!: plain_objectE)
    with 2 that [of v] show thesis by (simp add: trace_line_def del: JSON_stringify.simps)
  next
    case (3 v w vs)
    then have "JSON_parse (concat (map JSON_stringify os)) = Inl SyntaxError"
      using assms by (simp add: JSON_parse_two)
    with that split_plain_objects [OF assms] split show thesis by (simp add: trace_line_def)
  qed
qed

lemma trace_lines_objects:
  assumes "list_all (list_all plain_object) ls"
  obtains vs where "map_result trace_line (map (\<lambda>os. concat (map JSON_stringify os)) ls) = Inr vs"
    "concat (map flatten_deep vs) = concat ls"
  using assms
proof (induction ls arbitrary: thesis)
  case (Cons os ls)
  obtain v where "trace_line (concat (map JSON_stringify os)) = Inr v" "flatten_deep v = os"
    using trace_line_objects [of os] Cons.prems(2) by auto
  moreover obtain vs where "map_result trace_line (map (\<lambda>os. concat (map JSON_stringify os)) ls) = Inr vs"
    "concat (map flatten_deep vs) = concat ls"
    using Cons.IH Cons.prems(2) by auto
  ultimately show ?case using Cons.prems(1) [of "v # vs"] by simp
qed simp

text \<open>No text has a line break in it, so the lines of the trace are its texts.\<close>

lemma join_comma_chars: "set (join_comma ss) \<subseteq> insert (CHR '','') (\<Union> (set ` set ss))"
  by (induction ss rule: join_comma.induct) auto

lemma hex_digit_printable: "d < 16 \<Longrightarrow> hex_digit d \<noteq> CHR 0x0A"
  using digit_val_hex_digit [of d] by (auto simp: digit_val_def)

lemma escape_char_no_newline: "CHR 0x0A \<notin> set (escape_char c)"
proof (cases "map_of (map prod.swap json_escapes) c")
  case (Some e)
  then have "(e, c) \<in> set json_escapes" by (auto dest: map_of_SomeD)
  then have "e \<noteq> CHR 0x0A" by (auto simp: json_escapes_def)
  with Some show ?thesis by (simp add: escape_char_def)
next
  case None
  then have "c \<noteq> CHR 0x0A" by (auto simp: json_escapes_def)
  moreover have "CHR 0x0A \<noteq> hex_digit (of_char c div 16)" "CHR 0x0A \<noteq> hex_digit (of_char c mod 16)"
    using nat_of_char_less_256 [of c]
    by (auto intro: less_mult_imp_div_less intro!: hex_digit_printable [THEN not_sym])
  ultimately show ?thesis using None by (simp add: escape_char_def)
qed

lemma show_int_no_newline: "CHR 0x0A \<notin> set (show_int z)"
  by (auto simp: show_int_def digit_char_neqI [THEN not_sym] dest!: show_nat_digits)

lemma join_comma_no_newline: "\<forall>s \<in> set ss. CHR 0x0A \<notin> set s \<Longrightarrow> CHR 0x0A \<notin> set (join_comma ss)"
  using join_comma_chars [of ss] by auto

lemma json_quote_no_newline: "CHR 0x0A \<notin> set (json_quote s)"
  using escape_char_no_newline by (auto simp: json_quote_def)

lemma stringify_no_newline: "CHR 0x0A \<notin> set (JSON_stringify v)"
proof (induction v rule: JSON_stringify.induct)
  case (6 xs)
  then show ?case using join_comma_no_newline [of "map JSON_stringify xs"] by auto
next
  case (7 kvs)
  let ?ms = "map (\<lambda>(k, v). json_quote k @ CHR '':'' # JSON_stringify v) (filter (\<lambda>(k, v). \<not> is_function_value v) kvs)"
  have "CHR 0x0A \<notin> set s" if "s \<in> set ?ms" for s
    using that 7 json_quote_no_newline by fastforce
  with join_comma_no_newline [of ?ms] show ?case by simp
qed (simp_all add: show_int_no_newline json_quote_no_newline)

lemma split_lines:
  "CHR 0x0A \<notin> set header \<Longrightarrow> list_all (\<lambda>l. CHR 0x0A \<notin> set l) ls \<Longrightarrow>
   js_split (CHR 0x0A) (header @ concat (map (\<lambda>l. CHR 0x0A # l) ls)) = header # ls"
  by (induction ls arbitrary: header) (simp_all add: js_split_none js_split_sep)

text \<open>The instructions of the first called function, and their counters.\<close>

definition top_level :: "jsval \<Rightarrow> bool" where
  "top_level instr \<longleftrightarrow> js_prop instr ''depth'' = Some (JStr ''0'')"

definition pc_of :: "jsval \<Rightarrow> jsnum" where
  "pc_of instr = parseInt_of (js_prop instr ''pc'')"

definition pc_number :: "jsval \<Rightarrow> int" where
  "pc_number instr = (case pc_of instr of Fin z \<Rightarrow> z | _ \<Rightarrow> 0)"

lemma trace_PCs_eq:
  "list_all plain_object os \<Longrightarrow> list_all (\<lambda>v. top_level v \<longrightarrow> is_integer (pc_of v)) os \<Longrightarrow>
   trace_PCs os = Inr (map pc_number (filter top_level os))"
proof (induction os)
  case (Cons v os)
  obtain kvs where "v = JObj kvs" using Cons.prems(1) by (auto simp: plain_object_def split: jsval.splits)
  with Cons show ?case by (auto simp: top_level_def pc_of_def pc_number_def Let_def)
qed simp

context test_executor
begin

lemma traces_of_output:
  assumes "list_all (list_all plain_object) ls" and "CHR 0x0A \<notin> set header"
    and "output = header @ concat (map (\<lambda>os. CHR 0x0A # concat (map JSON_stringify os)) ls)"
  shows "tl_flatMapDeep E (drop 1 (js_split (CHR 0x0A) output)) trace_line = Inr (concat ls)"
proof -
  obtain vs where vs: "map_result trace_line (map (\<lambda>os. concat (map JSON_stringify os)) ls) = Inr vs"
    "concat (map flatten_deep vs) = concat ls"
    using trace_lines_objects [OF assms(1)] .
  have "js_split (CHR 0x0A) output = header # map (\<lambda>os. concat (map JSON_stringify os)) ls"
    using split_lines [OF assms(2), of "map (\<lambda>os. concat (map JSON_stringify os)) ls"]
      stringify_no_newline assms(3) by (simp add: list_all_iff comp_def)
  with vs show ?thesis by (simp add: flatMapDeep)
qed

end

section \<open>Failing tests\<close>

text \<open>The results of a file are an array, which is never false; no other step throws the error of
  a failing test either.\<close>

definition no_failing_error :: "'a result \<Rightarrow> bool" where
  "no_failing_error r \<longleftrightarrow> r \<noteq> Inl FailingTestError"

lemma no_failing_error_simps [simp]:
  "no_failing_error (Inr x)" "no_failing_error (Inl e) \<longleftrightarrow> e \<noteq> FailingTestError"
  by (simp_all add: no_failing_error_def)

lemma bind_no_failing_error:
  "no_failing_error r \<Longrightarrow> (\<And>x. no_failing_error (f x)) \<Longrightarrow> no_failing_error (bind_result r f)"
  by (cases r) auto

lemma map_result_no_failing_error:
  "(\<And>x. no_failing_error (f x)) \<Longrightarrow> no_failing_error (map_result f xs)"
  using map_result_error [of f xs] unfolding no_failing_error_def by blast

lemma every_no_failing_error:
  "(\<And>x. no_failing_error (f x)) \<Longrightarrow> no_failing_error (every_result f xs)"
  by (induction xs) (auto intro!: bind_no_failing_error)

lemma some_no_failing_error:
  "(\<And>x. no_failing_error (f x)) \<Longrightarrow> no_failing_error (some_result f xs)"
  by (induction xs) (auto intro!: bind_no_failing_error)

lemma js_no_failing_error [simp]:
  "no_failing_error (js_field v k)" "no_failing_error (js_assert b)" "no_failing_error (JSON_parse s)"
  "no_failing_error (js_elems w)"
     apply (cases "(v, k)" rule: js_field.cases; simp)
    apply (simp add: js_assert_def)
   apply (simp add: JSON_parse_def del: parse_value.simps split: option.split)
  apply (cases w; simp)
  done

lemma patch_no_failing_error [simp]: "no_failing_error (patch_contracts bins f)"
proof (induction bins arbitrary: f)
  case (Cons contract bins)
  have "no_failing_error (patch_contract contract f)"
    by (auto simp: patch_contract_def Let_def intro!: bind_no_failing_error split: prod.split)
  with Cons show ?case by (auto intro: bind_no_failing_error)
qed simp

text \<open>A test that returns ran in a directory of its own.\<close>

lemma single_run:
  assumes "ExecTestCases_StateTest_Single E filler name cmd bins retPC timeout = Inr r"
  shows "\<exists>f dir files. (case bins of Some bs \<Rightarrow> patch_contracts bs filler | None \<Rightarrow> Inr filler) = Inr f \<and>
    prepare_test E name (JSON_stringify (rstTestFilterObj name f)) = Inr (dir, files) \<and>
    sr_Result r = (\<exists>out. testeth E (execTestethCMD cmd retPC) (execEnv (process_env E) dir) files
      (case timeout of None \<Rightarrow> 0 | Some t \<Rightarrow> t) = Exited out)"
proof -
  obtain f dir files where f: "(case bins of Some bs \<Rightarrow> patch_contracts bs filler | None \<Rightarrow> Inr filler) = Inr f"
    and p: "prepare_test E name (JSON_stringify (rstTestFilterObj name f)) = Inr (dir, files)"
    using assms by (auto simp: ExecTestCases_StateTest_Single_def simp del: JSON_stringify.simps)
  let ?run = "testeth E (execTestethCMD cmd retPC) (execEnv (process_env E) dir) files
    (case timeout of None \<Rightarrow> 0 | Some t \<Rightarrow> t)"
  have "sr_Result r = (\<exists>out. ?run = Exited out)"
    using assms f p
    by (cases ?run) (auto simp: ExecTestCases_StateTest_Single_def simp del: JSON_stringify.simps
        split: option.splits if_splits)
  with f p show ?thesis by blast
qed

lemma prepare_no_failing_error: "no_failing_error (prepare_test E name txt)"
proof -
  have "no_failing_error (perform_all f performed ops)" for f performed ops
    by (induction ops arbitrary: performed) (auto simp: no_failing_error_def)
  then show ?thesis
    by (auto simp: prepare_test_def no_failing_error_def [of "Inl GenericError"] intro!: bind_no_failing_error split: option.split)
qed

lemma run_tests_no_failing_error: "no_failing_error (run_tests E cmd bins tests)"
  unfolding run_tests_def ExecTestCases_StateTest_Single_def
  by (auto intro!: map_result_no_failing_error bind_no_failing_error prepare_no_failing_error
      split: option.split exec_result.split)

lemma process_no_failing_error:
  "no_failing_error (process_one_test_case_file E path cmd addr bin onlyLocations throwOnFailing)"
proof -
  have "no_failing_error (locations_intersect a b)" for a b
    by (auto simp: locations_intersect_def read_range_def read_position_def intro!: bind_no_failing_error)
  then have "no_failing_error (not_relevant c only)" for c only
    by (auto simp: not_relevant_def intro!: bind_no_failing_error every_no_failing_error some_no_failing_error)
  moreover have "no_failing_error (coveredLocations v)" for v
    by (auto simp: coveredLocations_def intro!: bind_no_failing_error)
  moreover have "no_failing_error (exec2_ExecTestCases_StateTest E v cmd bins)" for v bins
    by (auto simp: exec2_ExecTestCases_StateTest_def intro!: bind_no_failing_error run_tests_no_failing_error)
  ultimately show ?thesis
    by (auto simp: process_one_test_case_file_def Let_def intro!: bind_no_failing_error split: option.split)
qed

lemma process_ignores_fast_fail:
  "process_one_test_case_file E path cmd addr bin only throw =
   process_one_test_case_file E path cmd addr bin only False"
  unfolding process_one_test_case_file_def Let_def truthy.simps simp_thms by (rule TrueI)

section \<open>Patched fillers are JSON\<close>

lemma is_json_put: "is_json v \<Longrightarrow> is_json w \<Longrightarrow> is_json (put v p w)"
proof (rule put_keeps [of is_json])
  show "is_json c" if "is_json v" "child v k = Some c" for v k c
    using that by (cases v) (auto simp: list_all_iff split: option.splits if_splits dest!: map_of_SomeD)
  show "is_json (set_child v k c)" if "is_json v" "is_json c" for v k c
    using that by (cases v) (auto simp: list_all_set_child list_all_update split: option.splits)
qed

lemma patch_contracts_json:
  "patch_contracts bins (Some v) = Inr f \<Longrightarrow> is_json v \<Longrightarrow> wf_val v \<Longrightarrow>
   \<exists>v'. f = Some v' \<and> is_json v' \<and> wf_val v'"
proof (induction bins arbitrary: v)
  case (Cons contract bins)
  obtain g where g: "patch_contract contract (Some v) = Inr g" "patch_contracts bins g = Inr f"
    using Cons.prems(1) by auto
  then obtain v1 where "g = Some v1" "is_json v1 \<and> wf_val v1"
    using Cons.prems(2,3) unfolding patch_contract_def Let_def
    by (auto simp: is_json_put wf_val_put simp del: put.simps split: prod.splits)
  with Cons.IH g(2) show ?case by simp
qed auto

section \<open>The filter on locations\<close>

lemma some_intersects:
  assumes "read_range x = Inr a" and "map_result read_range ys = Inr asked"
  shows "some_result (locations_intersect x) ys = Inr (list_ex (locationIntersect a) asked)"
  using assms(2)
proof (induction ys arbitrary: asked)
  case (Cons y ys)
  then obtain b bs where b: "read_range y = Inr b" "map_result read_range ys = Inr bs" "asked = b # bs"
    by auto
  have "locations_intersect x y = Inr (locationIntersect a b)"
    using assms(1) b(1) by (simp add: locations_intersect_def tc_locationIntersect_eq)
  with Cons.IH [OF b(2)] b(3) show ?case by simp
qed simp

lemma not_relevant_decides:
  assumes "map_result read_range xs = Inr covered" and "map_result read_range ys = Inr asked"
  shows "not_relevant (JArr xs) (JArr ys) =
    Inr (\<not> (\<exists>a b. a \<in> set covered \<and> b \<in> set asked \<and> locationIntersect a b))"
proof -
  have "every_result (\<lambda>x. bind_result (js_elems (JArr ys)) (\<lambda>ys. bind_result (some_result (locations_intersect x) ys)
      (\<lambda>b. Inr (\<not> b)))) xs = Inr (list_all (\<lambda>a. \<not> list_ex (locationIntersect a) asked) covered)"
    using assms(1)
  proof (induction xs arbitrary: covered)
    case (Cons x xs)
    then obtain a as where a: "read_range x = Inr a" "map_result read_range xs = Inr as" "covered = a # as"
      by auto
    from some_intersects [OF a(1) assms(2)] Cons.IH [OF a(2)] a(3) show ?case by simp
  qed simp
  then show ?thesis by (auto simp: not_relevant_def list_all_iff list_ex_iff)
qed

lemma process_skips_iff:
  assumes "read_file E path = Some content" and "JSON_parse content = Inr test"
    and "coveredLocations test = Inr (Some covered)" and "not_relevant covered only = Inr skip"
  shows "process_one_test_case_file E path cmd addr bin (Some only) throw = Inr NotRelevant \<longleftrightarrow> skip"
  using assms by (cases skip) (simp_all add: process_one_test_case_file_def NotRelevant_def Let_def)

section \<open>The results of files\<close>

text \<open>A test file with exactly one test, as the callers of the executor use them: they read the
  results by position.\<close>

definition one_test :: "test_env \<Rightarrow> string \<Rightarrow> bool" where
  "one_test E path \<longleftrightarrow> (\<exists>content test name entry. read_file E path = Some content \<and>
     JSON_parse content = Inr test \<and> js_prop test ''Tests'' = Some (JObj [(name, entry)]))"

lemma one_test_result:
  assumes "process_one_test_case_file E path cmd addr bin only throw = Inr v" and "one_test E path"
  obtains r where "single_entry v r"
proof -
  obtain content test name entry where t: "read_file E path = Some content" "JSON_parse content = Inr test"
    "js_prop test ''Tests'' = Some (JObj [(name, entry)])"
    using assms(2) by (auto simp: one_test_def)
  then have "js_field (Some test) ''Tests'' = Inr (Some (JObj [(name, entry)]))"
    by (cases test) auto
  then have "\<exists>b. rs = [b]" if "exec2_ExecTestCases_StateTest E test cmd bins = Inr rs" for bins rs
    using that by (auto simp: exec2_ExecTestCases_StateTest_def run_tests_def)
  with assms(1) t(1,2) have "v = NotRelevant \<or> (\<exists>b. v = JArr [JBool b])"
    by (fastforce simp: process_one_test_case_file_def Let_def split: if_splits)
  then show thesis using that by (auto simp: single_entry_def)
qed

lemma files_results:
  assumes "map_result (\<lambda>path. process_one_test_case_file E path cmd addr bin only throw) paths = Inr rs"
    and "list_all (one_test E) paths"
  shows "\<exists>xs. list_all2 single_entry rs xs \<and> list_all2 (\<lambda>path result.
      if result = NotRelevant then process_one_test_case_file E path cmd addr bin only throw = Inr NotRelevant
      else \<exists>b. result = JBool b \<and> process_one_test_case_file E path cmd addr bin only throw = Inr (JArr [result])) paths xs"
  using assms
proof (induction paths arbitrary: rs)
  case (Cons path paths)
  then obtain v vs where v: "process_one_test_case_file E path cmd addr bin only throw = Inr v" "rs = v # vs"
    and "map_result (\<lambda>path. process_one_test_case_file E path cmd addr bin only throw) paths = Inr vs"
    by auto
  with Cons obtain xs where xs: "list_all2 single_entry vs xs" "list_all2 (\<lambda>path result.
      if result = NotRelevant then process_one_test_case_file E path cmd addr bin only throw = Inr NotRelevant
      else \<exists>b. result = JBool b \<and> process_one_test_case_file E path cmd addr bin only throw = Inr (JArr [result])) paths xs"
    by auto
  obtain r where r: "single_entry v r" using one_test_result [OF v(1)] Cons.prems(2) by auto
  then have "if r = NotRelevant then process_one_test_case_file E path cmd addr bin only throw = Inr NotRelevant
      else \<exists>b. r = JBool b \<and> process_one_test_case_file E path cmd addr bin only throw = Inr (JArr [r])"
    using v(1) by (auto simp: single_entry_def NotRelevant_def)
  with r xs v(2) show ?case by (intro exI [of _ "r # xs"]) simp
qed simp

lemma single_entries_json: "list_all2 single_entry rs xs \<Longrightarrow> is_json (JArr xs) \<and> wf_val (JArr xs)"
  by (induction rule: list_all2_induct) (auto simp: single_entry_def NotRelevant_def)

context test_executor
begin

lemma exec_runs:
  assumes "valid_concurrency limit" and "parse_onlyLocations only = Inr onlyLocations"
    and "exec_ExecTestCases_StateTest E paths addr bin fastFail limit only cmd = Inr printed"
  obtains rs where
    "tl_pMap E paths (\<lambda>path. process_one_test_case_file E path cmd addr bin onlyLocations fastFail) limit = Inr rs"
    "printed = JSON_stringify (JArr (tl_flatten E rs))"
proof (cases "tl_pMap E paths (\<lambda>path. process_one_test_case_file E path cmd addr bin onlyLocations fastFail) limit")
  case (Inl e)
  then have "e \<noteq> FailingTestError"
    using pMap_error [OF assms(1)] process_no_failing_error by (fastforce simp: no_failing_error_def)
  with Inl assms(2,3) show thesis by (simp add: exec_ExecTestCases_StateTest_def)
next
  case (Inr rs)
  with assms(2,3) that show thesis by (simp add: exec_ExecTestCases_StateTest_def del: JSON_stringify.simps)
qed

end

end
