(* ===== verification/ExecProperties.thy ===== *)
theory ExecProperties
  imports TestExecFacts InterestProperties
begin

text \<open>
  The properties of the test executor: which code a test runs, how traces are read, which files
  are skipped, and what is printed.
\<close>

section \<open>One test\<close>

text \<open>What a test with the contracts \<open>bins\<close> must run: the filler with their new code at the
  lower-cased addresses, before the test and where the test expects some code.\<close>

definition has_code :: "(string \<times> string) list \<Rightarrow> jsval \<Rightarrow> bool" where
  "has_code bins f \<longleftrightarrow> list_all (\<lambda>(a, b).
     walk f (code_path (toLowerCase a)) = Some (JStr (transformedBin b)) \<and>
     walk f (expected_code_path (toLowerCase a)) \<in> {None, Some (JStr (transformedBin b))}) bins"

definition off_code :: "(string \<times> string) list \<Rightarrow> path \<Rightarrow> bool" where
  "off_code bins p \<longleftrightarrow> list_all (\<lambda>(a, b).
     apart (code_path (toLowerCase a)) p \<and> apart (expected_code_path (toLowerCase a)) p) bins"

text \<open>Property C36. The test runner gets the filler with the new code of the contracts: the text
  written for it parses to an object with the one test, whose filler has the code, prefixed by
  0x, at the lower-cased address before the test, has it or nothing as expected code, and is
  the given filler everywhere else. The runner's verdict is the result.\<close>

theorem runner_gets_patched_filler:
  assumes "ExecTestCases_StateTest_Single E (Some filler) name cmd (Some bins) retPC timeout = Inr r"
    and "is_json filler" and "wf_val filler" and "distinct (map (toLowerCase \<circ> fst) bins)"
  shows "\<exists>txt f dir files. JSON_parse txt = Inr (JObj [(name, f)]) \<and> has_code bins f \<and>
    (\<forall>p. walk f p = walk filler p \<or> \<not> off_code bins p) \<and> prepare_test E name txt = Inr (dir, files) \<and>
    sr_Result r = (\<exists>out. testeth E (execTestethCMD cmd retPC) (execEnv (process_env E) dir) files
       (case timeout of None \<Rightarrow> 0 | Some t \<Rightarrow> t) = Exited out)"
proof -
  obtain f0 where "patch_contracts bins (Some filler) = Inr f0"
    using assms(1) by (auto simp: ExecTestCases_StateTest_Single_def)
  moreover from this obtain f where f: "f0 = Some f" "is_json f" "wf_val f"
    using patch_contracts_json assms(2,3) by blast
  ultimately have p: "patch_contracts bins (Some filler) = Inr (Some f)" by simp
  let ?txt = "JSON_stringify (JObj [(name, f)])"
  have "JSON_parse ?txt = Inr (JObj [(name, f)])"
    using f by (intro JSON_parse_stringify) simp_all
  moreover have "has_code bins f"
    using patch_contracts_code [OF p assms(4)] by (auto simp: has_code_def list_all_iff)
  moreover have "walk f q = walk filler q" if "off_code bins q" for q
    using that patch_contracts_elsewhere [OF p] by (simp add: off_code_def)
  moreover have "\<exists>dir files. prepare_test E name ?txt = Inr (dir, files) \<and>
      sr_Result r = (\<exists>out. testeth E (execTestethCMD cmd retPC) (execEnv (process_env E) dir) files
       (case timeout of None \<Rightarrow> 0 | Some t \<Rightarrow> t) = Exited out)"
    using single_run [OF assms(1)] p by (auto simp: rstTestFilterObj_def simp del: JSON_stringify.simps)
  ultimately show ?thesis by blast
qed

definition sample_filler :: jsval where
  "sample_filler = JObj [(''pre'', JObj [(''0xab'', JObj [(''code'', JStr ''0x00'')])]),
     (''expect'', JArr [JObj [(''result'', JObj [(''0xab'', JObj [(''code'', JStr ''0x00'')])])]])]"

definition sample_env :: test_env where
  "sample_env = env_ref (\<lambda>p. None) (\<lambda>cmd environment files t. Exited [])"

text \<open>The reference instance prepares every test, and a run there comes down to patching the filler.\<close>

lemma ref_prepares:
  "prepare_test (env_ref files eth) name txt = Inr (''/tmp/q7Zk0a'', test_files ''/tmp/q7Zk0a'' name txt)"
  by (simp add: prepare_test_def test_files_def env_ref_def)

lemma ref_runs:
  assumes "patch_contracts bins (Some f) = Inr g" and "\<And>c v ops t. eth c v ops t = outcome"
  shows "outcome = Exited out \<Longrightarrow> ExecTestCases_StateTest_Single (env_ref files eth) (Some f) name cmd (Some bins) False None =
      Inr \<lparr>sr_Result = True, sr_PCs = None\<rparr>"
    and "outcome = Failed (Some 200) \<Longrightarrow> ExecTestCases_StateTest_Single (env_ref files eth) (Some f) name cmd (Some bins) False None =
      Inr \<lparr>sr_Result = False, sr_PCs = None\<rparr>"
proof -
  have "testeth (env_ref files eth) = eth" by (simp add: env_ref_def)
  with assms show "outcome = Exited out \<Longrightarrow> ExecTestCases_StateTest_Single (env_ref files eth) (Some f) name cmd (Some bins) False None =
      Inr \<lparr>sr_Result = True, sr_PCs = None\<rparr>"
    "outcome = Failed (Some 200) \<Longrightarrow> ExecTestCases_StateTest_Single (env_ref files eth) (Some f) name cmd (Some bins) False None =
      Inr \<lparr>sr_Result = False, sr_PCs = None\<rparr>"
    by (simp_all add: ExecTestCases_StateTest_Single_def ref_prepares)
qed

definition sample_patched :: "jsval option" where
  "sample_patched = (case patch_contracts [(''0xAB'', ''60'')] (Some sample_filler) of Inr f \<Rightarrow> f | Inl e \<Rightarrow> None)"

lemma sample_patches: "patch_contracts [(''0xAB'', ''60'')] (Some sample_filler) = Inr sample_patched"
  by code_simp

lemma sample_env_runs:
  "ExecTestCases_StateTest_Single sample_env (Some sample_filler) ''t'' ''testeth''
     (Some [(''0xAB'', ''60'')]) False None = Inr \<lparr>sr_Result = True, sr_PCs = None\<rparr>"
  unfolding sample_env_def by (rule ref_runs(1) [OF sample_patches refl refl])

theorem runner_gets_patched_filler_witness:
  "\<exists>txt f dir files. JSON_parse txt = Inr (JObj [(''t'', f)]) \<and> has_code [(''0xAB'', ''60'')] f \<and>
    (\<forall>p. walk f p = walk sample_filler p \<or> \<not> off_code [(''0xAB'', ''60'')] p) \<and>
    prepare_test sample_env ''t'' txt = Inr (dir, files) \<and> sr_Result \<lparr>sr_Result = True, sr_PCs = None\<rparr> =
      (\<exists>out. testeth sample_env (execTestethCMD ''testeth'' False) (execEnv (process_env sample_env) dir) files
       (case None of None \<Rightarrow> 0 | Some t \<Rightarrow> t) = Exited out)"
  by (rule runner_gets_patched_filler [OF sample_env_runs]) (simp_all add: sample_filler_def)

text \<open>Property C37. The filler of a test lies where the test runner looks for it: the runner is told, by
  \<open>ETHEREUM_TEST_PATH\<close>, of a directory, in which the directory of the fillers was made before the
  filler was written into it, as long as the name of the test is that of a file.\<close>

theorem filler_under_test_path:
  assumes "test_executor E" and "CHR ''/'' \<notin> set name"
    and "ExecTestCases_StateTest_Single E filler name cmd bins retPC timeout = Inr r"
  shows "\<exists>segs files earlier txt. list_all plain_segment segs \<and>
    files = earlier @ [WriteFile (slashed (segs @ [''src'', ''GeneralStateTestsFiller'', ''stExample'', name @ ''Filler.json''])) txt] \<and>
    Mkdirp (slashed (segs @ [''src'', ''GeneralStateTestsFiller'', ''stExample''])) None \<in> set earlier \<and>
    (\<exists>environment. map_of environment ''ETHEREUM_TEST_PATH'' = Some (slashed segs) \<and>
      sr_Result r = (\<exists>out. testeth E (execTestethCMD cmd retPC) environment files
        (case timeout of None \<Rightarrow> 0 | Some t \<Rightarrow> t) = Exited out))"
proof -
  obtain "txt" dir files where p: "prepare_test E name txt = Inr (dir, files)"
    and r: "sr_Result r = (\<exists>out. testeth E (execTestethCMD cmd retPC) (execEnv (process_env E) dir) files
        (case timeout of None \<Rightarrow> 0 | Some t \<Rightarrow> t) = Exited out)"
    using single_run [OF assms(3)] by blast
  obtain segs where segs: "dir = slashed segs" "list_all plain_segment segs" "segs \<noteq> []" "files = test_files dir name txt"
    by (rule test_executor.prepared [OF assms(1) p])
  let ?dirs = "segs @ [''src'', ''GeneralStateTestsFiller'', ''stExample'']"
  have "files = butlast files @ [WriteFile (slashed (?dirs @ [name @ ''Filler.json''])) txt]"
    "Mkdirp (slashed ?dirs) None \<in> set (butlast files)"
    using segs filler_path [OF segs(2,3) assms(2)] test_dirs(1) [OF segs(2,3)]
    by (simp_all add: test_files_def del: slashed_simps)
  moreover have "map_of (execEnv (process_env E) dir) ''ETHEREUM_TEST_PATH'' = Some (slashed segs)"
    by (simp add: execEnv_def update_conv' segs(1))
  ultimately show ?thesis using segs(2) r by (metis append.assoc append_Cons append_Nil)
qed

theorem filler_under_test_path_witness:
  "\<exists>segs files earlier txt. list_all plain_segment segs \<and>
    files = earlier @ [WriteFile (slashed (segs @ [''src'', ''GeneralStateTestsFiller'', ''stExample'', ''t'' @ ''Filler.json''])) txt] \<and>
    Mkdirp (slashed (segs @ [''src'', ''GeneralStateTestsFiller'', ''stExample''])) None \<in> set earlier \<and>
    (\<exists>environment. map_of environment ''ETHEREUM_TEST_PATH'' = Some (slashed segs) \<and>
      sr_Result \<lparr>sr_Result = True, sr_PCs = None\<rparr> = (\<exists>out. testeth sample_env (execTestethCMD ''testeth'' False)
        environment files (case None of None \<Rightarrow> 0 | Some t \<Rightarrow> t) = Exited out))"
proof (rule filler_under_test_path)
  show "test_executor sample_env" unfolding sample_env_def by (rule test_executor_ref)
  show "CHR ''/'' \<notin> set ''t''" by simp
  show "ExecTestCases_StateTest_Single sample_env (Some sample_filler) ''t'' ''testeth''
      (Some [(''0xAB'', ''60'')]) False None = Inr \<lparr>sr_Result = True, sr_PCs = None\<rparr>"
    by (rule sample_env_runs)
qed

text \<open>Property C38. With tracing, the program counters of a passing test are those of the
  instructions at depth 0, in the order of the trace, also where one line holds several
  instructions written one behind the other, or none.\<close>

theorem trace_PCs_of_instructions:
  assumes "test_executor E" and "list_all (list_all plain_object) ls"
    and "list_all (\<lambda>i. top_level i \<longrightarrow> is_integer (pc_of i)) (concat ls)" and "CHR 0x0A \<notin> set header"
    and "prepare_test E name (JSON_stringify (JObj [(name, filler)])) = Inr (dir, files)"
    and "testeth E (execTestethCMD cmd True) (execEnv (process_env E) dir) files t
      = Exited (header @ concat (map (\<lambda>is. CHR 0x0A # concat (map JSON_stringify is)) ls))"
  shows "ExecTestCases_StateTest_Single E (Some filler) name cmd None True (Some t) =
    Inr \<lparr>sr_Result = True, sr_PCs = Some (map pc_number (filter top_level (concat ls)))\<rparr>"
proof -
  have "list_all plain_object (concat ls)" using assms(2) by (auto simp: list_all_iff)
  with assms(3) have "trace_PCs (concat ls) = Inr (map pc_number (filter top_level (concat ls)))"
    by (intro trace_PCs_eq)
  with test_executor.traces_of_output [OF assms(1,2,4) refl] assms(5,6) show ?thesis
    by (simp add: ExecTestCases_StateTest_Single_def rstTestFilterObj_def del: JSON_stringify.simps trace_PCs.simps)
qed

definition sample_instr :: "int \<Rightarrow> string \<Rightarrow> jsval" where
  "sample_instr pc d = JObj [(''pc'', JStr (show_int pc)), (''depth'', JStr d)]"

definition sample_trace :: "jsval list list" where
  "sample_trace = [[sample_instr 0 ''0'', sample_instr 2 ''0''], [sample_instr 7 ''1''], [], [sample_instr 3 ''0'']]"

definition tracing_env :: test_env where
  "tracing_env = env_ref (\<lambda>p. None) (\<lambda>cmd environment files t. Exited (''trace'' @
     concat (map (\<lambda>is. CHR 0x0A # concat (map JSON_stringify is)) sample_trace)))"

theorem trace_PCs_of_instructions_witness:
  "ExecTestCases_StateTest_Single tracing_env (Some sample_filler) ''t'' ''testeth'' None True (Some 5) =
    Inr \<lparr>sr_Result = True, sr_PCs = Some [0, 2, 3]\<rparr>"
proof -
  have r: "map pc_number (filter top_level (concat sample_trace)) = [0, 2, 3]" by code_simp
  show ?thesis unfolding r [symmetric]
  proof (rule trace_PCs_of_instructions)
    show "test_executor tracing_env" unfolding tracing_env_def by (rule test_executor_ref)
    show "list_all (list_all plain_object) sample_trace" by code_simp
    show "list_all (\<lambda>i. top_level i \<longrightarrow> is_integer (pc_of i)) (concat sample_trace)" by code_simp
    show "CHR 0x0A \<notin> set ''trace''" by simp
    show "prepare_test tracing_env ''t'' (JSON_stringify (JObj [(''t'', sample_filler)])) =
        Inr (''/tmp/q7Zk0a'', test_files ''/tmp/q7Zk0a'' ''t'' (JSON_stringify (JObj [(''t'', sample_filler)])))"
      unfolding tracing_env_def by (rule ref_prepares)
  qed (simp add: tracing_env_def env_ref_def)
qed

section \<open>Test files\<close>

text \<open>Property C39. A test file whose coverage is known is skipped, when locations are asked for,
  exactly when no source position lies in one of its covered locations and in one of the
  locations asked for.\<close>

theorem skipped_iff_nothing_covered:
  assumes "read_file E path = Some content" and "JSON_parse content = Inr test"
    and "coveredLocations test = Inr (Some (JArr xs))"
    and "map_result read_range xs = Inr covered" and "list_all node_range covered"
    and "map_result read_range ys = Inr asked" and "list_all interest_range asked"
  shows "process_one_test_case_file E path cmd addr bin (Some (JArr ys)) throw = Inr NotRelevant \<longleftrightarrow>
    \<not> (\<exists>a b p. a \<in> set covered \<and> b \<in> set asked \<and> is_position p \<and>
        pos_le (range_start a) p \<and> pos_le p (range_end a) \<and> pos_le (range_start b) p \<and> pos_le p (range_end b))"
proof -
  have meet: "locationIntersect a b \<longleftrightarrow> (\<exists>p. is_position p \<and> pos_le (range_start a) p \<and> pos_le p (range_end a) \<and>
      pos_le (range_start b) p \<and> pos_le p (range_end b))" if "a \<in> set covered" "b \<in> set asked" for a b
    using that assms(5,7) by (intro intersect_iff_shared) (auto simp: list_all_iff)
  have n: "not_relevant (JArr xs) (JArr ys) =
      Inr (\<not> (\<exists>a b. a \<in> set covered \<and> b \<in> set asked \<and> locationIntersect a b))"
    by (rule not_relevant_decides [OF assms(4,6)])
  have "process_one_test_case_file E path cmd addr bin (Some (JArr ys)) throw = Inr NotRelevant \<longleftrightarrow>
      \<not> (\<exists>a b. a \<in> set covered \<and> b \<in> set asked \<and> locationIntersect a b)"
    by (rule process_skips_iff [OF assms(1-3) n])
  with meet show ?thesis by blast
qed

definition sample_location :: "int \<Rightarrow> jsval" where
  "sample_location n = JObj
     [(''start'', JObj [(''line'', JNum (Fin n)), (''column'', JNum (Fin 4))]),
      (''end'', JObj [(''line'', JNum (Fin n)), (''column'', JNum (Fin 8))])]"

definition sample_file :: "int \<Rightarrow> jsval" where
  "sample_file n = JObj [(''Version'', JStr ''2''), (''CoveredStatementLocation'', JArr [sample_location n]),
     (''Tests'', JObj [(''t'', JObj [(''TestFiller'', sample_filler)])])]"

definition files_env :: test_env where
  "files_env = env_ref
     (\<lambda>p. if p = ''a.json'' then Some (JSON_stringify (sample_file 2))
          else if p = ''b.json'' then Some (JSON_stringify (sample_file 3)) else None)
     (\<lambda>cmd environment files t. Failed (Some 200))"

lemma sample_file_parses: "JSON_parse (JSON_stringify (sample_file n)) = Inr (sample_file n)"
  by (rule JSON_parse_stringify) (simp_all add: sample_file_def sample_location_def sample_filler_def)

lemma sample_location_range: "read_range (sample_location n) = Inr (sample_range n)"
  by (simp add: read_range_def read_position_def sample_location_def sample_range_def)

theorem skipped_iff_nothing_covered_witness:
  "process_one_test_case_file files_env ''a.json'' ''testeth'' ''0xAB'' (Some ''60'')
      (Some (JArr [sample_location 3])) False = Inr NotRelevant \<longleftrightarrow>
    \<not> (\<exists>a b p. a \<in> set [sample_range 2] \<and> b \<in> set [sample_range 3] \<and> is_position p \<and>
        pos_le (range_start a) p \<and> pos_le p (range_end a) \<and> pos_le (range_start b) p \<and> pos_le p (range_end b))"
proof (rule skipped_iff_nothing_covered)
  show "read_file files_env ''a.json'' = Some (JSON_stringify (sample_file 2))"
    by (simp add: files_env_def env_ref_def)
  show "JSON_parse (JSON_stringify (sample_file 2)) = Inr (sample_file 2)"
    by (rule sample_file_parses)
  show "coveredLocations (sample_file 2) = Inr (Some (JArr [sample_location 2]))"
    by (simp add: coveredLocations_def sample_file_def)
qed (simp_all add: sample_location_range sample_ranges node_range_interest)

section \<open>All files\<close>

text \<open>Property C40. Where every file has one test, the printed results are one for each file, in
  the order of the files: the result of its test, or NotRelevant for a skipped file.\<close>

theorem printed_results_match_files:
  assumes "test_executor E" and "valid_concurrency limit" and "list_all (one_test E) paths"
    and "parse_onlyLocations only = Inr onlyLocations"
    and "exec_ExecTestCases_StateTest E paths addr bin fastFail limit only cmd = Inr printed"
  shows "\<exists>results. JSON_parse printed = Inr (JArr results) \<and> list_all2 (\<lambda>path result.
      if result = NotRelevant
      then process_one_test_case_file E path cmd addr bin onlyLocations fastFail = Inr NotRelevant
      else \<exists>b. result = JBool b \<and>
        process_one_test_case_file E path cmd addr bin onlyLocations fastFail = Inr (JArr [result])) paths results"
proof -
  obtain rs where rs: "tl_pMap E paths (\<lambda>path. process_one_test_case_file E path cmd addr bin onlyLocations fastFail) limit = Inr rs"
    "printed = JSON_stringify (JArr (tl_flatten E rs))"
    by (rule test_executor.exec_runs [OF assms(1,2,4,5)])
  note run = test_executor.pMap [OF assms(1,2), THEN iffD1, OF rs(1)]
  obtain xs where xs: "list_all2 single_entry rs xs" "list_all2 (\<lambda>path result.
      if result = NotRelevant
      then process_one_test_case_file E path cmd addr bin onlyLocations fastFail = Inr NotRelevant
      else \<exists>b. result = JBool b \<and>
        process_one_test_case_file E path cmd addr bin onlyLocations fastFail = Inr (JArr [result])) paths xs"
    using files_results [OF run assms(3)] by (elim exE conjE)
  have "printed = JSON_stringify (JArr xs)"
    using test_executor.results_of_files [OF assms(1,2) rs(1)] xs(1) rs(2) by simp
  moreover have "JSON_parse (JSON_stringify (JArr xs)) = Inr (JArr xs)"
    using single_entries_json [OF xs(1)] by (intro JSON_parse_stringify) auto
  ultimately show ?thesis using xs(2) by blast
qed

lemma sample_lower_patches: "patch_contracts [(toLowerCase ''0xAB'', ''60'')] (Some sample_filler) = Inr sample_patched"
  by code_simp

lemma files_env_runs:
  "process_one_test_case_file files_env ''a.json'' ''testeth'' ''0xAB'' (Some ''60'')
     (Some (JArr [sample_location 3])) fast = Inr NotRelevant"
  "process_one_test_case_file files_env ''b.json'' ''testeth'' ''0xAB'' (Some ''60'')
     (Some (JArr [sample_location 3])) fast = Inr (JArr [JBool False])"
proof -
  have f: "read_file files_env ''a.json'' = Some (JSON_stringify (sample_file 2))"
    "read_file files_env ''b.json'' = Some (JSON_stringify (sample_file 3))"
    by (simp_all add: files_env_def env_ref_def)
  have c: "coveredLocations (sample_file n) = Inr (Some (JArr [sample_location n]))" for n
    by (simp add: coveredLocations_def sample_file_def)
  have n: "not_relevant (JArr [sample_location 2]) (JArr [sample_location 3]) = Inr True"
    "not_relevant (JArr [sample_location 3]) (JArr [sample_location 3]) = Inr False"
    by code_simp+
  have e: "exec2_ExecTestCases_StateTest files_env (sample_file 3) ''testeth''
      (Some [(toLowerCase ''0xAB'', ''60'')]) = Inr [False]"
    using ref_runs(2) [OF sample_lower_patches refl refl]
    by (simp add: exec2_ExecTestCases_StateTest_def run_tests_def sample_file_def files_env_def)
  show "process_one_test_case_file files_env ''a.json'' ''testeth'' ''0xAB'' (Some ''60'')
     (Some (JArr [sample_location 3])) fast = Inr NotRelevant"
    "process_one_test_case_file files_env ''b.json'' ''testeth'' ''0xAB'' (Some ''60'')
     (Some (JArr [sample_location 3])) fast = Inr (JArr [JBool False])"
    by (simp_all add: process_one_test_case_file_def f sample_file_parses c n e del: JSON_stringify.simps)
qed

theorem printed_results_match_files_witness:
  "\<exists>results. JSON_parse (JSON_stringify (JArr [NotRelevant, JBool False])) = Inr (JArr results) \<and>
    list_all2 (\<lambda>path result.
      if result = NotRelevant
      then process_one_test_case_file files_env path ''testeth'' ''0xAB'' (Some ''60'')
        (Some (JArr [sample_location 3])) True = Inr NotRelevant
      else \<exists>b. result = JBool b \<and>
        process_one_test_case_file files_env path ''testeth'' ''0xAB'' (Some ''60'')
          (Some (JArr [sample_location 3])) True = Inr (JArr [result])) [''a.json'', ''b.json''] results"
proof (rule printed_results_match_files)
  let ?only = "JSON_stringify (JArr [sample_location 3])"
  show env: "test_executor files_env" unfolding files_env_def by (rule test_executor_ref)
  show "valid_concurrency (Fin 1)" by (simp add: valid_concurrency_def)
  have "one_test files_env p" if "p = ''a.json'' \<or> p = ''b.json''" for p
    using that sample_file_parses by (auto simp: one_test_def files_env_def env_ref_def sample_file_def)
  then show "list_all (one_test files_env) [''a.json'', ''b.json'']" by simp
  show only: "parse_onlyLocations (Some ?only) = Inr (Some (JArr [sample_location 3]))"
    using JSON_parse_stringify [of "JArr [sample_location 3]"]
    by (simp add: parse_onlyLocations_def sample_location_def del: JSON_stringify.simps)
  show "exec_ExecTestCases_StateTest files_env [''a.json'', ''b.json''] ''0xAB'' (Some ''60'') True (Fin 1)
      (Some ?only) ''testeth'' = Inr (JSON_stringify (JArr [NotRelevant, JBool False]))"
    unfolding exec_ExecTestCases_StateTest_def only
    by (simp add: files_env_def env_ref_def files_env_runs [unfolded files_env_def env_ref_def] NotRelevant_def
        del: JSON_stringify.simps)
qed

text \<open>Asking to stop at the first failing test changes nothing: the executor prints
  what it prints without, after running all tests.\<close>

theorem fast_fail_has_no_effect:
  "exec_ExecTestCases_StateTest E paths addr bin True limit only cmd =
   exec_ExecTestCases_StateTest E paths addr bin False limit only cmd"
  by (simp only: exec_ExecTestCases_StateTest_def process_ignores_fast_fail [of E _ cmd addr bin _ True])

end
