(* ===== verification/AstTypes.thy ===== *)
theory AstTypes
  imports NodeSpace
begin

text \<open>
  The types of AST nodes as the program declares them
  (\<open>sm/src/types/solidity-parser-antlr.d.ts\<close>): the interfaces with their fields, the unions of
  node types, and when a value has a declared type. Interfaces are open: a value may have further
  properties. The parser itself is not part of the repository.
\<close>

section \<open>Types\<close>

text \<open>Node types are unions of the string literals of \<open>type\<close>. A field has a name, may be optional,
  and has a type.\<close>

datatype ts_type =
    TsString
  | TsNumber
  | TsBoolean
  | TsLiteral "string list"
  | TsNode "string list"
  | TsArray ts_type
  | TsTuple "ts_type list"
  | TsObject "(string \<times> bool \<times> ts_type) list"
  | TsNullable ts_type

type_synonym fields = "(string \<times> bool \<times> ts_type) list"
type_synonym interface = "string \<times> fields"

definition LineColumn_type :: ts_type where
  "LineColumn_type = TsObject [(''line'', False, TsNumber), (''column'', False, TsNumber)]"

definition CodeRange_type :: ts_type where
  "CodeRange_type = TsObject [(''start'', False, LineColumn_type), (''end'', False, LineColumn_type)]"

text \<open>What every node may have.\<close>

definition BaseASTNode_fields :: fields where
  "BaseASTNode_fields = [(''range'', True, TsTuple [TsNumber, TsNumber]), (''loc'', True, CodeRange_type)]"

subsection \<open>Unions\<close>

definition PrimaryExpression_types :: "string list" where
  "PrimaryExpression_types = [
    ''BooleanLiteral'', ''NumberLiteral'', ''Identifier'', ''TupleExpression'',
    ''ElementaryTypeNameExpression'']"

definition Expression_types :: "string list" where
  "Expression_types = [
    ''IndexAccess'', ''TupleExpression'', ''BinaryOperation'', ''Conditional'', ''MemberAccess''] @
      PrimaryExpression_types @ [
    ''FunctionCall'']"

definition SimpleStatement_types :: "string list" where
  "SimpleStatement_types = [
    ''VariableDeclaration'', ''ExpressionStatement'']"

definition TypeName_types :: "string list" where
  "TypeName_types = [
    ''ElementaryTypeName'', ''UserDefinedTypeName'', ''Mapping'', ''FunctionTypeName'']"

definition Statement_types :: "string list" where
  "Statement_types = [
    ''IfStatement'', ''WhileStatement'', ''ForStatement'', ''Block'', ''InlineAssemblyStatement'',
    ''DoWhileStatement'', ''ContinueStatement'', ''BreakStatement'', ''ReturnStatement'',
    ''ThrowStatement''] @ SimpleStatement_types @ [
    ''VariableDeclarationStatement'']"

definition ASTNode_types :: "string list" where
  "ASTNode_types = [
    ''SourceUnit'', ''PragmaDirective'', ''PragmaName'', ''PragmaValue'', ''Version'',
    ''VersionOperator'', ''VersionConstraint'', ''ImportDeclaration'', ''ImportDirective'',
    ''ContractDefinition'', ''InheritanceSpecifier'', ''StateVariableDeclaration'',
    ''UsingForDeclaration'', ''StructDefinition'', ''ModifierDefinition'', ''ModifierInvocation'',
    ''FunctionDefinition'', ''ModifierList'', ''EventDefinition'', ''EmitStatement'',
    ''EnumValue'', ''EnumDefinition'', ''ParameterList'', ''Parameter'', ''EventParameterList'',
    ''EventParameter'', ''FunctionTypeParameterList'', ''FunctionTypeParameter'',
    ''VariableDeclaration''] @ TypeName_types @ [
    ''ArrayTypeName'', ''UserDefinedTypeName'', ''Mapping'', ''FunctionTypeName'',
    ''StorageLocation'', ''StateMutability'', ''Block'', ''LineComment'', ''BlockComment'',
    ''ExpressionStatement'', ''IfStatement'', ''WhileStatement'', ''ForStatement'',
    ''InlineAssemblyStatement'', ''DoWhileStatement'', ''ContinueStatement'', ''BreakStatement'',
    ''ReturnStatement'', ''ThrowStatement'', ''VariableDeclarationStatement'', ''IdentifierList'',
    ''IndexAccess'', ''MemberAccess'', ''ElementaryTypeName'', ''NewExpression''] @ Expression_types @ [
    ''ExpressionList'', ''NameValueList'', ''NameValue'', ''FunctionCall'',
    ''FunctionCallArguments'', ''AssemblyBlock'', ''AssemblyItem'', ''AssemblyCall'',
    ''AssemblyLocalDefinition'', ''AssemblyAssignment'', ''AssemblyIdentifierOrList'',
    ''AssemblyIdentifierList'', ''AssemblyStackAssignment'', ''LabelDefinition'',
    ''AssemblySwitch'', ''AssemblyCase'', ''AssemblyFunctionDefinition'',
    ''AssemblyFunctionReturns'', ''AssemblyFor'', ''AssemblyIf'', ''AssemblyLiteral'',
    ''SubAssembly'', ''TupleExpression'', ''ElementaryTypeNameExpression'', ''HexLiteral'',
    ''StringLiteral'', ''NumberLiteral'', ''Identifier'', ''UnaryOperation'', ''BinaryOperation'',
    ''Conditional'']"

definition BinOp :: "string list" where
  "BinOp = [''+'', ''-'', ''*'', ''/'', ''**'', ''%'', ''<<'', ''>>'', ''&&'', ''||'', ''&'', ''|'',
    ''^'',
    ''<'', ''>'', ''<='', ''>='', ''=='', ''!='', ''='', ''|='', ''^='', ''&='', ''<<='', ''>>='',
    ''+='', ''-='', ''*='', ''/='', ''%='']"

subsection \<open>Interfaces\<close>

definition declaration_interfaces :: "interface list" where
  "declaration_interfaces = [
    (''SourceUnit'', [(''children'', False, TsArray (TsNode ASTNode_types))]),
    (''PragmaDirective'', []), (''PragmaName'', []), (''PragmaValue'', []), (''Version'', []),
    (''VersionOperator'', []), (''VersionConstraint'', []), (''ImportDeclaration'', []),
    (''ImportDirective'', []),
    (''ContractDefinition'', [(''name'', False, TsString), (''subNodes'', False, TsArray (TsNode
      ASTNode_types))]),
    (''InheritanceSpecifier'', []),
    (''StateVariableDeclaration'', [(''variables'', False, TsArray (TsNode
      [''VariableDeclaration'']))]),
    (''UsingForDeclaration'', []), (''StructDefinition'', []),
    (''ModifierDefinition'', [(''name'', False, TsString)]),
    (''ModifierInvocation'', [(''name'', False, TsString)]),
    (''FunctionDefinition'', [(''name'', False, TsString), (''parameters'', False, TsNode
      [''ParameterList'']), (''body'', False, TsNullable (TsNode [''Block'']))]),
    (''ModifierList'', []),
    (''EventDefinition'', [(''name'', False, TsString), (''parameters'', False, TsNode
      [''ParameterList''])]),
    (''EmitStatement'', []), (''EnumValue'', []), (''EnumDefinition'', []),
    (''ParameterList'', []), (''Parameter'', []), (''EventParameterList'', []),
    (''EventParameter'', []), (''FunctionTypeParameterList'', []), (''FunctionTypeParameter'', []),
    (''VariableDeclaration'', [(''isIndexed'', False, TsBoolean), (''isStateVar'', False,
      TsBoolean), (''typeName'', False, TsNode TypeName_types), (''name'', False, TsString),
      (''isDeclaredConst'', True, TsBoolean), (''storageLocation'', False, TsNullable (TsString)),
      (''expression'', True, TsNode Expression_types), (''visibility'', True, TsLiteral [''public'',
      ''private''])]),
    (''ArrayTypeName'', []), (''UserDefinedTypeName'', []),
    (''Mapping'', [(''keyType'', False, TsNode TypeName_types), (''valueType'', False, TsNode
      TypeName_types)]),
    (''FunctionTypeName'', []), (''StorageLocation'', []), (''StateMutability'', [])]"

definition statement_interfaces :: "interface list" where
  "statement_interfaces = [
    (''Block'', [(''statements'', False, TsArray (TsNode Statement_types))]),
    (''LineComment'', []), (''BlockComment'', []),
    (''ExpressionStatement'', [(''expression'', False, TsNode Expression_types)]),
    (''IfStatement'', [(''condition'', False, TsNode Expression_types), (''trueBody'', False, TsNode
      Statement_types), (''falseBody'', False, TsNullable (TsNode Statement_types))]),
    (''WhileStatement'', []), (''ForStatement'', []), (''InlineAssemblyStatement'', []),
    (''DoWhileStatement'', []), (''ContinueStatement'', []), (''BreakStatement'', []),
    (''ReturnStatement'', []), (''ThrowStatement'', []),
    (''VariableDeclarationStatement'', [(''variables'', False, TsArray (TsNode ASTNode_types)),
      (''initialValue'', True, TsNode Expression_types)]),
    (''IdentifierList'', []), (''ElementaryTypeName'', [(''name'', False, TsString)]),
    (''NewExpression'', []), (''ExpressionList'', []), (''NameValueList'', []),
    (''NameValue'', []),
    (''FunctionCall'', [(''expression'', False, TsNode Expression_types), (''arguments'', False,
      TsArray (TsNode [''FunctionCallArguments'']))]),
    (''FunctionCallArguments'', []), (''AssemblyBlock'', [])]"

definition assembly_interfaces :: "interface list" where
  "assembly_interfaces = [
    (''AssemblyItem'', []), (''AssemblyCall'', []), (''AssemblyLocalDefinition'', []),
    (''AssemblyAssignment'', []), (''AssemblyIdentifierOrList'', []),
    (''AssemblyIdentifierList'', []), (''AssemblyStackAssignment'', []), (''LabelDefinition'', []),
    (''AssemblySwitch'', []), (''AssemblyCase'', []), (''AssemblyFunctionDefinition'', []),
    (''AssemblyFunctionReturns'', []), (''AssemblyFor'', []), (''AssemblyIf'', []),
    (''AssemblyLiteral'', [])]"

definition expression_interfaces :: "interface list" where
  "expression_interfaces = [
    (''SubAssembly'', []), (''TupleExpression'', []), (''ElementaryTypeNameExpression'', []),
    (''NumberLiteral'', [(''number'', False, TsString), (''subdenomination'', False, TsNullable
      (TsLiteral [''wei'', ''szabo'', ''finney'', ''ether'', ''seconds'', ''minutes'', ''hours'',
      ''days'', ''weeks'', ''years'']))]),
    (''BooleanLiteral'', [(''value'', False, TsBoolean)]),
    (''HexLiteral'', [(''value'', False, TsString)]),
    (''StringLiteral'', [(''value'', False, TsString)]),
    (''Identifier'', [(''name'', False, TsString)]), (''MemberAccess'', []),
    (''UnaryOperation'', []),
    (''BinaryOperation'', [(''left'', False, TsNode Expression_types), (''right'', False, TsNode
      Expression_types), (''operator'', False, TsLiteral BinOp)]),
    (''Conditional'', [(''trueExpression'', False, TsNode ASTNode_types), (''falseExpression'',
      False, TsNode ASTNode_types)]),
    (''IndexAccess'', [(''base'', False, TsNode Expression_types), (''index'', False, TsNode
      Expression_types)]),
    (''MemberAccess'', [(''expression'', False, TsNode Expression_types), (''memberName'', False,
      TsString)])]"

definition interfaces :: "interface list" where
  "interfaces = declaration_interfaces @ statement_interfaces @ assembly_interfaces @ expression_interfaces"

text \<open>Two declarations of an interface are merged.\<close>

definition declared_fields :: "string \<Rightarrow> fields" where
  "declared_fields t = BaseASTNode_fields @ concat (map snd (filter (\<lambda>i. fst i = t) interfaces))"

subsection \<open>Visitors\<close>

text \<open>The names of \<open>Visitor\<close> that end in \<open>:exit\<close>, one for each type of node, which \<open>must be
  consistent\<close> with the types.\<close>

definition exit_handlers :: "string list" where
  "exit_handlers = [
    ''SourceUnit'', ''PragmaDirective'', ''PragmaName'', ''PragmaValue'', ''Version'',
    ''VersionOperator'', ''VersionConstraint'', ''ImportDeclaration'', ''ImportDirective'',
    ''ContractDefinition'', ''InheritanceSpecifier'', ''StateVariableDeclaration'',
    ''UsingForDeclaration'', ''StructDefinition'', ''ModifierDefinition'', ''ModifierInvocation'',
    ''FunctionDefinition'', ''ModifierList'', ''EventDefinition'', ''EmitStatement'',
    ''EnumValue'', ''EnumDefinition'', ''ParameterList'', ''Parameter'', ''EventParameterList'',
    ''EventParameter'', ''FunctionTypeParameterList'', ''FunctionTypeParameter'',
    ''VariableDeclaration'', ''TypeName'', ''ArrayTypeName'', ''UserDefinedTypeName'', ''Mapping'',
    ''FunctionTypeName'', ''StorageLocation'', ''StateMutability'', ''Block'', ''LineComment'',
    ''BlockComment'', ''ExpressionStatement'', ''IfStatement'', ''WhileStatement'',
    ''ForStatement'', ''InlineAssemblyStatement'', ''DoWhileStatement'', ''ContinueStatement'',
    ''BreakStatement'', ''ReturnStatement'', ''ThrowStatement'', ''VariableDeclarationStatement'',
    ''IdentifierList'', ''ElementaryTypeName'', ''NewExpression'', ''Expression'',
    ''ExpressionList'', ''NameValueList'', ''NameValue'', ''FunctionCall'',
    ''FunctionCallArguments'', ''AssemblyBlock'', ''AssemblyItem'', ''AssemblyCall'',
    ''AssemblyLocalDefinition'', ''AssemblyAssignment'', ''AssemblyIdentifierOrList'',
    ''AssemblyIdentifierList'', ''AssemblyStackAssignment'', ''LabelDefinition'',
    ''AssemblySwitch'', ''AssemblyCase'', ''AssemblyFunctionDefinition'',
    ''AssemblyFunctionReturns'', ''AssemblyFor'', ''AssemblyIf'', ''AssemblyLiteral'',
    ''SubAssembly'', ''TupleExpression'', ''ElementaryTypeNameExpression'', ''StringLiteral'',
    ''NumberLiteral'', ''Identifier'', ''IndexAccess'', ''MemberAccess'', ''UnaryOperation'',
    ''BinaryOperation'', ''Conditional'']"

section \<open>Values of a type\<close>

text \<open>The typing of the language: what it means that a value has a type.\<close>

text \<open>The properties of an object that has fields.\<close>

definition field_types :: "fields \<Rightarrow> (string \<times> jsval) list \<Rightarrow> (ts_type \<times> jsval) list option" where
  "field_types fs kvs =
     (if list_all (\<lambda>(k, optional, ty). optional \<or> map_of kvs k \<noteq> None) fs
      then Some (List.map_filter (\<lambda>(k, optional, ty). map_option (Pair ty) (map_of kvs k)) fs) else None)"

lemma field_types_parts: "field_types fs kvs = Some ws \<Longrightarrow> (ty, w) \<in> set ws \<Longrightarrow> w \<in> snd ` set kvs"
proof -
  assume "field_types fs kvs = Some ws" "(ty, w) \<in> set ws"
  then obtain k where "map_of kvs k = Some w"
    by (auto simp: field_types_def List.map_filter_def split: if_splits option.splits)
  then show ?thesis by (force dest: map_of_SomeD)
qed

lemma zip_size: "(ty, x) \<in> set (zip tys xs) \<Longrightarrow> size x < size (JArr xs)"
  by (blast dest: set_zip_rightD size_elem)

lemma field_size: "field_types fs kvs = Some ws \<Longrightarrow> (ty, w) \<in> set ws \<Longrightarrow> size w < size (JObj kvs)"
  by (auto dest!: field_types_parts dest: size_prop)

function conforms :: "ts_type \<Rightarrow> jsval \<Rightarrow> bool" where
  "conforms TsString v = (case v of JStr s \<Rightarrow> True | _ \<Rightarrow> False)"
| "conforms TsNumber v = (case v of JNum n \<Rightarrow> True | _ \<Rightarrow> False)"
| "conforms TsBoolean v = (case v of JBool b \<Rightarrow> True | _ \<Rightarrow> False)"
| "conforms (TsLiteral ls) v = (case v of JStr s \<Rightarrow> s \<in> set ls | _ \<Rightarrow> False)"
| "conforms (TsNode ts) v = (case v of
     JObj kvs \<Rightarrow> (case map_of kvs ''type'' of
         Some (JStr t) \<Rightarrow> t \<in> set ts \<and> (case field_types (declared_fields t) kvs of
             None \<Rightarrow> False | Some ws \<Rightarrow> list_all (\<lambda>(ty, w). conforms ty w) ws)
       | _ \<Rightarrow> False)
   | _ \<Rightarrow> False)"
| "conforms (TsArray ty) v = (case v of JArr xs \<Rightarrow> list_all (conforms ty) xs | _ \<Rightarrow> False)"
| "conforms (TsTuple tys) v = (case v of
     JArr xs \<Rightarrow> length xs = length tys \<and> list_all (\<lambda>(ty, x). conforms ty x) (zip tys xs) | _ \<Rightarrow> False)"
| "conforms (TsObject fs) v = (case v of
     JObj kvs \<Rightarrow> (case field_types fs kvs of
         None \<Rightarrow> False | Some ws \<Rightarrow> list_all (\<lambda>(ty, w). conforms ty w) ws)
   | _ \<Rightarrow> False)"
| "conforms (TsNullable ty) v = (v = JNull \<or> conforms ty v)"
  by pat_completeness auto

termination
  by (relation "measures [size \<circ> snd, size \<circ> fst]")
    (auto dest: size_elem zip_size [simplified] field_size [simplified])

end
