(* ===== verification/TypedNodes.thy ===== *)
theory TypedNodes
  imports AstTypes SpaceTypes FaultReach
begin

text \<open>
  The declared types of AST nodes and the space of new nodes: which programs the space can be
  built for, and which of the new nodes have their declared types.
\<close>

section \<open>Listed types\<close>

text \<open>The types that are declared and not listed, and the visitors' names that are no types.\<close>

lemma unlisted_types: "set ASTNode_types - set astNodeTypeStrings = {''EmitStatement'', ''HexLiteral''}"
  by code_simp

lemma listed_declared: "set astNodeTypeStrings \<subseteq> set ASTNode_types"
  by code_simp

lemma exit_handlers_differ:
  "set ASTNode_types - set exit_handlers = {''BooleanLiteral'', ''HexLiteral''}"
  "set exit_handlers - set ASTNode_types = {''TypeName'', ''Expression''}"
  by code_simp+

text \<open>All nodes the traversal comes to are of listed types.\<close>

fun listed_types :: "jsval \<Rightarrow> bool" where
  "listed_types (JArr xs) \<longleftrightarrow> list_all listed_types xs"
| "listed_types (JObj kvs) \<longleftrightarrow> (isASTNode (Some (JObj kvs)) \<longrightarrow>
     (case map_of kvs ''type'' of Some (JStr t) \<Rightarrow> t \<in> set astNodeTypeStrings | _ \<Rightarrow> False) \<and>
     list_all (\<lambda>(k, v). listed_types v) kvs)"
| "listed_types v \<longleftrightarrow> True"

lemma scope_of_path:
  "cwalk v p = Some w \<Longrightarrow> \<exists>s'. objPathVisit (Some v) p scope_visitor s = (s', Inr ())"
proof (induction p arbitrary: v s)
  case Nil
  then show ?case by (subst objPathVisit.simps) (auto simp: scope_visitor_def)
next
  case (Cons k p)
  obtain u where u: "child v k = Some u" "cwalk u p = Some w" using Cons.prems by (auto split: option.splits)
  then have f: "js_field (Some v) k = Inr (Some u)" using child_js_prop [of v k u] by (cases v) auto
  obtain s1 go where "scope_visitor (Some v) s = (s1, Inr go)"
    by (cases "isASTNode (Some v)"; cases "has_type v ''ContractDefinition''"; cases "has_type v ''FunctionDefinition''")
      (auto simp: scope_visitor_def)
  with f Cons.IH [OF u(2), of s1] show ?case by (subst objPathVisit.simps) (cases go, auto)
qed

lemma scope_of_node: "cwalk ast p = Some w \<Longrightarrow> \<exists>sc. getNodePathScopeInfo ast p = Inr sc"
  using scope_of_path [of ast p w "\<lparr>contractName = None, functionName = None\<rparr>"]
  by (auto simp: getNodePathScopeInfo_def)

definition records :: "jsval \<Rightarrow> jsval \<Rightarrow> jsval \<Rightarrow> bool" where
  "records nullCopy ast v \<longleftrightarrow> (\<forall>p s. cwalk ast p = Some v \<longrightarrow> dom (map_of s) = set astNodeTypeStrings \<longrightarrow>
     (if listed_types v
      then \<exists>s'. visitWithPath (buildASTNodeSet_visitor nullCopy ast) (\<lambda>_ _ s. Inr s) v p s = Inr s' \<and>
        dom (map_of s') = set astNodeTypeStrings
      else visitWithPath (buildASTNodeSet_visitor nullCopy ast) (\<lambda>_ _ s. Inr s) v p s = Inl AssertionError))"

lemma records_elems:
  assumes "\<forall>x \<in> set xs. records nullCopy ast x"
  shows "cwalk ast p = Some (JArr ys) \<Longrightarrow> drop i ys = xs \<Longrightarrow> dom (map_of s) = set astNodeTypeStrings \<Longrightarrow>
    (if list_all listed_types xs
     then \<exists>s'. visit_elems (buildASTNodeSet_visitor nullCopy ast) (\<lambda>_ _ s. Inr s) i xs p s = Inr s' \<and>
       dom (map_of s') = set astNodeTypeStrings
     else visit_elems (buildASTNodeSet_visitor nullCopy ast) (\<lambda>_ _ s. Inr s) i xs p s = Inl AssertionError)"
  using assms
proof (induction xs arbitrary: i s)
  case (Cons x xs)
  have i: "i < length ys" "ys ! i = x" "drop (Suc i) ys = xs" using Cons.prems(2) by (rule drop_Cons_nth)+
  then have "cwalk ast (p @ [idx_key i]) = Some x" using Cons.prems(1) by (simp add: cwalk_append)
  with Cons.prems have x: "if listed_types x
      then \<exists>s'. visitWithPath (buildASTNodeSet_visitor nullCopy ast) (\<lambda>_ _ s. Inr s) x (p @ [idx_key i]) s = Inr s' \<and>
        dom (map_of s') = set astNodeTypeStrings
      else visitWithPath (buildASTNodeSet_visitor nullCopy ast) (\<lambda>_ _ s. Inr s) x (p @ [idx_key i]) s = Inl AssertionError"
    by (auto simp: records_def)
  show ?case
  proof (cases "listed_types x")
    case True
    with x obtain s1 where "visitWithPath (buildASTNodeSet_visitor nullCopy ast) (\<lambda>_ _ s. Inr s) x (p @ [idx_key i]) s = Inr s1"
      "dom (map_of s1) = set astNodeTypeStrings" by auto
    with Cons.IH [OF Cons.prems(1) i(3), of s1] Cons.prems(4) True show ?thesis by simp
  qed (use x in simp)
qed simp

lemma records_props:
  assumes "\<forall>(k, v) \<in> set kvs. records nullCopy ast v \<and> map_of all k = Some v"
  shows "cwalk ast p = Some (JObj all) \<Longrightarrow> dom (map_of s) = set astNodeTypeStrings \<Longrightarrow>
    (if list_all (\<lambda>(k, v). listed_types v) kvs
     then \<exists>s'. visit_props (buildASTNodeSet_visitor nullCopy ast) (\<lambda>_ _ s. Inr s) kvs p s = Inr s' \<and>
       dom (map_of s') = set astNodeTypeStrings
     else visit_props (buildASTNodeSet_visitor nullCopy ast) (\<lambda>_ _ s. Inr s) kvs p s = Inl AssertionError)"
  using assms
proof (induction kvs arbitrary: s)
  case (Cons kv kvs)
  obtain k v where kv: "kv = (k, v)" by (cases kv)
  then have "cwalk ast (p @ [k]) = Some v" using Cons.prems(1,3) by (simp add: cwalk_append)
  with Cons.prems(2,3) kv have x: "if listed_types v
      then \<exists>s'. visitWithPath (buildASTNodeSet_visitor nullCopy ast) (\<lambda>_ _ s. Inr s) v (p @ [k]) s = Inr s' \<and>
        dom (map_of s') = set astNodeTypeStrings
      else visitWithPath (buildASTNodeSet_visitor nullCopy ast) (\<lambda>_ _ s. Inr s) v (p @ [k]) s = Inl AssertionError"
    by (auto simp: records_def)
  show ?case
  proof (cases "listed_types v")
    case True
    with x obtain s1 where "visitWithPath (buildASTNodeSet_visitor nullCopy ast) (\<lambda>_ _ s. Inr s) v (p @ [k]) s = Inr s1"
      "dom (map_of s1) = set astNodeTypeStrings" by auto
    with Cons.IH [OF Cons.prems(1), of s1] Cons.prems(3) True kv show ?thesis by simp
  qed (use x kv in simp)
qed simp

lemma buildASTNodeSet_listed:
  assumes "cwalk ast p = Some (JObj kvs)" and "dom (map_of s) = set astNodeTypeStrings"
  shows "if (case map_of kvs ''type'' of Some (JStr t) \<Rightarrow> t \<in> set astNodeTypeStrings | _ \<Rightarrow> False)
    then \<exists>s'. buildASTNodeSet_visitor nullCopy ast (JObj kvs) p s = Inr (s', True) \<and>
      dom (map_of s') = set astNodeTypeStrings
    else buildASTNodeSet_visitor nullCopy ast (JObj kvs) p s = Inl AssertionError"
proof (cases "\<exists>t. map_of kvs ''type'' = Some (JStr t)")
  case True
  then obtain t where t: "map_of kvs ''type'' = Some (JStr t)" by blast
  obtain sc where sc: "getNodePathScopeInfo ast p = Inr sc" using scope_of_node [OF assms(1)] by blast
  show ?thesis
  proof (cases "t \<in> set astNodeTypeStrings")
    case True
    with assms(2) obtain ns where ns: "map_of s t = Some ns" by blast
    with True t sc assms(2) show ?thesis
      by (simp add: buildASTNodeSet_visitor_def update_conv' insert_absorb)
  next
    case False
    with assms(2) have "map_of s t = None" by blast
    with False t show ?thesis by (simp add: buildASTNodeSet_visitor_def)
  qed
next
  case False
  then show ?thesis by (auto simp: buildASTNodeSet_visitor_def split: option.splits jsval.splits)
qed

lemma records_value: "wf_val v \<Longrightarrow> records nullCopy ast v"
proof (induction v)
  case (JArr xs)
  then have "\<forall>x \<in> set xs. records nullCopy ast x" by (auto simp: list_all_iff)
  with records_elems [of xs nullCopy ast _ xs 0] show ?case by (simp add: records_def)
next
  case (JObj kvs)
  have props: "\<forall>(k, v) \<in> set kvs. records nullCopy ast v \<and> map_of kvs k = Some v"
    using wf_map_of [OF JObj.prems] JObj.IH by fastforce
  show ?case
  proof (cases "isASTNode (Some (JObj kvs))")
    case True
    show ?thesis unfolding records_def
    proof (intro allI impI)
      fix p and s :: node_sets
      assume at: "cwalk ast p = Some (JObj kvs)" and s: "dom (map_of s) = set astNodeTypeStrings"
      note here = buildASTNodeSet_listed [OF at s, of nullCopy]
      show "if listed_types (JObj kvs)
        then \<exists>s'. visitWithPath (buildASTNodeSet_visitor nullCopy ast) (\<lambda>_ _ s. Inr s) (JObj kvs) p s = Inr s' \<and>
          dom (map_of s') = set astNodeTypeStrings
        else visitWithPath (buildASTNodeSet_visitor nullCopy ast) (\<lambda>_ _ s. Inr s) (JObj kvs) p s = Inl AssertionError"
      proof (cases "case map_of kvs ''type'' of Some (JStr t) \<Rightarrow> t \<in> set astNodeTypeStrings | _ \<Rightarrow> False")
        case listed: True
        with here obtain s1 where s1: "buildASTNodeSet_visitor nullCopy ast (JObj kvs) p s = Inr (s1, True)"
          "dom (map_of s1) = set astNodeTypeStrings" by auto
        from records_props [OF props at s1(2)] s1(1) listed True show ?thesis
          by (auto simp del: isASTNode.simps)
      next
        case False
        with here True show ?thesis by (simp del: isASTNode.simps)
      qed
    qed
  qed (simp add: records_def)
qed (simp_all add: records_def)

lemma new_RandomASTNodeSpace_listed:
  assumes "wf_val ast"
  shows "if listed_types ast then \<exists>S. new_RandomASTNodeSpace nullCopy ast = Inr S
    else new_RandomASTNodeSpace nullCopy ast = Inl AssertionError"
proof -
  have dom: "dom (map_of empty_node_sets) = set astNodeTypeStrings"
    by (simp add: dom_map_of_conv_image_fst empty_node_sets_def image_image)
  have "cwalk ast [] = Some ast" by simp
  from records_value [OF assms, of nullCopy ast, unfolded records_def, rule_format, OF this dom] show ?thesis
    by (auto simp: new_RandomASTNodeSpace_def split: if_splits)
qed

section \<open>New nodes\<close>

text \<open>Values of an interface, by its fields.\<close>

lemma field_types_Some:
  "field_types fs kvs = Some ws \<Longrightarrow> (k, optional, ty) \<in> set fs \<Longrightarrow> map_of kvs k = Some w \<Longrightarrow> (ty, w) \<in> set ws"
  by (force simp: field_types_def List.map_filter_def split: if_splits)

lemma conforms_field:
  assumes "conforms (TsNode ts) v" and "has_type v t" and "(k, optional, ty) \<in> set (declared_fields t)"
    and "js_prop v k = Some w"
  shows "conforms ty w"
proof (cases v)
  case (JObj kvs)
  with assms(1,2) obtain ws where "field_types (declared_fields t) kvs = Some ws" "list_all (\<lambda>(ty, w). conforms ty w) ws"
    by (auto simp: has_type_def split: option.splits jsval.splits)
  with field_types_Some [OF this(1) assms(3)] assms(4) JObj show ?thesis by (auto simp: list_all_iff)
qed (use assms(1) in auto)

lemma conforms_type: "conforms (TsNode ts) v \<Longrightarrow> \<exists>t \<in> set ts. has_type v t \<and> conforms (TsNode [t]) v"
  by (cases v) (auto simp: has_type_def split: option.splits jsval.splits)

lemma conforms_more: "conforms (TsNode ts) v \<Longrightarrow> set ts \<subseteq> set us \<Longrightarrow> conforms (TsNode us) v"
  by (cases v) (auto split: option.splits jsval.splits)

lemma declared_here:
  "declared_fields ''BinaryOperation'' = BaseASTNode_fields @ [(''left'', False, TsNode Expression_types),
     (''right'', False, TsNode Expression_types), (''operator'', False, TsLiteral BinOp)]"
  "declared_fields ''NumberLiteral'' = BaseASTNode_fields @ [(''number'', False, TsString),
     (''subdenomination'', False, TsNullable (TsLiteral [''wei'', ''szabo'', ''finney'', ''ether'', ''seconds'',
       ''minutes'', ''hours'', ''days'', ''weeks'', ''years'']))]"
  "declared_fields ''BooleanLiteral'' = BaseASTNode_fields @ [(''value'', False, TsBoolean)]"
  "declared_fields ''ExpressionStatement'' = BaseASTNode_fields @ [(''expression'', False, TsNode Expression_types)]"
  "declared_fields ''FunctionCall'' = BaseASTNode_fields @ [(''expression'', False, TsNode Expression_types),
     (''arguments'', False, TsArray (TsNode [''FunctionCallArguments'']))]"
  by code_simp+

lemma conforms_BinaryOperation:
  "conforms (TsNode [''BinaryOperation'']) (JObj [(''type'', JStr ''BinaryOperation''), (''left'', l), (''right'', r),
     (''operator'', oper)]) \<longleftrightarrow>
   conforms (TsNode Expression_types) l \<and> conforms (TsNode Expression_types) r \<and> conforms (TsLiteral BinOp) oper"
  by (subst conforms.simps)
    (simp add: declared_here field_types_def BaseASTNode_fields_def List.map_filter_def del: conforms.simps)

lemma conforms_NumberLiteral:
  "conforms (TsNode [''NumberLiteral'']) (JObj [(''type'', JStr ''NumberLiteral''), (''number'', n),
     (''subdenomination'', JNull)]) \<longleftrightarrow> conforms TsString n"
  by (subst conforms.simps)
    (simp add: declared_here field_types_def BaseASTNode_fields_def List.map_filter_def del: conforms.simps(1))

lemma conforms_BooleanLiteral:
  "conforms (TsNode [''BooleanLiteral'']) (JObj [(''type'', JStr ''BooleanLiteral''), (''value'', JBool b)])"
  by (simp add: declared_here field_types_def BaseASTNode_fields_def List.map_filter_def)

lemma conforms_ExpressionStatement:
  "conforms (TsNode [''ExpressionStatement'']) (JObj [(''type'', JStr ''ExpressionStatement''), (''expression'', e)]) \<longleftrightarrow>
   conforms (TsNode Expression_types) e"
  by (subst conforms.simps)
    (simp add: declared_here field_types_def BaseASTNode_fields_def List.map_filter_def del: conforms.simps)

text \<open>Recorded nodes that have their declared types.\<close>

definition typed_sets :: "node_sets \<Rightarrow> bool" where
  "typed_sets sets \<longleftrightarrow> (\<forall>(t, nodes) \<in> set sets. \<forall>(n, sc) \<in> set nodes. conforms (TsNode [t]) n)"

lemma reusable_typed:
  assumes "typed_sets sets" and "getReusableNodeSet sets t sc = Inr ns" and "n \<in> set ns"
  shows "conforms (TsNode [t]) n"
proof -
  obtain ms where ms: "getPredefinedASTNodeSet sets t sc = Inr ms" "n \<in> set ms"
    using assms(2,3) by (auto simp: getReusableNodeSet_def filter_result_set split: if_splits)
  then obtain nodes where "map_of sets t = Some nodes" "n \<in> fst ` set nodes"
    by (force simp: getPredefinedASTNodeSet_def split: option.splits)
  with assms(1) show ?thesis by (fastforce simp: typed_sets_def dest: map_of_SomeD)
qed

lemma reusable_prop_typed:
  assumes "typed_sets sets" and "getReusableNodeSet sets t sc = Inr ns" and "(k, False, ty) \<in> set (declared_fields t)"
    and "w \<in> set (props_of k ns)"
  shows "conforms ty w"
proof -
  obtain n where n: "n \<in> set ns" "js_prop n k = Some w" using assms(4)
    by (auto simp: props_of_def List.map_filter_def)
  have c: "conforms (TsNode [t]) n" by (rule reusable_typed [OF assms(1,2) n(1)])
  then have "has_type n t" using conforms_type by fastforce
  from conforms_field [OF c this assms(3) n(2)] show ?thesis .
qed

lemma instances_complete_list: "\<forall>x \<in> set xs. complete x \<Longrightarrow> instances (JGen xs) = xs"
  by (induction xs) (auto simp: instances_closed complete_def)

lemma instances_props_complete:
  assumes "complete_sets sets" and "getReusableNodeSet sets t sc = Inr ns"
  shows "concat (map instances (props_of k ns)) = props_of k ns"
proof -
  have "\<forall>x \<in> set (props_of k ns). complete x"
    using props_of_complete reusable_complete [OF assms] by blast
  from instances_complete_list [OF this] show ?thesis by simp
qed

text \<open>The templates.\<close>

lemma BinaryOperation_typed:
  assumes "complete_sets sets" and "typed_sets sets" and "BinaryOperation_space sets ctx = Inr v" and "u \<in> set (instances v)"
  shows "conforms (TsNode [''BinaryOperation'']) u"
proof -
  obtain bs where bs: "getReusableNodeSet sets ''BinaryOperation'' (ctx_scope ctx) = Inr bs"
    and v: "v = JObj [(''type'', JStr ''BinaryOperation''), (''left'', JGen (props_of ''left'' bs)),
      (''right'', JGen (props_of ''right'' bs)), (''operator'', gen_strings binOps)]"
    using assms(3) by (auto simp: BinaryOperation_space_def)
  obtain l r oper where u: "u = JObj [(''type'', JStr ''BinaryOperation''), (''left'', l), (''right'', r), (''operator'', JStr oper)]"
    and l: "l \<in> set (props_of ''left'' bs)" and r: "r \<in> set (props_of ''right'' bs)" and oper: "oper \<in> set binOps"
    using assms(4) instances_props_complete [OF assms(1) bs]
    by (auto simp: v gen_strings_def comp_def)
  have "conforms (TsNode Expression_types) l" "conforms (TsNode Expression_types) r"
    using reusable_prop_typed [OF assms(2) bs _ l, of "TsNode Expression_types"]
      reusable_prop_typed [OF assms(2) bs _ r, of "TsNode Expression_types"]
    by (simp_all add: declared_here del: conforms.simps)
  moreover have "set binOps \<subseteq> set BinOp" by code_simp
  ultimately show ?thesis using oper by (auto simp: u conforms_BinaryOperation simp del: conforms.simps(5))
qed

lemma NumberLiteral_typed:
  assumes "complete_sets sets" and "typed_sets sets" and "NumberLiteral_space sets ctx = Inr v" and "u \<in> set (instances v)"
  shows "conforms (TsNode [''NumberLiteral'']) u"
proof -
  obtain ns where ns: "getReusableNodeSet sets ''NumberLiteral'' (ctx_scope ctx) = Inr ns"
    and v: "v = JObj [(''type'', JStr ''NumberLiteral''),
      (''number'', JGen ([JStr ''0'', JStr ''1''] @ props_of ''number'' ns)), (''subdenomination'', JGen [JNull])]"
    using assms(3) by (auto simp: NumberLiteral_space_def)
  obtain n where u: "u = JObj [(''type'', JStr ''NumberLiteral''), (''number'', n), (''subdenomination'', JNull)]"
    and n: "n \<in> set ([JStr ''0'', JStr ''1''] @ props_of ''number'' ns)"
    using assms(4) instances_props_complete [OF assms(1) ns, of "''number''"] by (auto simp: v)
  have "conforms TsString n"
    using n reusable_prop_typed [OF assms(2) ns, of "''number''" TsString n] by (auto simp: declared_here)
  then show ?thesis by (simp add: u conforms_NumberLiteral del: conforms.simps)
qed

text \<open>The calls of \<open>require\<close> and \<open>assert\<close> are no values of the declared type: their arguments are
  expressions, where the declaration asks for nodes of type \<open>FunctionCallArguments\<close>.\<close>

definition assertion_call :: "jsval \<Rightarrow> bool" where
  "assertion_call e \<longleftrightarrow> has_type e ''FunctionCall'' \<and> (\<exists>f. js_prop e ''expression'' = Some f \<and>
     js_prop f ''name'' \<in> {Some (JStr ''require''), Some (JStr ''assert'')})"

lemma FunctionCall_typed:
  assumes "complete_sets sets" and "typed_sets sets" and "FunctionCall_space sets ctx = Inr v" and "u \<in> set (instances v)"
  shows "assertion_call u" and "\<not> conforms (TsNode [''FunctionCall'']) u"
proof -
  obtain ss where ss: "getReusableNodeSet sets ''ExpressionStatement'' (ctx_scope ctx) = Inr ss"
    and v: "v = JGen [JObj [(''type'', JStr ''FunctionCall''), (''expression'', JObj [(''type'', JStr ''Identifier''),
            (''name'', gen_strings [''require'', ''assert''])]),
         (''arguments'', JArr [JGen (props_of ''expression'' ss)]), (''names'', JArr [])]]"
    using assms(3) by (auto simp: FunctionCall_space_def)
  obtain f a where u: "u = JObj [(''type'', JStr ''FunctionCall''),
      (''expression'', JObj [(''type'', JStr ''Identifier''), (''name'', JStr f)]), (''arguments'', JArr [a]), (''names'', JArr [])]"
    and f: "f \<in> {''require'', ''assert''}" and a: "a \<in> set (props_of ''expression'' ss)"
    using assms(4) instances_props_complete [OF assms(1) ss] by (auto simp: v gen_strings_def)
  show "assertion_call u" using f by (auto simp: u assertion_call_def has_type_def)
  have "conforms (TsNode Expression_types) a"
    using reusable_prop_typed [OF assms(2) ss _ a, of "TsNode Expression_types"] by (simp add: declared_here del: conforms.simps)
  then obtain t where "t \<in> set Expression_types" "has_type a t" using conforms_type by blast
  moreover have "''FunctionCallArguments'' \<notin> set Expression_types" by code_simp
  ultimately have "\<not> has_type a ''FunctionCallArguments''" by (auto simp: has_type_def)
  then have "\<not> conforms (TsNode [''FunctionCallArguments'']) a" using conforms_type by fastforce
  then have "\<not> conforms (TsArray (TsNode [''FunctionCallArguments''])) (JArr [a])" by (simp del: conforms.simps(5))
  moreover have "has_type u ''FunctionCall''" "js_prop u ''arguments'' = Some (JArr [a])"
    by (simp_all add: u has_type_def)
  ultimately show "\<not> conforms (TsNode [''FunctionCall'']) u"
    using conforms_field [of "[''FunctionCall'']" u "''FunctionCall''" "''arguments''" False
        "TsArray (TsNode [''FunctionCallArguments''])" "JArr [a]"]
    by (auto simp: declared_here simp del: conforms.simps)
qed

lemma AssignmentOperation_typed:
  assumes "complete_sets sets" and "typed_sets sets" and "AssignmentOperation_space sets ctx = Inr (Some v)"
    and "u \<in> set (instances v)"
  shows "conforms (TsNode Expression_types) u"
proof -
  obtain ids bs where ids: "Identifier_nodes sets ctx = Inr (Some ids)"
    and bs: "getReusableNodeSet sets ''BinaryOperation'' (ctx_scope ctx) = Inr bs"
    and v: "v = JGen [JObj [(''type'', JStr ''BinaryOperation''), (''left'', JGen ids),
      (''right'', JGen (props_of ''right'' bs)), (''operator'', gen_strings [''=''])]]"
    using assms(3) by (auto simp: AssignmentOperation_space_def BinaryOperation_space_def split: option.splits)
  have "\<forall>x \<in> set ids. complete x" by (rule Identifier_nodes_complete [OF assms(1) ids])
  from instances_complete_list [OF this] obtain l r where
    u: "u = JObj [(''type'', JStr ''BinaryOperation''), (''left'', l), (''right'', r), (''operator'', JStr ''='')]"
    and l: "l \<in> set ids" and r: "r \<in> set (props_of ''right'' bs)"
    using assms(4) instances_props_complete [OF assms(1) bs] by (auto simp: v gen_strings_def)
  have "conforms (TsNode [''Identifier'']) l"
    using ids l reusable_typed [OF assms(2)] by (auto simp: Identifier_nodes_def simp del: conforms.simps split: option.splits)
  then have "conforms (TsNode Expression_types) l" by (rule conforms_more) code_simp
  moreover have "conforms (TsNode Expression_types) r"
    using reusable_prop_typed [OF assms(2) bs _ r, of "TsNode Expression_types"] by (simp add: declared_here del: conforms.simps)
  moreover have "''='' \<in> set BinOp" by code_simp
  ultimately have "conforms (TsNode [''BinaryOperation'']) u"
    by (simp add: u conforms_BinaryOperation del: conforms.simps(5))
  then show ?thesis by (rule conforms_more) code_simp
qed

lemma ExpressionStatement_typed:
  assumes "complete_sets sets" and "typed_sets sets" and "ExpressionStatement_space sets ctx = Inr v" and "u \<in> set (instances v)"
  shows "conforms (TsNode [''ExpressionStatement'']) u \<or> (\<exists>e. js_prop u ''expression'' = Some e \<and> assertion_call e)"
proof -
  obtain bo call ss where bo: "AssignmentOperation_space sets ctx = Inr bo"
    and call: "FunctionCall_space sets ctx = Inr call"
    and ss: "getReusableNodeSet sets ''ExpressionStatement'' (ctx_scope ctx) = Inr ss"
    and v: "v = JObj [(''type'', JStr ''ExpressionStatement''),
       (''expression'', JGen ((case bo of None \<Rightarrow> [] | Some b \<Rightarrow> [b]) @ [call] @ props_of ''expression'' ss))]"
    using assms(3) by (auto simp: ExpressionStatement_space_def BinaryOperationStatement_space_def)
  obtain e where u: "u = JObj [(''type'', JStr ''ExpressionStatement''), (''expression'', e)]"
    and e: "(\<exists>b. bo = Some b \<and> e \<in> set (instances b)) \<or> e \<in> set (instances call) \<or> e \<in> set (props_of ''expression'' ss)"
    using assms(4) instances_props_complete [OF assms(1) ss, of "''expression''"]
    by (auto simp: v split: option.splits)
  from e consider "conforms (TsNode Expression_types) e" | "assertion_call e"
  proof (elim disjE exE conjE)
    assume "e \<in> set (props_of ''expression'' ss)"
    from reusable_prop_typed [OF assms(2) ss _ this, of "TsNode Expression_types"] that(1) show thesis
      by (simp add: declared_here del: conforms.simps)
  qed (use AssignmentOperation_typed [OF assms(1,2)] FunctionCall_typed(1) [OF assms(1,2) call] bo that in blast)+
  then show ?thesis by cases (simp_all add: u conforms_ExpressionStatement del: conforms.simps)
qed

text \<open>What a space that is not seeded stands for.\<close>

lemma node_space_typed:
  assumes "complete_sets (ASTNodeMapSet S)" and "typed_sets (ASTNodeMapSet S)" and "\<not> seeded S"
    and "node_space S t ctx = Some (Inr (Some v))" and "t \<noteq> ''Identifier''" and "u \<in> set (instances v)"
  shows "conforms (TsNode [t]) u \<or> assertion_call u \<or> (\<exists>e. js_prop u ''expression'' = Some e \<and> assertion_call e)"
  using assms
  by (auto simp: node_space_def ASTNodeSpace_method_def UnaryOperation_space_def Conditional_space_def
      BooleanLiteral_space_def conforms_BooleanLiteral simp del: conforms.simps split: if_splits
      dest: ExpressionStatement_typed FunctionCall_typed(1) NumberLiteral_typed BinaryOperation_typed)

context space_libs
begin

lemma generated_typed:
  assumes "complete_sets (ASTNodeMapSet S)" and "typed_sets (ASTNodeMapSet S)" and "\<not> seeded S"
    and "getASTNodeGenerator L C S t ctx seed = Returned ys" and "t \<noteq> ''Identifier''" and "n \<in> set ys"
  shows "conforms (TsNode [t]) n \<or> assertion_call n \<or> (\<exists>e. js_prop n ''expression'' = Some e \<and> assertion_call e)"
proof -
  obtain v where v: "node_space S t ctx = Some (Inr (Some v))" "mset ys = mset (instances v)"
    by (rule generator_Returned [OF assms(1,4)])
  then have "n \<in> set (instances v)" using assms(6) by (metis set_mset_mset)
  from node_space_typed [OF assms(1-3) v(1) assms(5) this] show ?thesis .
qed

lemma generated_calls:
  assumes "complete_sets (ASTNodeMapSet S)" and "typed_sets (ASTNodeMapSet S)" and "\<not> seeded S"
    and "getASTNodeGenerator L C S ''FunctionCall'' ctx seed = Returned ys" and "n \<in> set ys"
  shows "\<not> conforms (TsNode [''FunctionCall'']) n"
proof -
  obtain v where v: "node_space S ''FunctionCall'' ctx = Some (Inr (Some v))" "mset ys = mset (instances v)"
    by (rule generator_Returned [OF assms(1,4)])
  then have n: "n \<in> set (instances v)" using assms(5) by (metis set_mset_mset)
  have "FunctionCall_space (ASTNodeMapSet S) ctx = Inr v"
    using v(1) assms(3) by (auto simp: node_space_def ASTNodeSpace_method_def split: if_splits)
  from FunctionCall_typed(2) [OF assms(1,2) this n] show ?thesis .
qed

end

end
