(* ===== verification/TypeProperties.thy ===== *)
theory TypeProperties
  imports TypedNodes SampleRun
begin

text \<open>
  The properties of the declared types: the programs a space of new nodes can be built for, and
  which of the nodes it yields have the types they are declared with.
\<close>

definition emitting_ast :: jsval where
  "emitting_ast = JObj [(''type'', JStr ''SourceUnit''), (''children'', JArr [JObj [(''type'', JStr ''EmitStatement'')]])]"

text \<open>Property C23. The space of new nodes of a program can be built exactly when every node the
  traversal comes to has one of the types in \<open>astNodeTypeStrings\<close>; otherwise an assertion fails.
  Two declared types of nodes are not listed there, event emissions and hexadecimal literals.\<close>

theorem space_needs_listed_types:
  assumes "wf_val ast"
  shows "(new_RandomASTNodeSpace nullCopy ast = Inl AssertionError \<longleftrightarrow> \<not> listed_types ast) \<and>
    ((\<exists>S. new_RandomASTNodeSpace nullCopy ast = Inr S) \<longleftrightarrow> listed_types ast) \<and>
    set ASTNode_types - set astNodeTypeStrings = {''EmitStatement'', ''HexLiteral''}"
proof (intro conjI unlisted_types)
  note made = new_RandomASTNodeSpace_listed [OF assms, of nullCopy]
  show "new_RandomASTNodeSpace nullCopy ast = Inl AssertionError \<longleftrightarrow> \<not> listed_types ast"
    "(\<exists>S. new_RandomASTNodeSpace nullCopy ast = Inr S) \<longleftrightarrow> listed_types ast"
    using made by (auto split: if_splits)
qed

theorem space_needs_listed_types_witness:
  "conforms (TsNode ASTNode_types) emitting_ast \<and> new_RandomASTNodeSpace (JObj []) emitting_ast = Inl AssertionError"
proof
  have fields: "declared_fields ''EmitStatement'' = BaseASTNode_fields"
    "declared_fields ''SourceUnit'' = BaseASTNode_fields @ [(''children'', False, TsArray (TsNode ASTNode_types))]"
    by code_simp+
  have "conforms (TsNode [''EmitStatement'']) (JObj [(''type'', JStr ''EmitStatement'')])"
    by (simp add: fields field_types_def BaseASTNode_fields_def List.map_filter_def)
  then have "conforms (TsNode ASTNode_types) (JObj [(''type'', JStr ''EmitStatement'')])"
    by (rule conforms_more) code_simp
  then have "conforms (TsNode [''SourceUnit'']) emitting_ast"
    by (subst conforms.simps)
      (simp add: emitting_ast_def fields field_types_def BaseASTNode_fields_def List.map_filter_def del: conforms.simps(5))
  then show "conforms (TsNode ASTNode_types) emitting_ast" by (rule conforms_more) code_simp
  have "wf_val emitting_ast" "\<not> listed_types emitting_ast" by code_simp+
  with space_needs_listed_types [of emitting_ast "JObj []"] show "new_RandomASTNodeSpace (JObj []) emitting_ast = Inl AssertionError"
    by blast
qed

text \<open>Property C24. When the recorded nodes have their declared types, the nodes a space yields for a type have
  it too, except for generated calls of \<open>require\<close> and \<open>assert\<close> and statements of them: no such call has its
  declared type. (Identifiers are the exception of the source that yields an array.)\<close>

theorem new_nodes_have_declared_types:
  assumes "lodash_lib L" and "chance_lib C" and "complete_sets (ASTNodeMapSet S)" and "typed_sets (ASTNodeMapSet S)"
    and "\<not> seeded S" and "getASTNodeGenerator L C S t ctx seed = Returned ys" and "t \<noteq> ''Identifier''"
  shows "list_all (\<lambda>n. conforms (TsNode [t]) n \<or> assertion_call n \<or>
      (\<exists>e. js_prop n ''expression'' = Some e \<and> assertion_call e)) ys \<and>
    (t \<noteq> ''FunctionCall'' \<or> list_all (\<lambda>n. \<not> conforms (TsNode [t]) n) ys)"
  using space_libs.generated_typed [OF space_libsI [OF assms(1,2)] assms(3-7)]
    space_libs.generated_calls [OF space_libsI [OF assms(1,2)] assms(3-5)] assms(6)
  by (auto simp: list_all_iff simp del: conforms.simps)

definition five :: jsval where
  "five = JObj [(''type'', JStr ''NumberLiteral''), (''number'', JStr ''5''), (''subdenomination'', JNull)]"

definition five_space :: ast_node_space where
  "five_space = \<lparr>ASTNodeMapSet = [(''NumberLiteral'', [(five, \<lparr>contractName = None, functionName = None\<rparr>)])], seeded = False\<rparr>"

definition five_literals :: "jsval list" where
  "five_literals = the_returned (getASTNodeGenerator lodash_ref chance_ref five_space ''NumberLiteral'' None None) []"

theorem new_nodes_have_declared_types_witness:
  "length five_literals = 3 \<and> list_all (\<lambda>n. conforms (TsNode [''NumberLiteral'']) n \<or> assertion_call n \<or>
      (\<exists>e. js_prop n ''expression'' = Some e \<and> assertion_call e)) five_literals"
proof
  show "length five_literals = 3" by code_simp
  have "complete_sets (ASTNodeMapSet five_space)"
    by (simp add: complete_sets_def five_space_def five_def)
  moreover have "typed_sets (ASTNodeMapSet five_space)"
    by (simp add: typed_sets_def five_space_def five_def conforms_NumberLiteral del: conforms.simps(5))
  moreover have "\<not> seeded five_space" by (simp add: five_space_def)
  moreover have "getASTNodeGenerator lodash_ref chance_ref five_space ''NumberLiteral'' None None = Returned five_literals"
    unfolding five_literals_def by (rule the_returned_Returned) code_simp
  ultimately show "list_all (\<lambda>n. conforms (TsNode [''NumberLiteral'']) n \<or> assertion_call n \<or>
      (\<exists>e. js_prop n ''expression'' = Some e \<and> assertion_call e)) five_literals"
    using new_nodes_have_declared_types [OF lodash_lib_ref chance_lib_ref, of five_space "''NumberLiteral''" None None five_literals]
    by simp
qed

end
