(* ===== verification/Spec2Isabelle.thy ===== *)
theory Spec2Isabelle
  imports SequenceProperties CrossoverProperties MovementProperties MutationProperties
    InterestProperties FaultProperties GeneratorProperties DriverProperties ServedProperties
    ExecProperties TypeProperties
begin

text \<open>
  SCRepair repairs Solidity contracts by searching mutants of their AST. A Python program runs
  the search; the mutants come from a command line tool in TypeScript, the package under
  \<open>src/sm/src\<close>, which reads requests from its standard input, writes mutated sources and answers
  with the mutations that made them. Mutated contracts are judged by test cases, which the
  program under \<open>src/tc/src\<close> runs on a modified Ethereum client. This development models both
  TypeScript programs.

  \<^bold>\<open>The language.\<close> \<open>Prelude\<close> and \<open>JsValue\<close> hold the JavaScript values the program handles: numbers
  (integers, infinities, NaN), \<open>parseInt\<close>, array splicing, and the type \<open>jsval\<close> of values, whose
  constructor \<open>JGen\<close> is a function that makes a generator over some elements. An AST is such a
  value; a path is a list of property names and indices. Exceptions are the left values of
  \<open>'a result\<close>. Where a loop may fail to end, calls answer an \<open>'a outcome\<close> (\<open>RandomSource\<close>):
  \<open>Returned\<close>, \<open>Thrown\<close>, or \<open>Unfinished\<close> when the fuel is used up.

  \<^bold>\<open>Third parties.\<close> lodash, the random source chance, the printer prettier and the compiler solc
  are not in the repository and are parameters: the records \<open>lodash\<close>, \<open>lodash_names\<close>,
  \<open>lodash_coll\<close>, \<open>chance\<close>, \<open>toolchain\<close>, gathered for the generators in \<open>libs\<close>. Their documented
  behaviour is stated in the locales \<open>lodash_lib\<close>, \<open>lodash_name_lib\<close>, \<open>lodash_arrays\<close>,
  \<open>chance_lib\<close> and \<open>generator_libs\<close>, each with a reference instance on which the witnesses run;
  \<open>clean_libs\<close> adds that what lodash's \<open>transform\<close> makes of null has no source location. Nothing
  is assumed of the toolchain. The test executor has its lodash functions, p-map, the file system,
  temporary directories and testeth in the record \<open>test_env\<close>, with the laws of the locale \<open>test_executor\<close>.

  \<^bold>\<open>The parts\<close>, in the order in which they use each other:

  \<^item> \<open>AstUtils\<close>, \<open>FunctionalEqual\<close>: nodes, parents, scopes, removal of attributes, and equality of
    programs (\<open>lib/utils/index.ts\<close>, \<open>lib/utils/NodePathUtils.ts\<close>).
  \<^item> \<open>TrackedEdit\<close>: the contract of the abstract class \<open>Mutation\<close> as a locale, an edit with a
    forward and a backward tracking of paths. \<open>InsertionM\<close>, \<open>DeletionM\<close>, \<open>ReplacementM\<close>,
    \<open>MovementM\<close> model the four classes and interpret it; \<open>Mutations\<close> is their sum,
    \<open>ModifiedLocations\<close> and \<open>MutationJson\<close> the remaining methods.
  \<^item> \<open>MutationSequence\<close>, \<open>Rebase\<close>: sequences of mutations, rebasing, one-point crossover
    (\<open>lib/MutationSequence.ts\<close>, \<open>lib/MutateMutationSequence.ts\<close>).
  \<^item> \<open>CodeLocation\<close>, \<open>InterestedSpace\<close>, \<open>SpecifierParser\<close>: source ranges, the spaces of interest
    and their specifiers.
  \<^item> \<open>FaultSpaces\<close>: the traversal \<open>visitWithPath\<close>, the paths that may be mutated, and the
    deletable ones. \<open>FaultReach\<close> specifies the paths that may be mutated and those that the
    traversal reaches, and shows that the fault space is exactly what is both.
  \<^item> \<open>NodeSpace\<close>: templates of new nodes and their enumeration (\<open>lib/ASTNodeSpace.ts\<close>).
    \<open>SpaceEnumeration\<close> gives a template its meaning, the list of its instances, and shows that
    \<open>processSpace\<close> enumerates it; \<open>SpaceTypes\<close> shows what the templates of the program contain.
  \<^item> \<open>AstTypes\<close>, \<open>TypedNodes\<close>: the AST types as the program declares them
    (\<open>types/solidity-parser-antlr.d.ts\<close>), when a value has its declared type, and which new
    nodes have theirs.
  \<^item> \<open>GeneratorLibs\<close>, \<open>DeletionGen\<close>, \<open>InsertionGen\<close>, \<open>ReplacementGen\<close>, \<open>MovementGen\<close>: the random
    generators of the four mutations. The locale \<open>random_generator\<close> is the contract of their
    abstract class, a stock that every offered mutation uses up; each interprets it.
  \<^item> \<open>MutationGen\<close>: the generator of single mutations of one AST.
  \<^item> \<open>CleanNodes\<close>, \<open>BarePaths\<close>, \<open>SoundEdits\<close>: the generators work on copies of ASTs without tokens and
    locations. New nodes have none; a path that avoids them leads to the same place in both; and
    a sound mutation, one whose new nodes are complete and clean and that lands on such a path,
    does to the copy what it does to the AST.
  \<^item> \<open>DrawnNodes\<close>, \<open>DrawnMoves\<close>, \<open>DrawnMutations\<close>: what the generators hold in stock, and that every
    mutation they offer fits the AST (\<open>mutation_fits\<close>). \<open>ResentMutations\<close>: that it survives the
    way to the client and back.
  \<^item> \<open>Compile\<close>, \<open>SequenceGen\<close>: the generator of mutation sequences
    (\<open>lib/RandomMutationSequenceGenerator.ts\<close>). Its fields are the records \<open>seq_config\<close> (set
    once) and \<open>seq_gen\<close>; a Map is an association list in insertion order, a serialized AST the
    value its text denotes. \<open>SequenceInvariant\<close> holds its invariant.
  \<^item> \<open>Driver\<close>, \<open>DriverInvariant\<close>: the command line and the handling of requests
    (\<open>utils/bin.ts\<close>, \<open>utils/GenMutations.ts\<close>, \<open>lib/mutate.ts\<close>). \<open>reachable\<close> is the inductive
    set of the states of the generator under the operations the driver performs on it.
  \<^item> \<open>CarriedSpaces\<close>, \<open>ServedStates\<close>, \<open>ParsedAsts\<close>, \<open>ServedDriver\<close>: the driver as it serves a client. It is
    started on an AST of the parser (\<open>parser_ast\<close>: no value is left open, keys are distinct, no nodes
    in source positions, no functions in tokens) without \<open>Identifier\<close> among the types of new
    nodes, and asked for random sequences or for mutants of sequences it could have answered
    itself (\<open>request_ok\<close>); \<open>served\<close> is the inductive set of its states, and \<open>gen_ok\<close> their invariant.
    \<open>Exhaustion\<close> shows what it means that such a driver reports the end of the search, and
    \<open>SearchEnds\<close> that its requests end.
  \<^item> \<open>JsonText\<close>, \<open>TestDir\<close>, \<open>TestExec\<close>, \<open>TestExecFacts\<close>: the test executor (\<open>tc/src/exec.ts\<close>,
    \<open>tc/src/exec2.ts\<close>): a printer and parser of JSON texts, patching a test filler, the directory
    of a test as the list of file system operations that make it, with their mode bits, running a
    test, reading the traces it prints, the filter on covered locations, and the results of all
    files.
  \<^item> \<open>Sample\<close>, \<open>SampleRun\<close>: the concrete ASTs and the concrete run of the witnesses.

  \<^bold>\<open>What is shown.\<close> \<open>SequenceProperties\<close>: tracking a path through a sequence keeps the value or the
  node, is injective and undone by the reverse tracking, and rebasing is tracking of the origin.
  \<open>CrossoverProperties\<close>: the children of a crossover are plain arrays, and apply to the original
  AST once they are made sequences. \<open>MovementProperties\<close>
  and \<open>MutationProperties\<close>: single mutations, their JSON forms, the decision whether two programs
  are the same. \<open>InterestProperties\<close> and \<open>FaultProperties\<close>: ranges, specifiers, exactly which
  paths may be mutated, and which of them may be deleted. \<open>GeneratorProperties\<close>: the enumeration of templates, the types of generated
  nodes, and that generators of mutations end and offer mutations that fit. \<open>DriverProperties\<close>:
  that answers are new in all reachable states, and what the driver makes of its arguments.
  \<open>ServedProperties\<close>: in all states of a served driver, bases are what their sequences make of the
  original AST, drawn mutations apply, answered sequences apply and can be sent back, requests
  end, files hold the mutants and are distinct, no mutant is offered twice, and a search
  reported as exhausted stays so under random requests. \<open>ExecProperties\<close>: what the
  test runner gets and where it is stored, the positions read from traces, skipped files and
  results. \<open>TypeProperties\<close>: for which programs the space of new nodes can be built, and which of
  the new nodes have their declared types. Some properties
  state what the code does where it is not what it means to do; their names say so.

  \<^bold>\<open>Fuel.\<close> \<open>processSpace\<close> gets one round per nesting of generators in the template,
  which each recursive call lowers. The loops of the generators get one round more than the types
  (insertions, single mutations), the types left at all nodes (replacements), or the stock and the pairs
  (movements): every round that does not answer uses one up, which the termination lemmas show. A
  call of the generator of sequences for a given AST ends within one round per mutation left for
  that AST and one more. A call without a given AST draws from all bases and makes new ones; it ends
  when the maximal distance is finite, since the multiset of the bases' distances to go and
  mutations left decreases in every round. So all requests end (\<open>requests_end\<close>), with some
  fuel that depends on the state, and more fuel changes nothing; without a maximal distance the loop for random
  sequences can go on as long as new ASTs are rejected. The safety properties hold for every fuel.

  \<^bold>\<open>Not modelled.\<close> The text of prettier, solc, yargs and the
  parser; reading standard input and printing responses. The state left behind by an exception:
  a thrown exception ends the model, and in the program it ends the handler of a request. The
  handlers are asynchronous, but their steps on the shared state are taken as one block per
  request. Requests that no client of this program makes: those of a sequence that does not apply.
  Loggers and error classes have no behaviour of interest. Of the test executor: the order in
  which files run in parallel, numbers with fractions or exponents and characters beyond eight
  bits in JSON. The search in Python and the vendored client are other programs.
\<close>

end
